(* ===== verification/Xv6_Prelude.thy ===== *)
theory Xv6_Prelude
  imports Main "HOL-Library.Word"
begin

unbundle bit_operations_syntax

text \<open>
  The prelude of the development: the names of the C integer types
  (\<^verbatim>\<open>types.h\<close>), the state and failure monad in which every kernel
  function is written, its loop combinators, and the collections of rewrite
  rules that the component proofs use.

  A kernel function of result type \<open>'a\<close> is a function from the state to either
  a \<open>stop\<close> (the call does not return) or the result and the new state:
  \<^item> \<open>Panic msg\<close>: the code called \<^verbatim>\<open>panic(msg)\<close>, which halts the machine;
  \<^item> \<open>Spin l\<close>: the code spins for ever on a lock or a device that nobody serves;
  \<^item> \<open>Asleep c\<close>: the process is in \<^verbatim>\<open>sleep\<close> on channel \<open>c\<close> and nobody wakes it.
  The kernel's own \<^verbatim>\<open>panic\<close> is not part of the repository (\<^verbatim>\<open>printf.c\<close> is the
  user-level file of that name), so only the fact that it does not return is used.
\<close>

section \<open>C integers\<close>

type_synonym u8 = "8 word"
type_synonym u16 = "16 word"
type_synonym u32 = "32 word"
type_synonym u64 = "64 word"
type_synonym cint = "32 word" \<comment> \<open>C \<open>int\<close>: two's complement, read by \<open>sint\<close>\<close>

section \<open>Stopping and continuing\<close>

datatype chan =
    ChanProc nat       \<comment> \<open>a \<open>struct proc\<close>, used by \<open>wait\<close>\<close>
  | ChanTicks          \<comment> \<open>\<open>&ticks\<close>\<close>
  | ChanLog            \<comment> \<open>\<open>&log\<close>\<close>
  | ChanBuf nat        \<comment> \<open>a \<open>struct buf\<close>\<close>
  | ChanBufLock nat    \<comment> \<open>the sleep lock of a buffer\<close>
  | ChanInodeLock nat  \<comment> \<open>the sleep lock of an inode\<close>
  | ChanDisk           \<comment> \<open>\<open>&disk.free[0]\<close>\<close>
  | ChanConsR          \<comment> \<open>\<open>&cons.r\<close>\<close>
  | ChanUartR          \<comment> \<open>\<open>&uart_tx_r\<close>\<close>
  | ChanPipeR u64      \<comment> \<open>\<open>&pi->nread\<close>\<close>
  | ChanPipeW u64      \<comment> \<open>\<open>&pi->nwrite\<close>\<close>

datatype stop = Panic string | Spin string | Asleep chan

type_synonym ('s, 'a) kf = "'s \<Rightarrow> stop + ('a \<times> 's)"

definition kret :: "'a \<Rightarrow> ('s, 'a) kf" where
  "kret x = (\<lambda>s. Inr (x, s))"

definition kbind :: "('s, 'a) kf \<Rightarrow> ('a \<Rightarrow> ('s, 'b) kf) \<Rightarrow> ('s, 'b) kf" where
  "kbind m f = (\<lambda>s. case m s of Inl e \<Rightarrow> Inl e | Inr (x, t) \<Rightarrow> f x t)"

definition kseq :: "('s, 'a) kf \<Rightarrow> ('s, 'b) kf \<Rightarrow> ('s, 'b) kf" where
  "kseq m n = kbind m (\<lambda>_. n)"

definition kgets :: "('s \<Rightarrow> 'a) \<Rightarrow> ('s, 'a) kf" where
  "kgets f = (\<lambda>s. Inr (f s, s))"

definition kupd :: "('s \<Rightarrow> 's) \<Rightarrow> ('s, unit) kf" where
  "kupd f = (\<lambda>s. Inr ((), f s))"

definition panic :: "string \<Rightarrow> ('s, 'a) kf" where
  "panic msg = (\<lambda>s. Inl (Panic msg))"

definition spin :: "string \<Rightarrow> ('s, 'a) kf" where
  "spin what = (\<lambda>s. Inl (Spin what))"

definition asleep :: "chan \<Rightarrow> ('s, 'a) kf" where
  "asleep ch = (\<lambda>s. Inl (Asleep ch))"

definition kwhen :: "bool \<Rightarrow> ('s, unit) kf \<Rightarrow> ('s, unit) kf" where
  "kwhen b m = (if b then m else kret ())"

text \<open>A block of statements, executed in order.\<close>

fun block :: "('s, unit) kf list \<Rightarrow> ('s, unit) kf" where
  "block [] = kret ()"
| "block (m # ms) = kseq m (block ms)"

text \<open>
  A \<^verbatim>\<open>for\<close> loop over the entries of a table, and one whose body may leave the
  function: \<open>Some r\<close> is the early return of \<open>r\<close>, \<open>None\<close> goes on with the loop.
\<close>

fun kfor :: "'i list \<Rightarrow> ('i \<Rightarrow> ('s, unit) kf) \<Rightarrow> ('s, unit) kf" where
  "kfor [] body = kret ()"
| "kfor (i # is) body = kseq (body i) (kfor is body)"

fun kfind :: "'i list \<Rightarrow> ('i \<Rightarrow> ('s, 'r option) kf) \<Rightarrow> ('s, 'r option) kf" where
  "kfind [] body = kret None"
| "kfind (i # is) body =
     kbind (body i) (\<lambda>r. case r of None \<Rightarrow> kfind is body | Some x \<Rightarrow> kret (Some x))"

text \<open>
  Any other loop: the body is given the loop variables and answers with the next ones
  (\<open>Inl\<close>) or with the result with which the loop is left (\<open>Inr\<close>). The first argument
  bounds the number of rounds; a loop that uses it up does not return (\<open>Spin\<close>). A bound
  that is large enough does not matter (\<open>kloop_mono\<close>).
\<close>

fun kloop :: "nat \<Rightarrow> ('i \<Rightarrow> ('s, 'i + 'r) kf) \<Rightarrow> 'i \<Rightarrow> ('s, 'r) kf" where
  "kloop 0 body i = spin ''loop''"
| "kloop (Suc n) body i =
     kbind (body i) (\<lambda>r. case r of Inl j \<Rightarrow> kloop n body j | Inr x \<Rightarrow> kret x)"

text \<open>
  The environment of a thread: what the rest of the system does while the thread sleeps on a
  channel, until it runs again (a function of the state, in which anything about the history
  may be recorded), and how many times one loop around \<^verbatim>\<open>sleep\<close> may find its condition
  still false before the thread counts as blocked for good.
\<close>

type_synonym 's env = "nat \<times> (chan \<Rightarrow> ('s, unit) kf)"

definition rounds :: "'s env \<Rightarrow> nat" where
  "rounds e = fst e"

definition others :: "'s env \<Rightarrow> chan \<Rightarrow> ('s, unit) kf" where
  "others e = snd e"

text \<open>A loop around \<^verbatim>\<open>sleep\<close>.\<close>

fun kwaiting :: "chan \<Rightarrow> nat \<Rightarrow> ('i \<Rightarrow> ('s, 'i + 'r) kf) \<Rightarrow> 'i \<Rightarrow> ('s, 'r) kf" where
  "kwaiting ch 0 body i =
     kbind (body i) (\<lambda>r. case r of Inl j \<Rightarrow> asleep ch | Inr x \<Rightarrow> kret x)"
| "kwaiting ch (Suc n) body i =
     kbind (body i) (\<lambda>r. case r of Inl j \<Rightarrow> kwaiting ch n body j | Inr x \<Rightarrow> kret x)"

named_theorems k_simps \<open>one execution step of the monad\<close>
named_theorems k_pres \<open>preservation of a predicate by a kernel function\<close>

lemma kret_run [k_simps]: "kret x s = Inr (x, s)"
  by (simp add: kret_def)

lemma kgets_run [k_simps]: "kgets f s = Inr (f s, s)"
  by (simp add: kgets_def)

lemma kupd_run [k_simps]: "kupd f s = Inr ((), f s)"
  by (simp add: kupd_def)

lemma panic_run [k_simps]: "panic msg s = Inl (Panic msg)"
  by (simp add: panic_def)

lemma spin_run [k_simps]: "spin what s = Inl (Spin what)"
  by (simp add: spin_def)

lemma asleep_run [k_simps]: "asleep ch s = Inl (Asleep ch)"
  by (simp add: asleep_def)

lemma kbind_run [k_simps]: "kbind m f s = (case m s of Inl e \<Rightarrow> Inl e | Inr (x, t) \<Rightarrow> f x t)"
  by (simp add: kbind_def)

lemma kseq_run [k_simps]: "kseq m n s = (case m s of Inl e \<Rightarrow> Inl e | Inr (x, t) \<Rightarrow> n t)"
  by (simp add: kseq_def kbind_def)

lemma kwhen_run [k_simps]: "kwhen b m s = (if b then m s else Inr ((), s))"
  by (simp add: kwhen_def kret_def)

lemma kbind_Inr_iff:
  "kbind m f s = Inr (y, t) \<longleftrightarrow> (\<exists>x u. m s = Inr (x, u) \<and> f x u = Inr (y, t))"
  by (auto simp: kbind_def split: sum.splits)

lemma kseq_Inr_iff:
  "kseq m n s = Inr (y, t) \<longleftrightarrow> (\<exists>x u. m s = Inr (x, u) \<and> n u = Inr (y, t))"
  by (simp add: kseq_def kbind_Inr_iff)

lemma kbind_assoc: "kbind (kbind m f) g = kbind m (\<lambda>x. kbind (f x) g)"
  by (auto simp: kbind_def fun_eq_iff split: sum.splits)

lemma kfor_Cons_run:
  "kfor (i # is) body s = (case body i s of Inl e \<Rightarrow> Inl e | Inr (_, t) \<Rightarrow> kfor is body t)"
  by (simp add: k_simps)

lemma kfor_append: "kfor (xs @ ys) body s =
    (case kfor xs body s of Inl e \<Rightarrow> Inl e | Inr (_, t) \<Rightarrow> kfor ys body t)"
  by (induction xs arbitrary: s) (auto simp: k_simps split: sum.splits)

lemma kloop_numeral:
  "kloop (numeral k) body i =
     kbind (body i) (\<lambda>r. case r of Inl j \<Rightarrow> kloop (pred_numeral k) body j | Inr x \<Rightarrow> kret x)"
  by (simp add: numeral_eq_Suc)

lemma kwaiting_exit: "body i s = Inr (Inr x, t) \<Longrightarrow> kwaiting ch n body i s = Inr (x, t)"
  by (cases n) (simp_all add: k_simps)

lemma kloop_mono:
  "kloop n body i s = Inr r \<Longrightarrow> n \<le> m \<Longrightarrow> kloop m body i s = Inr r"
proof (induction n arbitrary: m i s)
  case (Suc n)
  from Suc.prems(2) obtain m' where "m = Suc m'" "n \<le> m'" by (cases m) auto
  with Suc.prems(1) Suc.IH show ?case
    by (cases "body i s") (auto simp: k_simps split: sum.splits)
qed (simp add: k_simps)

section \<open>Preserved predicates\<close>

text \<open>
  \<open>kpres I m\<close>: wherever \<open>m\<close> returns, it keeps \<open>I\<close>. The rules are by structure; the
  component theories add one rule per operation.
\<close>

definition kpres :: "('s \<Rightarrow> bool) \<Rightarrow> ('s, 'a) kf \<Rightarrow> bool" where
  "kpres I m \<longleftrightarrow> (\<forall>s x t. I s \<longrightarrow> m s = Inr (x, t) \<longrightarrow> I t)"

lemma kpresI: "(\<And>s x t. I s \<Longrightarrow> m s = Inr (x, t) \<Longrightarrow> I t) \<Longrightarrow> kpres I m"
  by (auto simp: kpres_def)

lemma kpresD: "kpres I m \<Longrightarrow> I s \<Longrightarrow> m s = Inr (x, t) \<Longrightarrow> I t"
  by (auto simp: kpres_def)

lemma kpres_ret [k_pres]: "kpres I (kret x)"
  by (auto simp: kpres_def k_simps)

lemma kpres_gets [k_pres]: "kpres I (kgets f)"
  by (auto simp: kpres_def k_simps)

lemma kpres_panic [k_pres]: "kpres I (panic msg)"
  by (auto simp: kpres_def k_simps)

lemma kpres_spin [k_pres]: "kpres I (spin what)"
  by (auto simp: kpres_def k_simps)

lemma kpres_asleep [k_pres]: "kpres I (asleep ch)"
  by (auto simp: kpres_def k_simps)

lemma kpres_upd: "(\<And>s. I s \<Longrightarrow> I (f s)) \<Longrightarrow> kpres I (kupd f)"
  by (auto simp: kpres_def k_simps)

lemma kpres_bind [k_pres]: "kpres I m \<Longrightarrow> (\<And>x. kpres I (f x)) \<Longrightarrow> kpres I (kbind m f)"
proof (rule kpresI)
  fix s y t
  assume m: "kpres I m" and f: "\<And>x. kpres I (f x)" and s: "I s" "kbind m f s = Inr (y, t)"
  from s(2) obtain x u where "m s = Inr (x, u)" "f x u = Inr (y, t)"
    unfolding kbind_Inr_iff by blast
  with m f s(1) show "I t" by (blast dest: kpresD)
qed

lemma kpres_seq [k_pres]: "kpres I m \<Longrightarrow> kpres I n \<Longrightarrow> kpres I (kseq m n)"
  by (simp add: kseq_def kpres_bind)

lemma kpres_when [k_pres]: "(b \<Longrightarrow> kpres I m) \<Longrightarrow> kpres I (kwhen b m)"
  by (auto simp: kwhen_def kpres_ret)

lemma kpres_if [k_pres]: "(b \<Longrightarrow> kpres I m) \<Longrightarrow> (\<not> b \<Longrightarrow> kpres I n) \<Longrightarrow> kpres I (if b then m else n)"
  by auto

lemma kpres_block [k_pres]: "(\<And>m. m \<in> set ms \<Longrightarrow> kpres I m) \<Longrightarrow> kpres I (block ms)"
  by (induction ms) (auto intro: k_pres)

lemma kpres_for [k_pres]: "(\<And>i. i \<in> set is \<Longrightarrow> kpres I (body i)) \<Longrightarrow> kpres I (kfor is body)"
  by (induction "is") (auto intro: k_pres)

lemma kpres_find [k_pres]: "(\<And>i. i \<in> set is \<Longrightarrow> kpres I (body i)) \<Longrightarrow> kpres I (kfind is body)"
  by (induction "is") (auto intro!: kpres_bind kpres_ret split: option.splits)

lemma kpres_loop [k_pres]: "(\<And>i. kpres I (body i)) \<Longrightarrow> kpres I (kloop n body i)"
  by (induction n arbitrary: i) (auto intro!: kpres_bind kpres_ret kpres_spin split: sum.splits)

lemma kpres_waiting [k_pres]: "(\<And>i. kpres I (body i)) \<Longrightarrow> kpres I (kwaiting ch n body i)"
  by (induction n arbitrary: i) (auto intro!: kpres_bind kpres_ret kpres_asleep split: sum.splits)

section \<open>Words of 64 bits\<close>

lemma u64_bound: "unat (a::u64) < 18446744073709551616"
  using unsigned_less [of a, where 'a=nat] by simp

lemma unat_add_u64:
  "unat (a::u64) + unat b < 18446744073709551616 \<Longrightarrow> unat (a + b) = unat a + unat b"
  using unat_add_lem [of a b] by simp

lemma unat_mult_u64:
  "unat (a::u64) * unat b < 18446744073709551616 \<Longrightarrow> unat (a * b) = unat a * unat b"
  using unat_mult_lem [of a b] by simp

lemma unat_and_mask: "unat (a AND mask n :: u64) = unat a mod 2 ^ n"
  by (simp only: take_bit_eq_mask [symmetric] unsigned_take_bit_eq) (simp add: take_bit_eq_mod)

lemma unat_drop_bit_div: "unat (drop_bit k a :: u64) = unat a div 2 ^ k"
  by (simp only: unat_drop_bit_eq) (simp add: drop_bit_eq_div)

lemma take_bit_id: "unat (f::u64) < 2 ^ n \<Longrightarrow> take_bit n f = f"
  by (simp only: word_unat_eq_iff unsigned_take_bit_eq take_bit_nat_eq_self)

lemma bit_less: "unat (f::u64) < 2 ^ n \<Longrightarrow> bit f k \<Longrightarrow> k < n"
  by (metis bit_take_bit_iff take_bit_id)

lemma low_bits_zero:
  assumes "unat (a::u64) mod 2 ^ n = 0" and "k < n"
  shows "\<not> bit a k"
proof -
  from assms(1) have "take_bit n (unat a) = 0" by (simp add: take_bit_eq_mod)
  then have "unat (take_bit n a) = 0" by (simp only: unsigned_take_bit_eq)
  then have "take_bit n a = 0" by (simp only: unat_eq_0)
  with assms(2) show ?thesis by (metis bit_take_bit_iff bit_0_eq bot_apply bot_bool_def)
qed

text \<open>The offset of \<open>a\<close> from \<open>b\<close>, as address comparisons use it.\<close>

lemma unat_diff_u64: "unat (b::u64) \<le> unat a \<Longrightarrow> unat (a - b) = unat a - unat b"
  by (simp add: unat_sub word_le_nat_alt)

text \<open>C \<open>int\<close>: the signed and the unsigned reading agree below \<open>2 ^ 31\<close>.\<close>

lemma unat_sint: "0 \<le> sint (w::cint) \<Longrightarrow> unat w = nat (sint w)"
  using sint_lt [of w] by (simp add: unat_eq_nat_uint uint_sint take_bit_int_eq_self)

lemma sint_unat: "unat (w::cint) < 2 ^ 31 \<Longrightarrow> sint w = int (unat w)"
proof -
  assume "unat w < 2 ^ 31"
  then have u: "uint w < 2 ^ 31" by (metis of_nat_less_iff of_nat_numeral of_nat_power uint_nat)
  have "sint w = signed_take_bit 31 (uint w)" by (simp only: sint_uint) simp
  also have "\<dots> = uint w" by (rule signed_take_bit_int_eq_self, rule order_trans [of _ 0], simp, simp, rule u)
  finally show ?thesis by (simp only: uint_nat)
qed

end
