(* ===== verification/Xv6_Riscv.thy ===== *)
theory Xv6_Riscv
  imports Xv6_Prelude
begin

text \<open>
  The address arithmetic of \<^verbatim>\<open>riscv.h\<close> and the memory layout of \<^verbatim>\<open>memlayout.h\<close>:
  page rounding, page-table entries, the three 9-bit indices of an Sv39 virtual
  address, and where the kernel stacks, the trampoline and the trapframe lie.
  Every macro works on 64 bit words, as the C expressions do.
\<close>

section \<open>Pages\<close>

definition PGSIZE :: u64 where "PGSIZE = 4096"

definition PGROUNDUP :: "u64 \<Rightarrow> u64" where
  "PGROUNDUP sz = (sz + PGSIZE - 1) AND NOT (PGSIZE - 1)"

definition PGROUNDDOWN :: "u64 \<Rightarrow> u64" where
  "PGROUNDDOWN a = a AND NOT (PGSIZE - 1)"

section \<open>Page-table entries\<close>

definition PTE_V :: u64 where "PTE_V = 1"
definition PTE_R :: u64 where "PTE_R = 2"
definition PTE_W :: u64 where "PTE_W = 4"
definition PTE_X :: u64 where "PTE_X = 8"
definition PTE_U :: u64 where "PTE_U = 16"

definition PA2PTE :: "u64 \<Rightarrow> u64" where
  "PA2PTE pa = push_bit 10 (drop_bit 12 pa)"

definition PTE2PA :: "u64 \<Rightarrow> u64" where
  "PTE2PA pte = push_bit 12 (drop_bit 10 pte)"

definition PTE_FLAGS :: "u64 \<Rightarrow> u64" where
  "PTE_FLAGS pte = pte AND 0x3FF"

definition PXMASK :: u64 where "PXMASK = 0x1FF"

definition PXSHIFT :: "nat \<Rightarrow> nat" where
  "PXSHIFT level = 12 + 9 * level"

definition PX :: "nat \<Rightarrow> u64 \<Rightarrow> u64" where
  "PX level va = drop_bit (PXSHIFT level) va AND PXMASK"

definition MAXVA :: u64 where
  "MAXVA = push_bit (9 + 9 + 9 + 12 - 1) 1"

section \<open>Memory layout\<close>

definition UART0 :: u64 where "UART0 = 0x10000000"
definition VIRTIO0 :: u64 where "VIRTIO0 = 0x10001000"
definition PLIC :: u64 where "PLIC = 0x0c000000"
definition KERNBASE :: u64 where "KERNBASE = 0x80000000"
definition PHYSTOP :: u64 where "PHYSTOP = KERNBASE + 128 * 1024 * 1024"
definition TRAMPOLINE :: u64 where "TRAMPOLINE = MAXVA - PGSIZE"
definition TRAPFRAME :: u64 where "TRAPFRAME = TRAMPOLINE - PGSIZE"

definition KSTACK :: "nat \<Rightarrow> u64" where
  "KSTACK p = TRAMPOLINE - (of_nat p + 1) * 2 * PGSIZE"

definition SATP_SV39 :: u64 where "SATP_SV39 = push_bit 60 8"

definition MAKE_SATP :: "u64 \<Rightarrow> u64" where
  "MAKE_SATP pagetable = SATP_SV39 OR drop_bit 12 pagetable"

named_theorems layout_defs \<open>the numeric value of a layout constant\<close>

lemma PHYSTOP_val [layout_defs]: "PHYSTOP = 0x88000000"
  by (simp add: PHYSTOP_def KERNBASE_def)

lemma MAXVA_val [layout_defs]: "MAXVA = 0x4000000000"
  by (simp add: MAXVA_def push_bit_eq_mult)

lemma TRAMPOLINE_val [layout_defs]: "TRAMPOLINE = 0x3FFFFFF000"
  by (simp add: TRAMPOLINE_def MAXVA_val PGSIZE_def)

lemma TRAPFRAME_val [layout_defs]: "TRAPFRAME = 0x3FFFFFE000"
  by (simp add: TRAPFRAME_def TRAMPOLINE_val PGSIZE_def)

section \<open>Rounding\<close>

definition pg_aligned :: "u64 \<Rightarrow> bool" where
  "pg_aligned a \<longleftrightarrow> a mod PGSIZE = 0"

lemma unat_PGSIZE [simp]: "unat PGSIZE = 4096"
  by (simp add: PGSIZE_def)

lemma pg_aligned_iff: "pg_aligned a \<longleftrightarrow> unat a mod 4096 = 0"
  by (simp add: pg_aligned_def PGSIZE_def unat_eq_0 [symmetric] unat_mod_distrib)

lemma and_not_pgmask: "a AND NOT (PGSIZE - 1) = a div 4096 * 4096"
proof -
  have m: "PGSIZE - 1 = mask 12"
    by (simp add: PGSIZE_def mask_eq_exp_minus_1)
  have "a AND NOT (mask 12) = push_bit 12 (drop_bit 12 a)"
    by (rule bit_word_eqI) (auto simp: bit_simps)
  then show ?thesis by (simp add: m push_bit_eq_mult drop_bit_eq_div)
qed

lemma unat_div_mult_4096: "unat (a div 4096 * 4096 :: u64) = unat a div 4096 * 4096"
proof -
  have "unat a div 4096 * 4096 \<le> unat a" by simp
  with u64_bound [of a] have "unat a div 4096 * 4096 < 18446744073709551616" by linarith
  then show ?thesis by (subst unat_mult_u64) (simp_all add: unat_div_distrib)
qed

lemma unat_PGROUNDDOWN: "unat (PGROUNDDOWN a) = unat a div 4096 * 4096"
  by (simp add: PGROUNDDOWN_def and_not_pgmask unat_div_mult_4096)

lemma unat_PGROUNDUP:
  assumes "unat a + 4095 < 18446744073709551616"
  shows "unat (PGROUNDUP a) = (unat a + 4095) div 4096 * 4096"
proof -
  have "unat (a + 4095) = unat a + 4095"
    using assms by (subst unat_add_u64) simp_all
  moreover have e: "a + PGSIZE - 1 = a + 4095"
    by (simp add: PGSIZE_def)
  ultimately show ?thesis
    unfolding PGROUNDUP_def and_not_pgmask e unat_div_mult_4096 by simp
qed

lemma PGROUNDDOWN_aligned: "pg_aligned (PGROUNDDOWN a)"
  by (simp add: pg_aligned_iff unat_PGROUNDDOWN)

lemma PGROUNDUP_aligned: "pg_aligned (PGROUNDUP a)"
  by (simp add: pg_aligned_iff PGROUNDUP_def and_not_pgmask unat_div_mult_4096)

section \<open>Entries and indices\<close>

lemma PTE2PA_roundtrip:
  assumes pa: "pg_aligned pa" "unat pa < 2 ^ 56" and f: "unat f < 1024"
  shows "PTE2PA (PA2PTE pa OR f) = pa"
  unfolding PTE2PA_def PA2PTE_def
proof (rule bit_word_eqI)
  fix n assume n: "n < LENGTH(64)"
  from pa(1) have al: "unat pa mod 2 ^ 12 = 0" by (simp add: pg_aligned_iff)
  have f': "unat f < 2 ^ 10" using f by simp
  have "n = 12 + (n - 12)" if "12 \<le> n" using that by simp
  moreover have "12 \<le> n" if "bit pa n" using low_bits_zero [OF al, of n] that by linarith
  moreover have "\<not> bit f (10 + k)" for k using bit_less [OF f', of "10 + k"] by auto
  ultimately show "bit (push_bit 12 (drop_bit 10 (push_bit 10 (drop_bit 12 pa) OR f))) n = bit pa n"
    using bit_less [OF pa(2), of n] n by (auto simp add: bit_simps)
qed

lemma PTE_FLAGS_roundtrip:
  assumes f: "unat f < 1024"
  shows "PTE_FLAGS (PA2PTE pa OR f) = f"
proof -
  have m: "(0x3FF::u64) = mask 10" by (simp add: mask_eq_exp_minus_1)
  have f': "unat f < 2 ^ 10" using f by simp
  show ?thesis unfolding PTE_FLAGS_def PA2PTE_def m
    by (rule bit_word_eqI) (use bit_less [OF f'] in \<open>auto simp: bit_simps\<close>)
qed

lemma unat_PX: "unat (PX level va) = unat va div 2 ^ PXSHIFT level mod 512"
proof -
  have m: "PXMASK = mask 9" by (simp add: PXMASK_def mask_eq_exp_minus_1)
  show ?thesis unfolding PX_def m unat_and_mask unat_drop_bit_div by simp
qed

lemma PX_less: "unat (PX level va) < 512"
  by (simp add: unat_PX)

lemma split_va:
  fixes x :: nat
  assumes "x < 549755813888"
  shows "x = (x div 1073741824 mod 512) * 1073741824 + (x div 2097152 mod 512) * 2097152
           + (x div 4096 mod 512) * 4096 + x mod 4096"
proof -
  define q where "q = x div 4096"
  define r where "r = q div 512"
  have d: "x div 1073741824 = r div 512" "x div 2097152 = r"
    by (simp_all add: div_mult2_eq [symmetric] q_def r_def)
  have "r div 512 < 512"
    using assms unfolding d(1) [symmetric] by (simp add: less_mult_imp_div_less)
  then have "r div 512 mod 512 = r div 512" by simp
  moreover have "x = q * 4096 + x mod 4096" unfolding q_def by simp
  moreover have "q = r * 512 + q mod 512" unfolding r_def by simp
  moreover have "r = r div 512 * 512 + r mod 512" by simp
  ultimately show ?thesis unfolding d q_def [symmetric] by linarith
qed

lemma less_MAXVA_iff: "va < MAXVA \<longleftrightarrow> unat va < 274877906944"
  by (simp add: MAXVA_val word_less_nat_alt)

text \<open>
  The three indices and the page offset determine a virtual address below
  \<open>MAXVA\<close>: the Sv39 split of \<^verbatim>\<open>walk\<close> loses nothing.
\<close>

lemma va_split:
  assumes "va < MAXVA"
  shows "unat va = unat (PX 2 va) * 1073741824 + unat (PX 1 va) * 2097152
           + unat (PX 0 va) * 4096 + unat va mod 4096"
  using split_va [of "unat va"] assms
  by (simp add: unat_PX PXSHIFT_def less_MAXVA_iff)

lemma PX_inject:
  assumes "va < MAXVA" "vb < MAXVA" "pg_aligned va" "pg_aligned vb"
    and "PX 2 va = PX 2 vb" "PX 1 va = PX 1 vb" "PX 0 va = PX 0 vb"
  shows "va = vb"
proof -
  have "unat va = unat vb"
    using va_split [OF assms(1)] va_split [OF assms(2)] assms(3-7) by (simp add: pg_aligned_iff)
  then show ?thesis by (simp add: word_unat_eq_iff)
qed

section \<open>Kernel stacks\<close>

lemma unat_KSTACK:
  assumes "p < 64"
  shows "unat (KSTACK p) = 0x3FFFFFF000 - (p + 1) * 8192"
proof -
  have "(of_nat p + 1) * 2 * PGSIZE = (of_nat ((p + 1) * 8192) :: u64)"
    by (simp add: PGSIZE_def)
  then have "unat ((of_nat p + 1) * 2 * PGSIZE :: u64) = (p + 1) * 8192"
    using assms by (simp only: unat_of_nat) simp
  then show ?thesis
    using assms by (simp add: KSTACK_def TRAMPOLINE_val unat_diff_u64)
qed

end
