(* ===== verification/Xv6_Spinlock.thy ===== *)
theory Xv6_Spinlock
  imports Xv6_Riscv
begin

text \<open>
  The machine state one hart works on, and the spin locks of \<^verbatim>\<open>spinlock.c\<close>:
  interrupt enabling (\<^verbatim>\<open>riscv.h\<close>), \<open>push_off\<close>/\<open>pop_off\<close>, \<open>acquire\<close>, \<open>release\<close> and
  \<open>holding\<close>. A function of the kernel is run by the hart \<open>tp\<close>; locks are named by
  \<open>lockid\<close>, which stands for the address of the \<open>struct spinlock\<close>.

  The second half is the protocol itself: any number of harts that acquire and
  release one lock, one memory access at a time and in any order.
\<close>

section \<open>Per-CPU state\<close>

text \<open>Saved registers for kernel context switches (\<^verbatim>\<open>proc.h\<close>).\<close>

record ctx =
  ctx_ra :: u64
  ctx_sp :: u64
  ctx_s :: "u64 list" \<comment> \<open>the callee-saved registers \<open>s0\<close> to \<open>s11\<close>\<close>

record cpu =
  c_proc :: "nat option"   \<comment> \<open>the process running on this cpu, or null\<close>
  c_context :: ctx         \<comment> \<open>\<open>swtch()\<close> here to enter \<open>scheduler()\<close>\<close>
  c_noff :: int            \<comment> \<open>depth of \<open>push_off()\<close> nesting\<close>
  c_intena :: int          \<comment> \<open>were interrupts enabled before \<open>push_off()\<close>?\<close>

datatype lockid =
    L_kmem | L_pid | L_wait | L_proc nat | L_ticks | L_cons | L_uart
  | L_bcache | L_log | L_itable | L_ftable | L_vdisk | L_pipe u64
  | L_bufsleep nat | L_inodesleep nat

record spinlock =
  lk_locked :: u32         \<comment> \<open>is the lock held?\<close>
  lk_name :: string
  lk_cpu :: "nat option"   \<comment> \<open>the cpu holding the lock\<close>

record mach =
  tp :: nat                        \<comment> \<open>the register that holds this hart's id\<close>
  cpus :: "nat \<Rightarrow> cpu"
  sstatus :: "nat \<Rightarrow> u64"          \<comment> \<open>each hart's supervisor status register\<close>
  lks :: "lockid \<Rightarrow> spinlock"

definition SSTATUS_SIE :: u64 where "SSTATUS_SIE = push_bit 1 1"
definition SSTATUS_SPIE :: u64 where "SSTATUS_SPIE = push_bit 5 1"
definition SSTATUS_SPP :: u64 where "SSTATUS_SPP = push_bit 8 1"

definition cpuid :: "('a mach_scheme, nat) kf" where
  "cpuid = kgets tp"

definition mycpu :: "('a mach_scheme, nat) kf" where
  "mycpu = kbind cpuid (\<lambda>id. kret id)"

section \<open>Interrupts\<close>

definition intr_on :: "('a mach_scheme, unit) kf" where
  "intr_on = kupd (\<lambda>s. s\<lparr>sstatus := (sstatus s)(tp s := sstatus s (tp s) OR SSTATUS_SIE)\<rparr>)"

definition intr_off :: "('a mach_scheme, unit) kf" where
  "intr_off = kupd (\<lambda>s. s\<lparr>sstatus := (sstatus s)(tp s := sstatus s (tp s) AND NOT SSTATUS_SIE)\<rparr>)"

definition intr_get :: "('a mach_scheme, int) kf" where
  "intr_get = kgets (\<lambda>s. if sstatus s (tp s) AND SSTATUS_SIE \<noteq> 0 then 1 else 0)"

definition set_cpu :: "nat \<Rightarrow> (cpu \<Rightarrow> cpu) \<Rightarrow> ('a mach_scheme, unit) kf" where
  "set_cpu c f = kupd (\<lambda>s. s\<lparr>cpus := (cpus s)(c := f (cpus s c))\<rparr>)"

definition push_off :: "('a mach_scheme, unit) kf" where
  "push_off =
     kbind intr_get (\<lambda>old.
     kseq intr_off (
     kbind mycpu (\<lambda>c.
     kbind (kgets (\<lambda>s. c_noff (cpus s c))) (\<lambda>noff.
     kseq (kwhen (noff = 0) (set_cpu c (\<lambda>cp. cp\<lparr>c_intena := old\<rparr>))) (
     set_cpu c (\<lambda>cp. cp\<lparr>c_noff := c_noff cp + 1\<rparr>))))))"

definition pop_off :: "('a mach_scheme, unit) kf" where
  "pop_off =
     kbind mycpu (\<lambda>c.
     kbind intr_get (\<lambda>on.
     if on \<noteq> 0 then panic ''pop_off - interruptible'' else
     kbind (kgets (\<lambda>s. c_noff (cpus s c))) (\<lambda>noff.
     if noff < 1 then panic ''pop_off'' else
     kseq (set_cpu c (\<lambda>cp. cp\<lparr>c_noff := c_noff cp - 1\<rparr>)) (
     kbind (kgets (\<lambda>s. c_noff (cpus s c) = 0 \<and> c_intena (cpus s c) \<noteq> 0)) (\<lambda>b.
     kwhen b intr_on)))))"

section \<open>Spin locks\<close>

definition set_lock :: "lockid \<Rightarrow> (spinlock \<Rightarrow> spinlock) \<Rightarrow> ('a mach_scheme, unit) kf" where
  "set_lock l f = kupd (\<lambda>s. s\<lparr>lks := (lks s)(l := f (lks s l))\<rparr>)"

definition initlock :: "lockid \<Rightarrow> string \<Rightarrow> ('a mach_scheme, unit) kf" where
  "initlock l name = block [
     set_lock l (\<lambda>lk. lk\<lparr>lk_name := name\<rparr>),
     set_lock l (\<lambda>lk. lk\<lparr>lk_locked := 0\<rparr>),
     set_lock l (\<lambda>lk. lk\<lparr>lk_cpu := None\<rparr>)]"

definition holding :: "lockid \<Rightarrow> ('a mach_scheme, bool) kf" where
  "holding l = kbind mycpu (\<lambda>c.
     kgets (\<lambda>s. lk_locked (lks s l) \<noteq> 0 \<and> lk_cpu (lks s l) = Some c))"

text \<open>The atomic swap: returns the old value and leaves 1.\<close>

definition test_and_set :: "lockid \<Rightarrow> ('a mach_scheme, u32) kf" where
  "test_and_set l =
     kbind (kgets (\<lambda>s. lk_locked (lks s l))) (\<lambda>old.
     kseq (set_lock l (\<lambda>lk. lk\<lparr>lk_locked := 1\<rparr>)) (kret old))"

definition lock_release :: "lockid \<Rightarrow> ('a mach_scheme, unit) kf" where
  "lock_release l = set_lock l (\<lambda>lk. lk\<lparr>lk_locked := 0\<rparr>)"

text \<open>
  Run by one hart alone, the swap loop of \<open>acquire\<close> either takes a free lock at its
  first swap or swaps for ever.
\<close>

definition acquire :: "lockid \<Rightarrow> ('a mach_scheme, unit) kf" where
  "acquire l =
     kseq push_off (
     kbind (holding l) (\<lambda>h.
     if h then panic ''acquire'' else
     kbind (test_and_set l) (\<lambda>old.
     if old \<noteq> 0 then spin ''acquire'' else
     kbind mycpu (\<lambda>c. set_lock l (\<lambda>lk. lk\<lparr>lk_cpu := Some c\<rparr>)))))"

definition release :: "lockid \<Rightarrow> ('a mach_scheme, unit) kf" where
  "release l =
     kbind (holding l) (\<lambda>h.
     if \<not> h then panic ''release'' else
     kseq (set_lock l (\<lambda>lk. lk\<lparr>lk_cpu := None\<rparr>)) (
     kseq (lock_release l)
     pop_off))"

lemmas spinlock_defs =
  cpuid_def mycpu_def intr_on_def intr_off_def intr_get_def set_cpu_def push_off_def pop_off_def
  set_lock_def initlock_def holding_def test_and_set_def lock_release_def acquire_def release_def

section \<open>What the lock operations do\<close>

definition sie :: "'a mach_scheme \<Rightarrow> bool" where
  "sie s \<longleftrightarrow> sstatus s (tp s) AND SSTATUS_SIE \<noteq> 0"

definition cpu_ok :: "'a mach_scheme \<Rightarrow> bool" where
  "cpu_ok s \<longleftrightarrow> 0 \<le> c_noff (cpus s (tp s)) \<and> (0 < c_noff (cpus s (tp s)) \<longrightarrow> \<not> sie s)"

text \<open>The state after \<open>push_off\<close>; what a matched pair leaves; the state inside a critical section.\<close>

definition noted :: "'a mach_scheme \<Rightarrow> 'a mach_scheme" where
  "noted s = s\<lparr>cpus := (cpus s)(tp s := (cpus s (tp s))\<lparr>c_intena :=
     if c_noff (cpus s (tp s)) = 0 then (if sie s then 1 else 0) else c_intena (cpus s (tp s))\<rparr>)\<rparr>"

definition pushed :: "'a mach_scheme \<Rightarrow> 'a mach_scheme" where
  "pushed s = (noted s)\<lparr>
     sstatus := (sstatus s)(tp s := sstatus s (tp s) AND NOT SSTATUS_SIE),
     cpus := (cpus (noted s))(tp s := (cpus (noted s) (tp s))\<lparr>c_noff := c_noff (cpus s (tp s)) + 1\<rparr>)\<rparr>"

definition entered :: "lockid \<Rightarrow> 'a mach_scheme \<Rightarrow> 'a mach_scheme" where
  "entered l s = (pushed s)\<lparr>lks := (lks s)(l := (lks s l)\<lparr>lk_locked := 1, lk_cpu := Some (tp s)\<rparr>)\<rparr>"

definition lock_free :: "lockid \<Rightarrow> 'a mach_scheme \<Rightarrow> bool" where
  "lock_free l s \<longleftrightarrow> lk_locked (lks s l) = 0 \<and> lk_cpu (lks s l) = None"

definition avail :: "lockid \<Rightarrow> 'a mach_scheme \<Rightarrow> bool" where
  "avail l s \<longleftrightarrow> lock_free l s \<and> cpu_ok s"

lemma sie_bit: "x AND SSTATUS_SIE = 0 \<longleftrightarrow> \<not> bit x 1"
proof
  assume "x AND SSTATUS_SIE = 0"
  then have "bit (x AND SSTATUS_SIE) 1 = bit (0::u64) 1" by simp
  then show "\<not> bit x 1" by (simp add: SSTATUS_SIE_def bit_simps)
next
  assume "\<not> bit x 1"
  then show "x AND SSTATUS_SIE = 0"
    by (intro bit_word_eqI) (auto simp: SSTATUS_SIE_def bit_simps)
qed

lemma sie_clear: "(x AND NOT SSTATUS_SIE) AND SSTATUS_SIE = 0"
  by (rule bit_word_eqI) (simp add: bit_simps)

lemma sie_set: "(x OR SSTATUS_SIE) AND SSTATUS_SIE \<noteq> 0"
  by (simp add: sie_bit) (simp add: SSTATUS_SIE_def bit_simps)

lemma sie_set_again: "x AND SSTATUS_SIE \<noteq> 0 \<Longrightarrow> x AND NOT SSTATUS_SIE OR SSTATUS_SIE = x"
  unfolding sie_bit by (rule bit_word_eqI) (auto simp: SSTATUS_SIE_def bit_simps)

lemma sie_kept_off: "x AND SSTATUS_SIE = 0 \<Longrightarrow> x AND NOT SSTATUS_SIE = x"
  unfolding sie_bit by (rule bit_word_eqI) (auto simp: SSTATUS_SIE_def bit_simps)

lemma push_off_run: "push_off s = Inr ((), pushed s)"
  by (simp add: spinlock_defs k_simps pushed_def noted_def sie_def)

lemma acquire_run: "lk_locked (lks s l) = 0 \<Longrightarrow> acquire l s = Inr ((), entered l s)"
  by (simp add: acquire_def k_simps push_off_run) (simp add: spinlock_defs k_simps entered_def pushed_def noted_def)

lemma release_entered:
  assumes "avail l s"
  shows "release l (entered l s) = Inr ((), noted s)"
  using assms
  by (auto simp: spinlock_defs k_simps entered_def pushed_def noted_def avail_def lock_free_def cpu_ok_def sie_def sie_clear sie_set_again sie_kept_off
    fun_upd_idem)

lemma mach_step_simps [simp]:
  "tp (noted s) = tp s" "tp (pushed s) = tp s" "tp (entered l s) = tp s"
  "lks (noted s) = lks s" "lks (pushed s) = lks s"
  "sstatus (noted s) = sstatus s" "sstatus (entered l s) = sstatus (pushed s)"
  "cpus (entered l s) = cpus (pushed s)"
  by (simp_all add: noted_def pushed_def entered_def)

lemma entered_lks: "lks (entered l s) = (lks s)(l := (lks s l)\<lparr>lk_locked := 1, lk_cpu := Some (tp s)\<rparr>)"
  by (simp add: entered_def)

lemma pushed_cpu:
  "c_noff (cpus (pushed s) (tp s)) = c_noff (cpus s (tp s)) + 1"
  "h \<noteq> tp s \<Longrightarrow> cpus (pushed s) h = cpus s h"
  "sstatus (pushed s) (tp s) AND SSTATUS_SIE = 0"
  "h \<noteq> tp s \<Longrightarrow> sstatus (pushed s) h = sstatus s h"
  by (simp_all add: pushed_def noted_def sie_clear)

lemma cpu_ok_pushed: "cpu_ok s \<Longrightarrow> cpu_ok (pushed s)"
  by (simp add: cpu_ok_def sie_def pushed_cpu)

lemma cpu_ok_entered: "cpu_ok s \<Longrightarrow> cpu_ok (entered l s)"
  using cpu_ok_pushed [of s] by (simp add: cpu_ok_def sie_def)

lemma cpu_ok_noted [simp]: "cpu_ok (noted s) = cpu_ok s"
  by (simp add: cpu_ok_def sie_def noted_def)

lemma lock_free_noted [simp]: "lock_free l (noted s) = lock_free l s"
  by (simp add: lock_free_def)

lemma noted_noted [simp]: "noted (noted s) = noted s"
  by (simp add: noted_def sie_def)

lemma noted_pushed: "cpu_ok s \<Longrightarrow> noted (pushed s) = pushed s"
  by (simp add: noted_def [of "pushed s"] pushed_cpu cpu_ok_def)

text \<open>Every branch of \<open>acquire\<close> and \<open>release\<close>.\<close>

lemma acquire_cases:
  "acquire l s =
     (if lk_locked (lks s l) = 0 then Inr ((), entered l s)
      else if lk_cpu (lks s l) = Some (tp s) then Inl (Panic ''acquire'')
      else Inl (Spin ''acquire''))"
proof (cases "lk_locked (lks s l) = 0")
  case True
  then show ?thesis by (simp add: acquire_run)
next
  case False
  then show ?thesis
    by (simp add: acquire_def k_simps push_off_run) (simp add: spinlock_defs k_simps)
qed

lemma release_not_held:
  "\<not> (lk_locked (lks s l) \<noteq> 0 \<and> lk_cpu (lks s l) = Some (tp s)) \<Longrightarrow> release l s = Inl (Panic ''release'')"
  by (auto simp: release_def holding_def mycpu_def cpuid_def k_simps)

lemma pop_off_pushed: "cpu_ok s \<Longrightarrow> pop_off (pushed s) = Inr ((), noted s)"
  by (auto simp: spinlock_defs k_simps pushed_def noted_def cpu_ok_def sie_def
      sie_clear sie_set_again sie_kept_off)

lemma block_append: "block (ms @ ns) s = (case block ms s of Inl e \<Rightarrow> Inl e | Inr (_, t) \<Rightarrow> block ns t)"
  by (induction ms arbitrary: s) (auto simp: k_simps split: sum.splits)

lemma push_pop_nest:
  "cpu_ok s \<Longrightarrow> block (replicate (Suc n) push_off @ replicate (Suc n) pop_off) s = Inr ((), noted s)"
proof (induction n arbitrary: s)
  case 0
  then show ?case by (simp add: k_simps push_off_run pop_off_pushed)
next
  case (Suc n)
  define mid :: "('a mach_scheme, unit) kf list"
    where "mid = replicate (Suc n) push_off @ replicate (Suc n) pop_off"
  have mid: "block mid (pushed s) = Inr ((), pushed s)"
    using Suc.IH [OF cpu_ok_pushed [OF Suc.prems]] noted_pushed [OF Suc.prems]
    by (simp only: mid_def)
  have split: "replicate (Suc (Suc n)) push_off @ replicate (Suc (Suc n)) pop_off
      = push_off # mid @ [pop_off]"
    by (simp add: mid_def replicate_append_same)
  show ?case
    unfolding split using mid pop_off_pushed [OF Suc.prems]
    by (simp add: block_append k_simps push_off_run)
qed

section \<open>The interface of a lock\<close>

text \<open>
  What the clients rely on: entering an available lock succeeds, and leaving it
  from the state \<open>enter\<close> made gives back a state that differs only in what \<open>leave\<close>
  records. A body that does not look at the lock then runs as if there were none.
\<close>

locale lock_ops =
  fixes acq :: "'l \<Rightarrow> ('s, unit) kf"
    and rel :: "'l \<Rightarrow> ('s, unit) kf"
    and ready :: "'l \<Rightarrow> 's \<Rightarrow> bool"
    and enter :: "'l \<Rightarrow> 's \<Rightarrow> 's"
    and leave :: "'l \<Rightarrow> 's \<Rightarrow> 's"
  assumes acq_ready: "ready l s \<Longrightarrow> acq l s = Inr ((), enter l s)"
    and rel_enter: "ready l s \<Longrightarrow> rel l (enter l s) = Inr ((), leave l s)"
    and ready_leave: "ready l s \<Longrightarrow> ready l (leave l s)"
begin

lemma bracket:
  assumes "ready l s" and "body (enter l s) = Inr (x, enter l t)" and "ready l t"
  shows "kseq (acq l) (kbind body (\<lambda>x. kseq (rel l) (kret x))) s = Inr (x, leave l t) \<and> ready l (leave l t)"
  using assms by (simp add: k_simps acq_ready rel_enter ready_leave)

text \<open>Any number of critical sections one after the other: the lock is available after each.\<close>

lemma brackets:
  assumes "ready l s" and "\<And>i s. i \<in> set is \<Longrightarrow> ready l s \<Longrightarrow>
    \<exists>t. body i (enter l s) = Inr ((), enter l t) \<and> ready l t"
  shows "\<exists>t. kfor is (\<lambda>i. block [acq l, body i, rel l]) s = Inr ((), t) \<and> ready l t"
  using assms
proof (induction "is" arbitrary: s)
  case (Cons i "is")
  from Cons.prems(2) [of i s] Cons.prems(1) obtain t where t: "body i (enter l s) = Inr ((), enter l t)" "ready l t"
    by auto
  with Cons.prems(1) have "block [acq l, body i, rel l] s = Inr ((), leave l t)"
    by (simp add: k_simps acq_ready rel_enter)
  moreover from Cons.IH [OF ready_leave [OF t(2)]] Cons.prems(2)
  obtain u where "kfor is (\<lambda>i. block [acq l, body i, rel l]) (leave l t) = Inr ((), u)" "ready l u" by auto
  ultimately show ?case by (simp add: kfor_Cons_run del: kfor.simps block.simps)
qed (simp add: k_simps)

end

interpretation spin_lock: lock_ops acquire release avail entered "\<lambda>_. noted"
proof
  fix l and s :: "'a mach_scheme"
  assume a: "avail l s"
  show "acquire l s = Inr ((), entered l s)"
    using a by (simp add: avail_def lock_free_def acquire_run)
  show "release l (entered l s) = Inr ((), noted s)"
    using a by (rule release_entered)
  show "avail l (noted s)"
    using a by (simp add: avail_def)
qed

section \<open>Rewriting through critical sections\<close>

text \<open>
  The same facts as rewrite rules on the fields of the state, whatever else the record
  holds: with the collection \<open>lock_simps\<close> the simplifier runs a function through its
  acquires and releases. \<open>hok\<close> is what a hart's nesting count and interrupt bit have
  to satisfy, \<open>lfree\<close> a lock that nobody holds.
\<close>

named_theorems lock_simps \<open>execution of acquire and release\<close>

definition hok :: "nat \<Rightarrow> (nat \<Rightarrow> cpu) \<Rightarrow> (nat \<Rightarrow> u64) \<Rightarrow> bool" where
  "hok h cs ss \<longleftrightarrow> 0 \<le> c_noff (cs h) \<and> (0 < c_noff (cs h) \<longrightarrow> ss h AND SSTATUS_SIE = 0)"

definition lfree :: "spinlock \<Rightarrow> bool" where
  "lfree lk \<longleftrightarrow> lk_locked lk = 0 \<and> lk_cpu lk = None"

definition lheld :: "nat \<Rightarrow> spinlock \<Rightarrow> spinlock" where
  "lheld h lk = lk\<lparr>lk_locked := 1, lk_cpu := Some h\<rparr>"

definition note_cpus :: "nat \<Rightarrow> (nat \<Rightarrow> cpu) \<Rightarrow> (nat \<Rightarrow> u64) \<Rightarrow> (nat \<Rightarrow> cpu)" where
  "note_cpus h cs ss = cs(h := (cs h)\<lparr>c_intena :=
     if c_noff (cs h) = 0 then (if ss h AND SSTATUS_SIE \<noteq> 0 then 1 else 0) else c_intena (cs h)\<rparr>)"

definition push_cpus :: "nat \<Rightarrow> (nat \<Rightarrow> cpu) \<Rightarrow> (nat \<Rightarrow> u64) \<Rightarrow> (nat \<Rightarrow> cpu)" where
  "push_cpus h cs ss = (note_cpus h cs ss)(h := (note_cpus h cs ss h)\<lparr>c_noff := c_noff (cs h) + 1\<rparr>)"

definition off_sst :: "nat \<Rightarrow> (nat \<Rightarrow> u64) \<Rightarrow> (nat \<Rightarrow> u64)" where
  "off_sst h ss = ss(h := ss h AND NOT SSTATUS_SIE)"

lemma cpu_ok_iff: "cpu_ok s = hok (tp s) (cpus s) (sstatus s)"
  by (simp add: cpu_ok_def hok_def sie_def)

lemma lock_free_iff: "lock_free l s = lfree (lks s l)"
  by (simp add: lock_free_def lfree_def)

lemma noted_eq: "noted s = s\<lparr>cpus := note_cpus (tp s) (cpus s) (sstatus s)\<rparr>"
  by (simp add: noted_def note_cpus_def sie_def)

lemma pushed_eq: "pushed s = s\<lparr>sstatus := off_sst (tp s) (sstatus s), cpus := push_cpus (tp s) (cpus s) (sstatus s)\<rparr>"
  by (simp add: pushed_def noted_eq push_cpus_def off_sst_def note_cpus_def)

lemma entered_eq: "entered l s = s\<lparr>sstatus := off_sst (tp s) (sstatus s),
    cpus := push_cpus (tp s) (cpus s) (sstatus s), lks := (lks s)(l := lheld (tp s) (lks s l))\<rparr>"
  by (simp add: entered_def pushed_eq lheld_def)

lemma push_off_ok [lock_simps]:
  "push_off s = Inr ((), s\<lparr>sstatus := off_sst (tp s) (sstatus s), cpus := push_cpus (tp s) (cpus s) (sstatus s)\<rparr>)"
  by (simp add: push_off_run pushed_eq)

lemma pop_off_ok [lock_simps]:
  assumes "cpus t = push_cpus (tp t) cs ss" and "sstatus t = off_sst (tp t) ss" and "hok (tp t) cs ss"
  shows "pop_off t = Inr ((), t\<lparr>sstatus := ss, cpus := note_cpus (tp t) cs ss\<rparr>)"
proof -
  have "t = pushed (t\<lparr>cpus := cs, sstatus := ss\<rparr>)" using assms(1,2) by (simp add: pushed_eq)
  moreover have "cpu_ok (t\<lparr>cpus := cs, sstatus := ss\<rparr>)" using assms(3) by (simp add: cpu_ok_iff)
  ultimately show ?thesis using pop_off_pushed [of "t\<lparr>cpus := cs, sstatus := ss\<rparr>"]
    by (simp add: noted_eq)
qed

lemma acquire_ok [lock_simps]:
  "lfree (lks s l) \<Longrightarrow> acquire l s = Inr ((), s\<lparr>sstatus := off_sst (tp s) (sstatus s),
     cpus := push_cpus (tp s) (cpus s) (sstatus s), lks := (lks s)(l := lheld (tp s) (lks s l))\<rparr>)"
  by (simp add: lfree_def acquire_run entered_eq)

lemma release_ok [lock_simps]:
  assumes "lks t l = lheld (tp t) lk" and "lfree lk"
    and "cpus t = push_cpus (tp t) cs ss" and "sstatus t = off_sst (tp t) ss" and "hok (tp t) cs ss"
  shows "release l t = Inr ((), t\<lparr>sstatus := ss, cpus := note_cpus (tp t) cs ss, lks := (lks t)(l := lk)\<rparr>)"
proof -
  let ?s = "t\<lparr>cpus := cs, sstatus := ss, lks := (lks t)(l := lk)\<rparr>"
  have "(lks t)(l := lheld (tp t) lk) = lks t" using assms(1) by (simp add: fun_upd_idem)
  then have "t = entered l ?s" using assms(3,4) by (simp add: entered_eq)
  moreover have "avail l ?s" using assms(2,5) by (simp add: avail_def cpu_ok_iff lock_free_iff)
  ultimately show ?thesis using release_entered [of l ?s] by (simp add: noted_eq)
qed

text \<open>A release in any state in which it does not panic.\<close>

lemma release_held:
  assumes "lk_locked (lks t l) \<noteq> 0" "lk_cpu (lks t l) = Some (tp t)"
    and "1 \<le> c_noff (cpus t (tp t))" "sstatus t (tp t) AND SSTATUS_SIE = 0"
  shows "release l t = Inr ((), t\<lparr>
    lks := (lks t)(l := (lks t l)\<lparr>lk_cpu := None, lk_locked := 0\<rparr>),
    cpus := (cpus t)(tp t := (cpus t (tp t))\<lparr>c_noff := c_noff (cpus t (tp t)) - 1\<rparr>),
    sstatus := if c_noff (cpus t (tp t)) = 1 \<and> c_intena (cpus t (tp t)) \<noteq> 0
      then (sstatus t)(tp t := sstatus t (tp t) OR SSTATUS_SIE) else sstatus t\<rparr>)"
  using assms by (simp add: spinlock_defs k_simps)

lemma note_note [lock_simps]: "note_cpus h (note_cpus h cs ss) ss = note_cpus h cs ss"
  by (simp add: note_cpus_def)

lemma note_push [lock_simps]: "hok h cs ss \<Longrightarrow> note_cpus h (push_cpus h cs ss) ss' = push_cpus h cs ss"
  by (auto simp: note_cpus_def push_cpus_def hok_def fun_eq_iff)

lemma push_note [lock_simps]: "push_cpus h (note_cpus h cs ss) ss = push_cpus h cs ss"
  by (simp add: note_cpus_def push_cpus_def)

lemma hok_note [lock_simps]: "hok h (note_cpus h cs ss) ss' = hok h cs ss'"
  by (simp add: note_cpus_def hok_def)

lemma hok_push [lock_simps]: "hok h cs ss \<Longrightarrow> hok h (push_cpus h cs ss) (off_sst h ss')"
  by (simp add: push_cpus_def hok_def off_sst_def sie_clear)

lemma lfree_held [lock_simps]: "\<not> lfree (lheld h lk)"
  by (simp add: lfree_def lheld_def)

lemma upd_restore [lock_simps]: "b \<noteq> a \<Longrightarrow> f(a := x, b := f b) = f(a := x)"
  by auto

lemma cpu_fields [lock_simps]:
  "c_proc (push_cpus h cs ss k) = c_proc (cs k)" "c_proc (note_cpus h cs ss k) = c_proc (cs k)"
  "c_context (push_cpus h cs ss k) = c_context (cs k)" "c_context (note_cpus h cs ss k) = c_context (cs k)"
  "c_noff (push_cpus h cs ss h) = c_noff (cs h) + 1" "c_noff (note_cpus h cs ss k) = c_noff (cs k)"
  "off_sst h ss h AND SSTATUS_SIE = 0"
  by (simp_all add: push_cpus_def note_cpus_def off_sst_def sie_clear)

section \<open>The lock protocol over several harts\<close>

text \<open>
  Each hart is at a point of \<open>acquire\<close> or \<open>release\<close>; a step is one access of one
  hart, and which hart moves next is not determined. The accesses are the ones of
  which the sequential \<open>acquire\<close> and \<open>release\<close> above are composed.
\<close>

datatype lpc =
    Idle | AcqCheck | AcqSwap | AcqSetCpu | Crit | RelCpu | RelUnlock | RelPop | Halted string

record smp =
  sm_mach :: mach
  sm_pc :: "nat \<Rightarrow> lpc"

abbreviation at_hart :: "nat \<Rightarrow> smp \<Rightarrow> mach" where
  "at_hart h S \<equiv> (sm_mach S)\<lparr>tp := h\<rparr>"

definition goto :: "smp \<Rightarrow> nat \<Rightarrow> lpc \<Rightarrow> mach \<Rightarrow> smp" where
  "goto S h pc m = \<lparr>sm_mach = m, sm_pc = (sm_pc S)(h := pc)\<rparr>"

inductive lock_step :: "lockid \<Rightarrow> smp \<Rightarrow> smp \<Rightarrow> bool" for l where
  acq_push: "sm_pc S h = Idle \<Longrightarrow> push_off (at_hart h S) = Inr ((), m) \<Longrightarrow>
     lock_step l S (goto S h AcqCheck m)"
| acq_check: "sm_pc S h = AcqCheck \<Longrightarrow> holding l (at_hart h S) = Inr (b, m) \<Longrightarrow>
     lock_step l S (goto S h (if b then Halted ''acquire'' else AcqSwap) m)"
| acq_swap: "sm_pc S h = AcqSwap \<Longrightarrow> test_and_set l (at_hart h S) = Inr (old, m) \<Longrightarrow>
     lock_step l S (goto S h (if old \<noteq> 0 then AcqSwap else AcqSetCpu) m)"
| acq_cpu: "sm_pc S h = AcqSetCpu \<Longrightarrow>
     kbind mycpu (\<lambda>c. set_lock l (\<lambda>lk. lk\<lparr>lk_cpu := Some c\<rparr>)) (at_hart h S) = Inr ((), m) \<Longrightarrow>
     lock_step l S (goto S h Crit m)"
| rel_check: "sm_pc S h = Crit \<Longrightarrow> holding l (at_hart h S) = Inr (b, m) \<Longrightarrow>
     lock_step l S (goto S h (if b then RelCpu else Halted ''release'') m)"
| rel_cpu: "sm_pc S h = RelCpu \<Longrightarrow>
     set_lock l (\<lambda>lk. lk\<lparr>lk_cpu := None\<rparr>) (at_hart h S) = Inr ((), m) \<Longrightarrow>
     lock_step l S (goto S h RelUnlock m)"
| rel_unlock: "sm_pc S h = RelUnlock \<Longrightarrow> lock_release l (at_hart h S) = Inr ((), m) \<Longrightarrow>
     lock_step l S (goto S h RelPop m)"
| rel_pop: "sm_pc S h = RelPop \<Longrightarrow> pop_off (at_hart h S) = Inr ((), m) \<Longrightarrow>
     lock_step l S (goto S h Idle m)"
| rel_pop_panic: "sm_pc S h = RelPop \<Longrightarrow> pop_off (at_hart h S) = Inl (Panic msg) \<Longrightarrow>
     lock_step l S (goto S h (Halted msg) (at_hart h S))"

definition hart_ok :: "mach \<Rightarrow> nat \<Rightarrow> bool" where
  "hart_ok m h \<longleftrightarrow> 0 \<le> c_noff (cpus m h) \<and>
     (0 < c_noff (cpus m h) \<longrightarrow> sstatus m h AND SSTATUS_SIE = 0)"

definition smp_init :: "lockid \<Rightarrow> smp \<Rightarrow> bool" where
  "smp_init l S \<longleftrightarrow> lock_free l (sm_mach S) \<and> (\<forall>h. sm_pc S h = Idle \<and> hart_ok (sm_mach S) h)"

inductive smp_reach :: "lockid \<Rightarrow> smp \<Rightarrow> bool" for l where
  start: "smp_init l S \<Longrightarrow> smp_reach l S"
| step: "smp_reach l S \<Longrightarrow> lock_step l S T \<Longrightarrow> smp_reach l T"

definition owner_pc :: "lpc \<Rightarrow> bool" where
  "owner_pc pc \<longleftrightarrow> pc = AcqSetCpu \<or> pc = Crit \<or> pc = RelCpu \<or> pc = RelUnlock"

text \<open>
  The invariant: either the lock is free and no hart is inside, or one hart owns it
  and the cpu field names that hart exactly from \<open>Crit\<close> to the store in \<open>release\<close>.
\<close>

definition lock_free_inv :: "lockid \<Rightarrow> smp \<Rightarrow> bool" where
  "lock_free_inv l S \<longleftrightarrow> lock_free l (sm_mach S) \<and> (\<forall>h. \<not> owner_pc (sm_pc S h))"

definition lock_held_inv :: "lockid \<Rightarrow> smp \<Rightarrow> nat \<Rightarrow> bool" where
  "lock_held_inv l S o' \<longleftrightarrow> lk_locked (lks (sm_mach S) l) \<noteq> 0 \<and> owner_pc (sm_pc S o') \<and>
     (\<forall>h. h \<noteq> o' \<longrightarrow> \<not> owner_pc (sm_pc S h)) \<and>
     lk_cpu (lks (sm_mach S) l) = (if sm_pc S o' = Crit \<or> sm_pc S o' = RelCpu then Some o' else None)"

definition harts_inv :: "smp \<Rightarrow> bool" where
  "harts_inv S \<longleftrightarrow> (\<forall>h. hart_ok (sm_mach S) h \<and> (\<forall>msg. sm_pc S h \<noteq> Halted msg) \<and>
     (sm_pc S h \<noteq> Idle \<longrightarrow> 0 < c_noff (cpus (sm_mach S) h)))"

definition lock_inv :: "lockid \<Rightarrow> smp \<Rightarrow> bool" where
  "lock_inv l S \<longleftrightarrow> (lock_free_inv l S \<or> (\<exists>o'. lock_held_inv l S o')) \<and> harts_inv S"

lemmas lock_inv_defs = lock_inv_def lock_free_inv_def lock_held_inv_def harts_inv_def
  owner_pc_def hart_ok_def lock_free_def goto_def

lemma smp_init_inv: "smp_init l S \<Longrightarrow> lock_inv l S"
  by (auto simp: smp_init_def lock_inv_defs)

lemma owner_held: "lock_inv l S \<Longrightarrow> owner_pc (sm_pc S h) \<Longrightarrow> lock_held_inv l S h"
  unfolding lock_inv_def lock_free_inv_def lock_held_inv_def by metis

lemma holding_run:
  "holding l m = Inr (lk_locked (lks m l) \<noteq> 0 \<and> lk_cpu (lks m l) = Some (tp m), m)"
  by (simp add: holding_def mycpu_def cpuid_def k_simps)

lemma cpu_owner:
  assumes "lock_inv l S"
  shows "lk_locked (lks (sm_mach S) l) \<noteq> 0 \<and> lk_cpu (lks (sm_mach S) l) = Some h \<longleftrightarrow>
    sm_pc S h = Crit \<or> sm_pc S h = RelCpu" (is "?held \<longleftrightarrow> ?pc")
proof
  assume ?held
  with assms obtain o' where "lock_held_inv l S o'"
    by (auto simp: lock_inv_def lock_free_inv_def lock_free_def)
  with \<open>?held\<close> show ?pc by (auto simp: lock_held_inv_def split: if_splits)
next
  assume ?pc
  with owner_held [OF assms] have "lock_held_inv l S h" by (auto simp: owner_pc_def)
  with \<open>?pc\<close> show ?held by (simp add: lock_held_inv_def)
qed

lemma holding_inv:
  assumes "lock_inv l S" and "holding l (at_hart h S) = Inr (b, m)"
  shows "m = at_hart h S" and "b \<longleftrightarrow> sm_pc S h = Crit \<or> sm_pc S h = RelCpu"
  using assms(2) cpu_owner [OF assms(1), of h] by (auto simp: holding_run)

lemma held_goto:
  "lock_held_inv l S h \<Longrightarrow> owner_pc pc \<Longrightarrow> lk_locked (lks m l) \<noteq> 0 \<Longrightarrow>
   lk_cpu (lks m l) = (if pc = Crit \<or> pc = RelCpu then Some h else None) \<Longrightarrow>
   lock_held_inv l (goto S h pc m) h"
  by (simp add: lock_held_inv_def goto_def)

lemma harts_goto:
  "harts_inv S \<Longrightarrow> cpus m = cpus (sm_mach S) \<Longrightarrow> sstatus m = sstatus (sm_mach S) \<Longrightarrow>
   (\<And>msg. pc \<noteq> Halted msg) \<Longrightarrow> sm_pc S h \<noteq> Idle \<Longrightarrow> harts_inv (goto S h pc m)"
  by (auto simp: harts_inv_def goto_def hart_ok_def)

lemma owner_goto:
  assumes "lock_inv l S" "owner_pc (sm_pc S h)" "owner_pc pc" "lk_locked (lks m l) \<noteq> 0"
    "lk_cpu (lks m l) = (if pc = Crit \<or> pc = RelCpu then Some h else None)"
    "cpus m = cpus (sm_mach S)" "sstatus m = sstatus (sm_mach S)"
  shows "lock_inv l (goto S h pc m)"
proof -
  have "harts_inv (goto S h pc m)"
    using assms by (intro harts_goto) (auto simp: lock_inv_def owner_pc_def)
  with held_goto [OF owner_held [OF assms(1,2)] assms(3-5)] show ?thesis
    by (auto simp: lock_inv_def)
qed

lemma goto_inv: 
  assumes "lock_inv l S" and "lks m l = lks (sm_mach S) l"
    and "\<not> owner_pc (sm_pc S h)" and "\<not> owner_pc pc" and "\<And>msg. pc \<noteq> Halted msg"
    and "\<And>h'. h' \<noteq> h \<Longrightarrow> cpus m h' = cpus (sm_mach S) h' \<and> sstatus m h' = sstatus (sm_mach S) h'"
    and "hart_ok m h" and "pc \<noteq> Idle \<Longrightarrow> 0 < c_noff (cpus m h)"
  shows "lock_inv l (goto S h pc m)"
proof -
  have "harts_inv (goto S h pc m)"
    using assms(1,5-8) by (auto simp: lock_inv_defs)
  moreover from assms(1) have "lock_free_inv l (goto S h pc m) \<or> (\<exists>o'. lock_held_inv l (goto S h pc m) o')"
    unfolding lock_inv_def
  proof (elim conjE disjE exE)
    assume "lock_free_inv l S"
    then show ?thesis using assms(2,4) by (auto simp: lock_free_inv_def lock_free_def goto_def)
  next
    fix o' assume o: "lock_held_inv l S o'"
    then have "o' \<noteq> h" using assms(3) by (auto simp: lock_held_inv_def)
    with o assms(2,4) have "lock_held_inv l (goto S h pc m) o'"
      by (auto simp: lock_held_inv_def goto_def)
    then show ?thesis by blast
  qed
  ultimately show ?thesis by (simp add: lock_inv_def)
qed

lemma inv_hart:
  assumes "lock_inv l S"
  shows "hart_ok (sm_mach S) h" and "sm_pc S h \<noteq> Idle \<Longrightarrow> 0 < c_noff (cpus (sm_mach S) h)"
  using assms by (auto simp: lock_inv_def harts_inv_def)

lemma lock_step_inv: "lock_step l S T \<Longrightarrow> lock_inv l S \<Longrightarrow> lock_inv l T"
proof (induction rule: lock_step.induct)
  case (acq_push S h m)
  then have m: "m = pushed (at_hart h S)" by (simp add: push_off_run)
  from inv_hart(1) [OF acq_push(3), of h] have "hart_ok m h" "0 < c_noff (cpus m h)"
    by (auto simp: m hart_ok_def pushed_def noted_def sie_clear)
  moreover have "lks m = lks (sm_mach S)"
    "h' \<noteq> h \<Longrightarrow> cpus m h' = cpus (sm_mach S) h' \<and> sstatus m h' = sstatus (sm_mach S) h'" for h'
    by (auto simp: m pushed_def noted_def)
  ultimately show ?case
    using acq_push(1,3) by (intro goto_inv) (simp_all add: owner_pc_def)
next
  case (acq_check S h b m)
  from holding_inv [OF acq_check(3,2)] acq_check(1) have "m = at_hart h S" "\<not> b" by auto
  with acq_check(1,3) inv_hart [OF acq_check(3), of h] have "lock_inv l (goto S h AcqSwap m)"
    by (intro goto_inv) (simp_all add: owner_pc_def hart_ok_def)
  with \<open>\<not> b\<close> show ?case by simp
next
  case (acq_swap S h old m)
  then have m: "m = (at_hart h S)\<lparr>lks := (lks (sm_mach S))(l := (lks (sm_mach S) l)\<lparr>lk_locked := 1\<rparr>)\<rparr>"
    and old: "old = lk_locked (lks (sm_mach S) l)"
    by (auto simp: test_and_set_def set_lock_def k_simps)
  have harts: "harts_inv (goto S h pc m)" if "pc = AcqSwap \<or> pc = AcqSetCpu" for pc
    using that acq_swap(1,3) by (intro harts_goto) (auto simp: m lock_inv_def)
  show ?case
  proof (cases "old = 0")
    case True
    with acq_swap(3) old have "lock_free_inv l S" by (auto simp: lock_inv_def lock_held_inv_def)
    then have "lock_held_inv l (goto S h AcqSetCpu m) h"
      by (simp add: m lock_free_inv_def lock_held_inv_def goto_def owner_pc_def lock_free_def)
    with True harts show ?thesis by (auto simp: lock_inv_def)
  next
    case False
    with acq_swap(3) old obtain o' where "lock_held_inv l S o'"
      by (auto simp: lock_inv_def lock_free_inv_def lock_free_def)
    then have "lock_held_inv l (goto S h AcqSwap m) o'"
      using acq_swap(1) by (auto simp: m lock_held_inv_def goto_def owner_pc_def)
    with False harts show ?thesis by (auto simp: lock_inv_def)
  qed
next
  case (acq_cpu S h m)
  with owner_held [of l S h] show ?case
    by (intro owner_goto) (auto simp: owner_pc_def mycpu_def cpuid_def set_lock_def k_simps lock_held_inv_def)
next
  case (rel_check S h b m)
  from holding_inv [OF rel_check(3,2)] rel_check(1) have "m = at_hart h S" b by auto
  moreover from rel_check owner_held [of l S h] have "lock_held_inv l S h"
    by (simp add: owner_pc_def)
  ultimately have "lock_inv l (goto S h RelCpu m)"
    using rel_check(1,3) by (intro owner_goto) (simp_all add: owner_pc_def lock_held_inv_def)
  with \<open>b\<close> show ?case by simp
next
  case (rel_cpu S h m)
  with owner_held [of l S h] show ?case
    by (intro owner_goto) (auto simp: owner_pc_def set_lock_def k_simps lock_held_inv_def)
next
  case (rel_unlock S h m)
  then have m: "m = (at_hart h S)\<lparr>lks := (lks (sm_mach S))(l := (lks (sm_mach S) l)\<lparr>lk_locked := 0\<rparr>)\<rparr>"
    by (auto simp: lock_release_def set_lock_def k_simps)
  from rel_unlock have "lock_held_inv l S h" by (auto intro: owner_held simp: owner_pc_def)
  with rel_unlock(1) have "lock_free_inv l (goto S h RelPop m)"
    by (auto simp: m lock_held_inv_def lock_free_inv_def lock_free_def goto_def owner_pc_def)
  moreover have "harts_inv (goto S h RelPop m)"
    using rel_unlock(1,3) by (intro harts_goto) (auto simp: m lock_inv_def)
  ultimately show ?case by (auto simp: lock_inv_def)
next
  case (rel_pop S h m)
  from rel_pop(1) inv_hart [OF rel_pop(3), of h]
  have ok: "hart_ok (sm_mach S) h" "0 < c_noff (cpus (sm_mach S) h)" by auto
  with rel_pop(2) have "hart_ok m h" "lks m = lks (sm_mach S)"
    "h' \<noteq> h \<Longrightarrow> cpus m h' = cpus (sm_mach S) h' \<and> sstatus m h' = sstatus (sm_mach S) h'" for h'
    by (auto simp: spinlock_defs k_simps hart_ok_def split: if_splits)
  then show ?case using rel_pop(1,3) by (intro goto_inv) (simp_all add: owner_pc_def)
next
  case (rel_pop_panic S h msg)
  from rel_pop_panic(1) inv_hart [OF rel_pop_panic(3), of h]
  have "hart_ok (sm_mach S) h" "0 < c_noff (cpus (sm_mach S) h)" by auto
  with rel_pop_panic(2) show ?case
    by (auto simp: spinlock_defs k_simps hart_ok_def split: if_splits)
qed

lemma smp_reach_inv: "smp_reach l S \<Longrightarrow> lock_inv l S"
  by (induction rule: smp_reach.induct) (auto intro: smp_init_inv lock_step_inv)

text \<open>
  The step of a given hart is determined, so a schedule (which hart moves next) gives a run.
\<close>

definition lock_next :: "lockid \<Rightarrow> nat \<Rightarrow> smp \<Rightarrow> smp" where
  "lock_next l h S = (let m = at_hart h S in case sm_pc S h of
      Idle \<Rightarrow> goto S h AcqCheck (pushed m)
    | AcqCheck \<Rightarrow> (case holding l m of Inr (b, m') \<Rightarrow> goto S h (if b then Halted ''acquire'' else AcqSwap) m' | Inl _ \<Rightarrow> S)
    | AcqSwap \<Rightarrow> (case test_and_set l m of Inr (old, m') \<Rightarrow> goto S h (if old \<noteq> 0 then AcqSwap else AcqSetCpu) m' | Inl _ \<Rightarrow> S)
    | AcqSetCpu \<Rightarrow> goto S h Crit (m\<lparr>lks := (lks m)(l := (lks m l)\<lparr>lk_cpu := Some h\<rparr>)\<rparr>)
    | Crit \<Rightarrow> (case holding l m of Inr (b, m') \<Rightarrow> goto S h (if b then RelCpu else Halted ''release'') m' | Inl _ \<Rightarrow> S)
    | RelCpu \<Rightarrow> goto S h RelUnlock (m\<lparr>lks := (lks m)(l := (lks m l)\<lparr>lk_cpu := None\<rparr>)\<rparr>)
    | RelUnlock \<Rightarrow> (case lock_release l m of Inr (_, m') \<Rightarrow> goto S h RelPop m' | Inl _ \<Rightarrow> S)
    | RelPop \<Rightarrow> (case pop_off m of Inr (_, m') \<Rightarrow> goto S h Idle m' | Inl (Panic msg) \<Rightarrow> goto S h (Halted msg) m | Inl _ \<Rightarrow> S)
    | Halted _ \<Rightarrow> S)"

definition lock_run :: "lockid \<Rightarrow> nat list \<Rightarrow> smp \<Rightarrow> smp" where
  "lock_run l hs S = foldl (\<lambda>S h. lock_next l h S) S hs"

lemma lock_next_step: "lock_inv l S \<Longrightarrow> lock_step l S (lock_next l h S)"
proof -
  assume inv: "lock_inv l S"
  have pop: "\<exists>m. pop_off (at_hart h S) = Inr ((), m)" if "sm_pc S h = RelPop"
    using inv_hart [OF inv, of h] that by (auto simp: spinlock_defs k_simps hart_ok_def)
  show ?thesis
  proof (cases "sm_pc S h")
    case Idle
    then show ?thesis using lock_step.acq_push [of S h] by (simp add: lock_next_def push_off_run)
  next
    case AcqCheck
    then show ?thesis using lock_step.acq_check [OF AcqCheck holding_run] by (simp add: lock_next_def holding_run)
  next
    case AcqSwap
    then show ?thesis using lock_step.acq_swap [OF AcqSwap, of l]
      by (simp add: lock_next_def test_and_set_def set_lock_def k_simps)
  next
    case AcqSetCpu
    then show ?thesis using lock_step.acq_cpu [OF AcqSetCpu, of l]
      by (simp add: lock_next_def mycpu_def cpuid_def set_lock_def k_simps)
  next
    case Crit
    then show ?thesis using lock_step.rel_check [OF Crit holding_run] by (simp add: lock_next_def holding_run)
  next
    case RelCpu
    then show ?thesis using lock_step.rel_cpu [OF RelCpu, of l] by (simp add: lock_next_def set_lock_def k_simps)
  next
    case RelUnlock
    then show ?thesis using lock_step.rel_unlock [OF RelUnlock, of l]
      by (simp add: lock_next_def lock_release_def set_lock_def k_simps)
  next
    case RelPop
    then show ?thesis using pop lock_step.rel_pop [OF RelPop] by (auto simp: lock_next_def)
  next
    case (Halted msg)
    with inv show ?thesis by (simp add: lock_inv_def harts_inv_def)
  qed
qed

lemma lock_run_reach: "smp_reach l S \<Longrightarrow> smp_reach l (lock_run l hs S)"
proof (induction hs arbitrary: S)
  case (Cons h hs)
  have "smp_reach l (lock_next l h S)"
    by (rule smp_reach.step [OF Cons.prems lock_next_step]) (rule smp_reach_inv [OF Cons.prems])
  from Cons.IH [OF this] show ?case by (simp add: lock_run_def)
qed (simp add: lock_run_def)

definition boot_smp :: smp where
  "boot_smp = \<lparr>sm_mach = \<lparr>tp = 0,
     cpus = (\<lambda>_. \<lparr>c_proc = None, c_context = \<lparr>ctx_ra = 0, ctx_sp = 0, ctx_s = []\<rparr>, c_noff = 0, c_intena = 0\<rparr>),
     sstatus = (\<lambda>_. SSTATUS_SIE), lks = (\<lambda>_. \<lparr>lk_locked = 0, lk_name = [], lk_cpu = None\<rparr>)\<rparr>,
     sm_pc = (\<lambda>_. Idle)\<rparr>"

lemma boot_smp_reach: "smp_reach l boot_smp"
  by (rule smp_reach.start) (simp add: smp_init_def boot_smp_def lock_free_def hart_ok_def)



end
