(* ===== verification/Xv6_Memory.thy ===== *)
theory Xv6_Memory
  imports Xv6_Riscv
begin

unbundle bit_operations_syntax

text \<open>
  Physical memory as bytes, and the string functions of \<^verbatim>\<open>string.c\<close>.

  \<open>memset\<close> and \<open>memmove\<close> work on the memory itself, because their arguments may
  overlap. The other functions only read through their \<open>const char *\<close> arguments: such
  a pointer is the function from an offset to the byte there, and the bytes written
  through the destination are the result.
\<close>

type_synonym memory = "u64 \<Rightarrow> u8"
type_synonym bytes = "nat \<Rightarrow> u8"  \<comment> \<open>what a pointer that is only read points to\<close>

section \<open>string.c\<close>

definition memset :: "memory \<Rightarrow> u64 \<Rightarrow> cint \<Rightarrow> nat \<Rightarrow> memory" where
  "memset m dst c n = fold (\<lambda>i m. m(dst + of_nat i := ucast c)) [0..<n] m"

fun memcmp :: "bytes \<Rightarrow> bytes \<Rightarrow> nat \<Rightarrow> int" where
  "memcmp s1 s2 0 = 0"
| "memcmp s1 s2 (Suc n) =
     (if s1 0 \<noteq> s2 0 then uint (s1 0) - uint (s2 0)
      else memcmp (\<lambda>i. s1 (Suc i)) (\<lambda>i. s2 (Suc i)) n)"

text \<open>The two loops of \<open>memmove\<close>: \<^verbatim>\<open>*--d = *--s\<close> and \<^verbatim>\<open>*d++ = *s++\<close>.\<close>

fun memmove_down :: "memory \<Rightarrow> u64 \<Rightarrow> u64 \<Rightarrow> nat \<Rightarrow> memory" where
  "memmove_down m d s 0 = m"
| "memmove_down m d s (Suc n) = memmove_down (m(d - 1 := m (s - 1))) (d - 1) (s - 1) n"

fun memmove_up :: "memory \<Rightarrow> u64 \<Rightarrow> u64 \<Rightarrow> nat \<Rightarrow> memory" where
  "memmove_up m d s 0 = m"
| "memmove_up m d s (Suc n) = memmove_up (m(d := m s)) (d + 1) (s + 1) n"

definition memmove :: "memory \<Rightarrow> u64 \<Rightarrow> u64 \<Rightarrow> nat \<Rightarrow> memory" where
  "memmove m dst src n =
     (if n = 0 then m
      else if src < dst \<and> src + of_nat n > dst
      then memmove_down m (dst + of_nat n) (src + of_nat n) n
      else memmove_up m dst src n)"

definition memcpy :: "memory \<Rightarrow> u64 \<Rightarrow> u64 \<Rightarrow> nat \<Rightarrow> memory" where
  "memcpy m dst src n = memmove m dst src n"

fun strncmp :: "bytes \<Rightarrow> bytes \<Rightarrow> nat \<Rightarrow> int" where
  "strncmp p q 0 = 0"
| "strncmp p q (Suc n) =
     (if p 0 \<noteq> 0 \<and> p 0 = q 0 then strncmp (\<lambda>i. p (Suc i)) (\<lambda>i. q (Suc i)) n
      else uint (p 0) - uint (q 0))"

text \<open>\<open>strncpy\<close> always writes \<open>n\<close> bytes: the copied ones and then zeros.\<close>

fun strncpy :: "bytes \<Rightarrow> nat \<Rightarrow> u8 list" where
  "strncpy t 0 = []"
| "strncpy t (Suc n) =
     (if t 0 \<noteq> 0 then t 0 # strncpy (\<lambda>i. t (Suc i)) n
      else 0 # replicate n 0)"

text \<open>
  \<open>safestrcpy\<close> writes at most \<open>n\<close> bytes, the last one zero; the loop runs while
  \<^verbatim>\<open>--n > 0\<close>, and after a copied zero it stores one more zero behind it.
\<close>

fun safestrcpy_loop :: "bytes \<Rightarrow> nat \<Rightarrow> u8 list" where
  "safestrcpy_loop t 0 = [0]"
| "safestrcpy_loop t (Suc n) =
     (if t 0 \<noteq> 0 then t 0 # safestrcpy_loop (\<lambda>i. t (Suc i)) n else [0, 0])"

definition safestrcpy :: "bytes \<Rightarrow> int \<Rightarrow> u8 list" where
  "safestrcpy t n = (if n \<le> 0 then [] else safestrcpy_loop t (nat (n - 1)))"

partial_function (option) strlen_loop :: "bytes \<Rightarrow> nat \<Rightarrow> nat option" where
  "strlen_loop s n = (if s n \<noteq> 0 then strlen_loop s (n + 1) else Some n)"

definition strlen :: "bytes \<Rightarrow> nat option" where
  "strlen s = strlen_loop s 0"

section \<open>What the string functions compute\<close>

lemma u64_of_nat_unat [simp]: "(of_nat (unat a) :: u64) = a"
  by simp

lemma unat_of_nat_u64: "n < 18446744073709551616 \<Longrightarrow> unat (of_nat n :: u64) = n"
  by (simp add: unat_of_nat)

lemma unat_neqI: "unat (x::u64) \<noteq> unat y \<Longrightarrow> x \<noteq> y"
  by blast

lemma add_of_nat_eq_iff:
  "n < 18446744073709551616 \<Longrightarrow> a = dst + (of_nat n :: u64) \<longleftrightarrow> unat (a - dst) = n"
  by (metis add_diff_cancel_left' diff_add_cancel add.commute unat_of_nat_u64 u64_of_nat_unat)

lemma memset_at:
  "n \<le> 18446744073709551616 \<Longrightarrow>
   memset m dst c n a = (if unat (a - dst) < n then ucast c else m a)"
  by (induction n) (auto simp: memset_def add_of_nat_eq_iff less_Suc_eq)

lemma memset_eq:
  "n \<le> 18446744073709551616 \<Longrightarrow>
   memset m dst c n = (\<lambda>a. if unat (a - dst) < n then ucast c else m a)"
  by (rule ext) (simp add: memset_at)

text \<open>
  Copying upwards is right where the destination does not start inside the source, copying
  downwards where it does not end there.
\<close>

lemma memmove_up_at:
  assumes "unat d + n \<le> 18446744073709551616" "unat s + n \<le> 18446744073709551616"
    and "d \<le> s \<or> unat s + n \<le> unat d"
  shows "memmove_up m d s n a = (if unat d \<le> unat a \<and> unat a < unat d + n then m (s + (a - d)) else m a)"
  using assms
proof (induction n arbitrary: m d s)
  case (Suc n)
  show ?case
  proof (cases "n = 0")
    case True
    moreover have "unat d \<le> unat a \<and> unat a < unat d + 1 \<longleftrightarrow> a = d"
      by (auto simp: word_unat_eq_iff)
    ultimately show ?thesis by simp
  next
    case False
    with Suc.prems have u: "unat (d + 1) = unat d + 1" "unat (s + 1) = unat s + 1"
      by (auto simp: unat_add_u64)
    have "memmove_up (m(d := m s)) (d + 1) (s + 1) n a =
      (if unat (d + 1) \<le> unat a \<and> unat a < unat (d + 1) + n
       then (m(d := m s)) (s + 1 + (a - (d + 1))) else (m(d := m s)) a)"
      using Suc.prems u by (intro Suc.IH) (auto simp: word_le_nat_alt)
    moreover have "s + 1 + (a - (d + 1)) = s + (a - d)" by simp
    moreover have "s + (a - d) \<noteq> d" if "unat d + 1 \<le> unat a" "unat a < unat d + 1 + n"
    proof -
      from that have "unat (a - d) = unat a - unat d" by (intro unat_diff_u64) simp
      then have "unat (s + (a - d)) = unat s + (unat a - unat d)"
        using that Suc.prems by (subst unat_add_u64) auto
      with that Suc.prems(3) have "unat (s + (a - d)) \<noteq> unat d" by (auto simp: word_le_nat_alt)
      then show ?thesis by (rule unat_neqI)
    qed
    ultimately have step: "memmove_up m d s (Suc n) a =
      (if unat d + 1 \<le> unat a \<and> unat a < unat d + 1 + n then m (s + (a - d))
       else if a = d then m s else m a)"
      using u by auto
    show ?thesis
    proof (cases "a = d")
      case False
      then have "unat a \<noteq> unat d" by (simp add: word_unat_eq_iff)
      with step False show ?thesis by auto
    qed (use step in simp)
  qed
qed auto

lemma memmove_down_at:
  assumes "n \<le> unat d" "n \<le> unat s" and "unat s \<le> unat d"
  shows "memmove_down m d s n a = (if unat d - n \<le> unat a \<and> unat a < unat d then m (s + (a - d)) else m a)"
  using assms
proof (induction n arbitrary: m d s)
  case (Suc n)
  have u: "unat (d - 1) = unat d - 1" "unat (s - 1) = unat s - 1"
    using Suc.prems by (auto simp: unat_diff_u64)
  have ih: "memmove_down (m(d - 1 := m (s - 1))) (d - 1) (s - 1) n a =
    (if unat (d - 1) - n \<le> unat a \<and> unat a < unat (d - 1)
     then (m(d - 1 := m (s - 1))) (s - 1 + (a - (d - 1))) else (m(d - 1 := m (s - 1))) a)"
    using Suc.prems u by (intro Suc.IH) auto
  have eq: "s - 1 + (a - (d - 1)) = s + (a - d)" by simp
  have ne: "s + (a - d) \<noteq> d - 1" if "unat d - Suc n \<le> unat a" "unat a < unat d - 1"
  proof -
    have "unat (d - a) = unat d - unat a" using that by (intro unat_diff_u64) simp
    then have "unat (s - (d - a)) = unat s - (unat d - unat a)"
      using that Suc.prems by (subst unat_diff_u64) auto
    moreover have "s - (d - a) = s + (a - d)" by simp
    ultimately have "unat (s + (a - d)) \<noteq> unat (d - 1)" using that Suc.prems u by simp
    then show ?thesis by (rule unat_neqI)
  qed
  show ?case
  proof (cases "a = d - 1")
    case True
    with ih u eq Suc.prems show ?thesis by auto
  next
    case False
    then have "unat a \<noteq> unat d - 1" using u by (metis word_unat_eq_iff)
    with ih u eq ne False show ?thesis by auto
  qed
qed auto

text \<open>
  C27. \<open>memmove\<close> moves: whether or not the source and the destination overlap, each of the
  \<open>n\<close> destination bytes becomes what the corresponding source byte was before the call,
  and no other byte of memory changes.
\<close>

theorem memmove_correct:
  assumes "unat dst + n < 2 ^ 64" and "unat src + n < 2 ^ 64"
  shows "memmove m dst src n a =
    (if unat dst \<le> unat a \<and> unat a < unat dst + n then m (src + (a - dst)) else m a)"
proof (cases "src < dst \<and> src + of_nat n > dst")
  case True
  have u: "unat (dst + of_nat n) = unat dst + n" "unat (src + of_nat n) = unat src + n"
    using assms by (auto simp: unat_add_u64 unat_of_nat_u64)
  have "src + of_nat n + (a - (dst + of_nat n)) = src + (a - dst)" by simp
  with True memmove_down_at [of n "dst + of_nat n" "src + of_nat n" m a] u show ?thesis
    by (auto simp: memmove_def word_less_nat_alt)
next
  case False
  have "unat (src + of_nat n) = unat src + n"
    using assms by (simp add: unat_add_u64 unat_of_nat_u64)
  with False have "dst \<le> src \<or> unat src + n \<le> unat dst"
    by (auto simp: word_less_nat_alt word_le_nat_alt)
  with False assms memmove_up_at [of dst n src m a] show ?thesis
    by (auto simp: memmove_def)
qed

theorem memmove_correct_witness:
  "memmove (\<lambda>a. ucast a) 4 2 5 7 = (5::u8) \<and> memmove (\<lambda>a. ucast a) 4 2 5 9 = (9::u8)"
  using memmove_correct [of 4 5 2 "\<lambda>a. ucast a" 7] memmove_correct [of 4 5 2 "\<lambda>a. ucast a" 9] by simp

text \<open>The C string that a pointer points to, cut at \<open>n\<close> bytes.\<close>

fun cstr :: "bytes \<Rightarrow> nat \<Rightarrow> u8 list" where
  "cstr p 0 = []"
| "cstr p (Suc n) = (if p 0 = 0 then [] else p 0 # cstr (\<lambda>i. p (Suc i)) n)"

lemma cstr_nz: "0 \<notin> set (cstr p n)"
  by (induction n arbitrary: p) auto

lemma cstr_length: "length (cstr p n) \<le> n"
  by (induction n arbitrary: p) auto

lemma strncmp_cstr: "strncmp p q n = 0 \<longleftrightarrow> cstr p n = cstr q n"
  by (induction n arbitrary: p q) (auto simp: word_uint_eq_iff)

lemma strncpy_cstr: "strncpy t n = cstr t n @ replicate (n - length (cstr t n)) 0"
  by (induction n arbitrary: t) auto

lemma strncpy_length [simp]: "length (strncpy t n) = n"
  by (induction n arbitrary: t) auto

text \<open>A list as the bytes a pointer to it points to; behind the list there are zeros.\<close>

definition ptr :: "u8 list \<Rightarrow> bytes" where
  "ptr xs = (\<lambda>i. if i < length xs then xs ! i else 0)"

lemma ptr_Cons: "ptr (x # xs) 0 = x" "(\<lambda>i. ptr (x # xs) (Suc i)) = ptr xs"
  by (auto simp: ptr_def)

lemma cstr_ptr: "0 \<notin> set xs \<Longrightarrow> cstr (ptr (xs @ replicate k 0)) n = take n xs"
proof (induction n arbitrary: xs)
  case (Suc n)
  then show ?case by (cases xs) (auto simp: ptr_Cons, auto simp: ptr_def)
qed simp

lemma safestrcpy_loop_cstr:
  "safestrcpy_loop t n = cstr t n @ (if length (cstr t n) < n then [0, 0] else [0])"
  by (induction n arbitrary: t) auto

text \<open>\<open>strlen\<close> returns exactly when there is a zero byte, and returns its index.\<close>

lemma strlen_loop_finds:
  "s k = 0 \<Longrightarrow> (\<And>i. n \<le> i \<Longrightarrow> i < k \<Longrightarrow> s i \<noteq> 0) \<Longrightarrow> n \<le> k \<Longrightarrow> strlen_loop s n = Some k"
proof (induction "k - n" arbitrary: n)
  case 0
  then show ?case by (subst strlen_loop.simps) simp
next
  case (Suc d)
  then have "n < k" by simp
  with Suc.prems(2) [of n] have "s n \<noteq> 0" by simp
  moreover have "strlen_loop s (n + 1) = Some k"
    using Suc.hyps(2) Suc.prems \<open>n < k\<close> by (intro Suc.hyps(1)) auto
  ultimately show ?case by (subst strlen_loop.simps) simp
qed

lemma strlen_finds: "s k = 0 \<Longrightarrow> (\<And>i. i < k \<Longrightarrow> s i \<noteq> 0) \<Longrightarrow> strlen s = Some k"
  unfolding strlen_def by (rule strlen_loop_finds) auto

lemma strlen_returns: "\<exists>i. s i = 0 \<Longrightarrow> strlen s = Some (LEAST i. s i = 0)"
  by (rule strlen_finds) (auto intro: LeastI_ex dest: not_less_Least)

text \<open>
  C28. The copy functions and the comparison agree on what a string is. A name copied by
  \<open>strncpy\<close> or \<open>safestrcpy\<close> into a buffer of \<open>n\<close> bytes stays inside the buffer; \<open>strncmp\<close>
  finds the \<open>strncpy\<close> copy equal to the original and tells two names apart exactly when
  their first \<open>n\<close> bytes differ as strings; and \<open>safestrcpy\<close> leaves a terminated string,
  the longest prefix that fits.
\<close>

theorem string_copies:
  "length (strncpy t n) = n \<and> strncmp (ptr (strncpy t n)) t n = 0 \<and>
   (strncmp t u n = 0) = (cstr t n = cstr u n) \<and>
   length (safestrcpy t (int (Suc n))) \<le> Suc n \<and>
   strlen (ptr (safestrcpy t (int (Suc n)))) = Some (length (cstr t n)) \<and>
   cstr (ptr (safestrcpy t (int (Suc n)))) (Suc n) = cstr t n"
proof -
  have safe: "safestrcpy t (int (Suc n)) = cstr t n @ replicate (if length (cstr t n) < n then 2 else 1) 0"
    by (simp add: safestrcpy_def safestrcpy_loop_cstr numeral_2_eq_2)
  have "cstr (ptr (strncpy t n)) n = cstr t n"
    using cstr_ptr [OF cstr_nz, of t n "n - length (cstr t n)" n] cstr_length [of t n]
    by (simp add: strncpy_cstr)
  moreover have "strlen (ptr (safestrcpy t (int (Suc n)))) = Some (length (cstr t n))"
    unfolding safe using cstr_nz [of t n]
    by (intro strlen_finds) (auto simp: ptr_def nth_append in_set_conv_nth)
  moreover have "cstr (ptr (safestrcpy t (int (Suc n)))) (Suc n) = cstr t n"
    unfolding safe using cstr_nz cstr_length [of t n] by (subst cstr_ptr) auto
  moreover have "length (safestrcpy t (int (Suc n))) \<le> Suc n"
    using cstr_length [of t n] unfolding safe by auto
  ultimately show ?thesis by (simp add: strncmp_cstr)
qed

section \<open>Words in memory\<close>

text \<open>Little-endian loads and stores of 64-bit words, and copies of byte lists.\<close>

definition load64 :: "memory \<Rightarrow> u64 \<Rightarrow> u64" where
  "load64 m a = foldr (\<lambda>i w. push_bit (8 * i) (ucast (m (a + of_nat i))) OR w) [0..<8] 0"

definition store64 :: "memory \<Rightarrow> u64 \<Rightarrow> u64 \<Rightarrow> memory" where
  "store64 m a v = fold (\<lambda>i m. m(a + of_nat i := ucast (drop_bit (8 * i) v))) [0..<8] m"

definition load_bytes :: "memory \<Rightarrow> u64 \<Rightarrow> nat \<Rightarrow> u8 list" where
  "load_bytes m a n = map (\<lambda>i. m (a + of_nat i)) [0..<n]"

definition store_bytes :: "memory \<Rightarrow> u64 \<Rightarrow> u8 list \<Rightarrow> memory" where
  "store_bytes m a bs = fold (\<lambda>i m. m(a + of_nat i := bs ! i)) [0..<length bs] m"

text \<open>The bytes of a 32-bit object, as a pointer to it gives them.\<close>

definition bytes32 :: "u32 \<Rightarrow> u8 list" where
  "bytes32 w = map (\<lambda>i. ucast (drop_bit (8 * i) w)) [0..<4]"

text \<open>16- and 32-bit fields of a byte buffer.\<close>

definition get32 :: "u8 list \<Rightarrow> nat \<Rightarrow> u32" where
  "get32 bs o' = foldr (\<lambda>i w. push_bit (8 * i) (ucast (bs ! (o' + i))) OR w) [0..<4] 0"

definition put32 :: "nat \<Rightarrow> u32 \<Rightarrow> u8 list \<Rightarrow> u8 list" where
  "put32 o' w bs = fold (\<lambda>i bs. bs[o' + i := ucast (drop_bit (8 * i) w)]) [0..<4] bs"

definition get16 :: "u8 list \<Rightarrow> nat \<Rightarrow> u16" where
  "get16 bs o' = ucast (bs ! o') OR push_bit 8 (ucast (bs ! (o' + 1)))"

definition put16 :: "nat \<Rightarrow> u16 \<Rightarrow> u8 list \<Rightarrow> u8 list" where
  "put16 o' w bs = bs[o' := ucast w, o' + 1 := ucast (drop_bit 8 w)]"

lemma store64_at:
  "store64 m a v b = (if unat (b - a) < 8 then ucast (drop_bit (8 * unat (b - a)) v) else m b)"
proof -
  have "fold (\<lambda>i m. m(a + of_nat i := ucast (drop_bit (8 * i) v))) [0..<n] m b =
     (if unat (b - a) < n then ucast (drop_bit (8 * unat (b - a)) v) else m b)" if "n \<le> 8" for n
    using that by (induction n) (auto simp: add_of_nat_eq_iff less_Suc_eq)
  from this [of 8] show ?thesis by (simp add: store64_def)
qed

lemma load64_cong: "(\<And>i. i < 8 \<Longrightarrow> m (a + of_nat i) = m' (a + of_nat i)) \<Longrightarrow> load64 m a = load64 m' a"
  unfolding load64_def by (rule foldr_cong) auto

lemma bit_load64: "bit (load64 m a) k \<longleftrightarrow> k < 64 \<and> bit (m (a + of_nat (k div 8))) (k mod 8)"
proof -
  have "bit (foldr (\<lambda>i w. push_bit (8 * i) (ucast (m (a + of_nat i))) OR w) [0..<n] w0 :: u64) k \<longleftrightarrow>
     (k < 8 * n \<and> k < 64 \<and> bit (m (a + of_nat (k div 8))) (k mod 8)) \<or> bit w0 k" for n w0
  proof (induction n arbitrary: w0)
    case (Suc n)
    have "bit (push_bit (8 * n) (ucast (m (a + of_nat n))) :: u64) k \<longleftrightarrow>
       8 * n \<le> k \<and> k < 64 \<and> bit (m (a + of_nat n)) (k - 8 * n)"
      by (auto simp: bit_simps)
    moreover have "bit (m (a + of_nat n)) (k - 8 * n) \<Longrightarrow> k - 8 * n < 8"
      using bit_imp_le_length [of "m (a + of_nat n)" "k - 8 * n"] by simp
    moreover have "8 * n \<le> k \<Longrightarrow> k - 8 * n < 8 \<Longrightarrow> k div 8 = n \<and> k mod 8 = k - 8 * n"
      by (auto simp: div_nat_eqI modulo_nat_def)
    moreover have "k < 8 * Suc n \<longleftrightarrow> k < 8 * n \<or> (8 * n \<le> k \<and> k - 8 * n < 8)" by auto
    ultimately show ?case by (auto simp: Suc.IH bit_or_iff)
  qed simp
  from this [of 8 0] show ?thesis by (auto simp: load64_def)
qed

lemma load64_store64 [simp]: "load64 (store64 m a v) a = v"
proof (rule bit_word_eqI)
  fix k assume k: "k < LENGTH(64)"
  have "unat (a + of_nat (k div 8) - a) = k div 8" using k by (simp add: unat_of_nat_u64)
  moreover have "k div 8 < 8" using k by (simp add: div_less_iff_less_mult)
  moreover have "8 * (k div 8) + k mod 8 = k" by simp
  ultimately show "bit (load64 (store64 m a v) a) k = bit v k"
    using k by (simp add: bit_load64 store64_at bit_simps)
qed

lemma put32_length [simp]: "length (put32 o' w bs) = length bs"
  by (simp add: put32_def upt_conv_Cons)

lemma put16_length [simp]: "length (put16 o' w bs) = length bs"
  by (simp add: put16_def)

lemma put32_nth:
  "o' + 4 \<le> length bs \<Longrightarrow> i < length bs \<Longrightarrow>
   put32 o' w bs ! i = (if o' \<le> i \<and> i < o' + 4 then ucast (drop_bit (8 * (i - o')) w) else bs ! i)"
  by (auto simp: put32_def upt_conv_Cons nth_list_update numeral_eq_Suc less_Suc_eq Suc_diff_le)

lemma bit_get32: "bit (get32 bs o') k \<longleftrightarrow> k < 32 \<and> bit (bs ! (o' + k div 8)) (k mod 8)"
proof -
  have "bit (foldr (\<lambda>i w. push_bit (8 * i) (ucast (bs ! (o' + i))) OR w) [0..<n] w0 :: u32) k \<longleftrightarrow>
     (k < 8 * n \<and> k < 32 \<and> bit (bs ! (o' + k div 8)) (k mod 8)) \<or> bit w0 k" for n w0
  proof (induction n arbitrary: w0)
    case (Suc n)
    have "bit (push_bit (8 * n) (ucast (bs ! (o' + n))) :: u32) k \<longleftrightarrow>
       8 * n \<le> k \<and> k < 32 \<and> bit (bs ! (o' + n)) (k - 8 * n)"
      by (auto simp: bit_simps)
    moreover have "bit (bs ! (o' + n)) (k - 8 * n) \<Longrightarrow> k - 8 * n < 8"
      using bit_imp_le_length [of "bs ! (o' + n)" "k - 8 * n"] by simp
    moreover have "8 * n \<le> k \<Longrightarrow> k - 8 * n < 8 \<Longrightarrow> k div 8 = n \<and> k mod 8 = k - 8 * n"
      by (auto simp: div_nat_eqI modulo_nat_def)
    moreover have "k < 8 * Suc n \<longleftrightarrow> k < 8 * n \<or> (8 * n \<le> k \<and> k - 8 * n < 8)" by auto
    ultimately show ?case by (auto simp: Suc.IH bit_or_iff)
  qed simp
  from this [of 4 0] show ?thesis by (auto simp: get32_def)
qed

lemma get32_put32 [simp]: "o' + 4 \<le> length bs \<Longrightarrow> get32 (put32 o' w bs) o' = w"
proof (rule bit_word_eqI)
  fix k assume k: "k < LENGTH(32)" and "o' + 4 \<le> length bs"
  moreover have "k div 8 < 4" using k by (simp add: div_less_iff_less_mult)
  moreover have "8 * (k div 8) + k mod 8 = k" by simp
  ultimately show "bit (get32 (put32 o' w bs) o') k = bit w k"
    by (simp add: bit_get32 put32_nth bit_simps div_less_iff_less_mult)
qed

lemma get32_put32_other:
  "o' + 4 \<le> length bs \<Longrightarrow> p + 4 \<le> length bs \<Longrightarrow> p + 4 \<le> o' \<or> o' + 4 \<le> p \<Longrightarrow>
   get32 (put32 o' w bs) p = get32 bs p"
proof (rule bit_word_eqI)
  fix k assume k: "k < LENGTH(32)" and le: "o' + 4 \<le> length bs" "p + 4 \<le> length bs" "p + 4 \<le> o' \<or> o' + 4 \<le> p"
  have "k div 8 < 4" using k by (simp add: div_less_iff_less_mult)
  with k le show "bit (get32 (put32 o' w bs) p) k = bit (get32 bs p) k"
    by (auto simp: bit_get32 put32_nth)
qed

text \<open>An address lies in a page when it has the page's number.\<close>

lemma in_page_iff:
  assumes "pg_aligned x"
  shows "unat (a - x) < 4096 \<longleftrightarrow> unat a div 4096 = unat x div 4096"
proof -
  from assms obtain k where k: "unat x = 4096 * k" by (auto simp: pg_aligned_iff dvd_def)
  have "k < 4503599627370496" using u64_bound [of x] k by linarith
  show ?thesis
  proof
    assume off: "unat (a - x) < 4096"
    have "unat (x + (a - x)) = unat x + unat (a - x)"
      using k off \<open>k < 4503599627370496\<close> by (intro unat_add_u64) linarith
    then show "unat a div 4096 = unat x div 4096" using k off by simp
  next
    assume "unat a div 4096 = unat x div 4096"
    with k have "unat a div 4096 = k" by simp
    then have "4096 * k \<le> unat a" "unat a < 4096 * k + 4096" by linarith+
    with k have "unat x \<le> unat a" "unat a < unat x + 4096" by simp_all
    then show "unat (a - x) < 4096" by (subst unat_diff_u64) auto
  qed
qed

lemma aligned_page_eq:
  "pg_aligned x \<Longrightarrow> pg_aligned y \<Longrightarrow> unat x div 4096 = unat y div 4096 \<longleftrightarrow> x = y"
  by (metis pg_aligned_iff div_mult_mod_eq word_unat_eq_iff)

lemma page_offset:
  "pg_aligned x \<Longrightarrow> i < 4096 \<Longrightarrow> unat (x + of_nat i) div 4096 = unat x div 4096"
  by (subst in_page_iff [symmetric]) (auto simp: unat_of_nat_u64)

lemma load64_page_cong:
  assumes "pg_aligned x" "\<And>b. unat b div 4096 = unat x div 4096 \<Longrightarrow> m b = m' b"
  shows "load64 m x = load64 m' x"
  by (rule load64_cong, rule assms(2), rule page_offset [OF assms(1)]) simp

end
