(* ===== verification/Xv6_Kalloc.thy ===== *)
theory Xv6_Kalloc
  imports Xv6_Spinlock Xv6_Memory "HOL-Library.Multiset"
begin

unbundle bit_operations_syntax

text \<open>
  The physical page allocator (\<^verbatim>\<open>kalloc.c\<close>). The free pages are linked through their
  own first words, so the list lives in the byte memory \<open>mem\<close>. The refinement relation
  \<open>kmem_rep\<close> gives the list of free pages the memory holds; \<open>kalloc\<close> and \<open>kfree\<close> then
  are the head and the cons of that list.
\<close>

record kmem = mach +
  mem :: memory           \<comment> \<open>physical memory\<close>
  freelist :: u64         \<comment> \<open>\<open>kmem.freelist\<close>; 0 is the null pointer\<close>
  kend :: u64             \<comment> \<open>the linker's \<open>end\<close>: first address after the kernel\<close>
  etext :: u64            \<comment> \<open>the linker's \<open>etext\<close>: end of the kernel's code\<close>
  trampoline :: u64       \<comment> \<open>the linker's \<open>trampoline\<close>\<close>

section \<open>kalloc.c\<close>

definition kmemset :: "u64 \<Rightarrow> cint \<Rightarrow> nat \<Rightarrow> ('a kmem_scheme, unit) kf" where
  "kmemset dst c n = kupd (\<lambda>s. s\<lparr>mem := memset (mem s) dst c n\<rparr>)"

definition kload64 :: "u64 \<Rightarrow> ('a kmem_scheme, u64) kf" where
  "kload64 a = kgets (\<lambda>s. load64 (mem s) a)"

definition kstore64 :: "u64 \<Rightarrow> u64 \<Rightarrow> ('a kmem_scheme, unit) kf" where
  "kstore64 a v = kupd (\<lambda>s. s\<lparr>mem := store64 (mem s) a v\<rparr>)"

definition kfree :: "u64 \<Rightarrow> ('a kmem_scheme, unit) kf" where
  "kfree pa =
     kbind (kgets kend) (\<lambda>e.
     if pa mod PGSIZE \<noteq> 0 \<or> pa < e \<or> PHYSTOP \<le> pa then panic ''kfree'' else
     block [
       kmemset pa 1 4096,
       acquire L_kmem,
       kbind (kgets freelist) (\<lambda>f. kstore64 pa f),
       kupd (\<lambda>s. s\<lparr>freelist := pa\<rparr>),
       release L_kmem])"

text \<open>The loop visits each page once, so \<open>2 ^ 52\<close> rounds are enough.\<close>

definition freerange :: "u64 \<Rightarrow> u64 \<Rightarrow> ('a kmem_scheme, unit) kf" where
  "freerange pa_start pa_end =
     kloop (2 ^ 52) (\<lambda>p.
       if p + PGSIZE \<le> pa_end then kseq (kfree p) (kret (Inl (p + PGSIZE)))
       else kret (Inr ())) (PGROUNDUP pa_start)"

definition kinit :: "('a kmem_scheme, unit) kf" where
  "kinit = kseq (initlock L_kmem ''kmem'') (kbind (kgets kend) (\<lambda>e. freerange e PHYSTOP))"

definition kalloc :: "('a kmem_scheme, u64) kf" where
  "kalloc =
     kseq (acquire L_kmem) (
     kbind (kgets freelist) (\<lambda>r.
     kseq (kwhen (r \<noteq> 0) (kbind (kload64 r) (\<lambda>nxt. kupd (\<lambda>s. s\<lparr>freelist := nxt\<rparr>)))) (
     kseq (release L_kmem) (
     kseq (kwhen (r \<noteq> 0) (kmemset r 5 4096)) (
     kret r)))))"

section \<open>The list of free pages\<close>

fun run_list :: "memory \<Rightarrow> u64 \<Rightarrow> u64 list \<Rightarrow> bool" where
  "run_list m p [] \<longleftrightarrow> p = 0"
| "run_list m p (x # xs) \<longleftrightarrow> p = x \<and> run_list m (load64 m x) xs"

definition page_ok :: "u64 \<Rightarrow> u64 \<Rightarrow> bool" where
  "page_ok e x \<longleftrightarrow> pg_aligned x \<and> e \<le> x \<and> x < PHYSTOP \<and> x \<noteq> 0"

definition kmem_rep :: "'a kmem_scheme \<Rightarrow> u64 list \<Rightarrow> bool" where
  "kmem_rep s xs \<longleftrightarrow> run_list (mem s) (freelist s) xs \<and> distinct xs \<and> list_all (page_ok (kend s)) xs"

lemma run_list_cong:
  assumes "run_list m p xs" and "\<And>x. x \<in> set xs \<Longrightarrow> load64 m x = load64 m' x"
  shows "run_list m' p xs"
  using assms by (induction xs arbitrary: p) auto

lemma run_list_unique: "run_list m p xs \<Longrightarrow> run_list m p ys \<Longrightarrow> 0 \<notin> set xs \<Longrightarrow> 0 \<notin> set ys \<Longrightarrow> xs = ys"
proof (induction xs arbitrary: p ys)
  case (Cons x xs)
  then show ?case by (cases ys) auto
next
  case Nil
  then show ?case by (cases ys) auto
qed

text \<open>Writing into one page does not disturb the words at other pages.\<close>

lemma load64_other_page:
  assumes "pg_aligned x" "pg_aligned y" "x \<noteq> y"
    and "\<And>b. unat b div 4096 \<noteq> unat y div 4096 \<Longrightarrow> m' b = m b"
  shows "load64 m' x = load64 m x"
  using assms by (intro load64_page_cong) (auto simp: aligned_page_eq)

lemma memset_other_page:
  "pg_aligned y \<Longrightarrow> unat b div 4096 \<noteq> unat y div 4096 \<Longrightarrow> memset m y c 4096 b = m b"
  by (simp add: memset_at in_page_iff)

lemma store64_other_page:
  "pg_aligned y \<Longrightarrow> unat b div 4096 \<noteq> unat y div 4096 \<Longrightarrow> store64 m y v b = m b"
  using in_page_iff [of y b] by (auto simp: store64_at)

section \<open>What the operations do\<close>

lemma kfree_run:
  assumes "page_ok (kend s) pa" and "avail L_kmem s"
  shows "kfree pa s = Inr ((), (noted s)\<lparr>mem := store64 (memset (mem s) pa 1 4096) pa (freelist s), freelist := pa\<rparr>)"
  using assms
  by (simp add: kfree_def page_ok_def pg_aligned_def avail_def cpu_ok_iff lock_free_iff noted_eq k_simps lock_simps
     kmemset_def kstore64_def linorder_not_less linorder_not_le)

lemma kalloc_run:
  assumes "avail L_kmem s"
  shows "kalloc s = Inr (freelist s, if freelist s = 0 then noted s
    else (noted s)\<lparr>mem := memset (mem s) (freelist s) 5 4096, freelist := load64 (mem s) (freelist s)\<rparr>)"
  using assms
  by (simp add: kalloc_def avail_def cpu_ok_iff lock_free_iff noted_eq k_simps lock_simps
     kmemset_def kload64_def)
lemma kmem_frame [simp]:
  "mem (noted s) = mem s" "freelist (noted s) = freelist s" "kend (noted s) = kend s"
  "etext (noted s) = etext s" "trampoline (noted s) = trampoline s"
  by (simp_all add: noted_eq)

lemma avail_frame [simp]:
  "avail l (s\<lparr>mem := m\<rparr>) = avail l s" "avail l (s\<lparr>freelist := f\<rparr>) = avail l s"
  "avail l (noted s) = avail l s"
  by (simp_all add: avail_def cpu_ok_iff lock_free_iff noted_eq lock_simps)

lemma kmem_rep_Nil: "kmem_rep s [] \<longleftrightarrow> freelist s = 0"
  by (simp add: kmem_rep_def)

lemma kmem_rep_Cons:
  "kmem_rep s (x # xs) \<longleftrightarrow> freelist s = x \<and> page_ok (kend s) x \<and> x \<notin> set xs \<and>
     kmem_rep (s\<lparr>freelist := load64 (mem s) x\<rparr>) xs"
  by (auto simp: kmem_rep_def)

text \<open>A write into a page that is not free does not change the free list.\<close>

lemma kmem_rep_write:
  assumes "kmem_rep s xs" and "pg_aligned y" and "y \<notin> set xs"
    and "\<And>b. unat b div 4096 \<noteq> unat y div 4096 \<Longrightarrow> m b = mem s b"
  shows "kmem_rep (s\<lparr>mem := m\<rparr>) xs"
proof -
  have "load64 (mem s) x = load64 m x" if "x \<in> set xs" for x
    using assms that
    by (intro load64_other_page [OF _ assms(2), symmetric]) (auto simp: kmem_rep_def page_ok_def list_all_iff)
  with assms(1) show ?thesis by (auto simp: kmem_rep_def intro: run_list_cong)
qed

definition same_outside :: "memory \<Rightarrow> memory \<Rightarrow> u64 \<Rightarrow> bool" where
  "same_outside m m' x \<longleftrightarrow> (\<forall>b. unat b div 4096 \<noteq> unat x div 4096 \<longrightarrow> m' b = m b)"

lemma kalloc_rep:
  assumes "kmem_rep s (x # xs)" and "avail L_kmem s"
  obtains t where "kalloc s = Inr (x, t)" "kmem_rep t xs" "avail L_kmem t" "page_ok (kend s) x"
    "same_outside (mem s) (mem t) x" "\<forall>i<4096. mem t (x + of_nat i) = 5" "kend t = kend s"
proof
  from assms(1) have x: "freelist s = x" "page_ok (kend s) x" "x \<notin> set xs"
    "kmem_rep (s\<lparr>freelist := load64 (mem s) x\<rparr>) xs" by (simp_all add: kmem_rep_Cons)
  let ?t = "(noted s)\<lparr>mem := memset (mem s) x 5 4096, freelist := load64 (mem s) x\<rparr>"
  from x(1,2) show "kalloc s = Inr (x, ?t)"
    by (simp add: kalloc_run [OF assms(2)] page_ok_def)
  have al: "pg_aligned x" using x(2) by (simp add: page_ok_def)
  have "kmem_rep (noted s\<lparr>freelist := load64 (mem s) x\<rparr>) xs"
    using x(4) by (simp add: kmem_rep_def)
  from kmem_rep_write [OF this al x(3), of "memset (mem s) x 5 4096"]
  show "kmem_rep ?t xs" using memset_other_page [OF al] by (simp add: kmem_rep_def)
  show "avail L_kmem ?t" using assms(2) by simp
  show "same_outside (mem s) (mem ?t) x"
    using memset_other_page [OF al] by (simp add: same_outside_def)
  show "\<forall>i<4096. mem ?t (x + of_nat i) = 5" by (simp add: memset_at unat_of_nat_u64)
  show "page_ok (kend s) x" by (rule x(2))
qed simp

lemma kfree_rep:
  assumes "kmem_rep s xs" and "avail L_kmem s" and "page_ok (kend s) pa" and "pa \<notin> set xs"
  obtains t where "kfree pa s = Inr ((), t)" "kmem_rep t (pa # xs)" "avail L_kmem t"
    "same_outside (mem s) (mem t) pa" "kend t = kend s"
proof
  have al: "pg_aligned pa" using assms(3) by (simp add: page_ok_def)
  let ?m = "store64 (memset (mem s) pa 1 4096) pa (freelist s)"
  let ?t = "(noted s)\<lparr>mem := ?m, freelist := pa\<rparr>"
  show "kfree pa s = Inr ((), ?t)" by (rule kfree_run [OF assms(3,2)])
  have out: "same_outside (mem s) ?m pa"
    using memset_other_page [OF al] store64_other_page [OF al] by (simp add: same_outside_def)
  then show "same_outside (mem s) (mem ?t) pa" by simp
  have "kmem_rep (s\<lparr>mem := ?m\<rparr>) xs"
    using out by (intro kmem_rep_write [OF assms(1) al assms(4)]) (simp add: same_outside_def)
  then show "kmem_rep ?t (pa # xs)"
    using assms(3,4) by (simp add: kmem_rep_Cons) (simp add: kmem_rep_def)
  show "avail L_kmem ?t" using assms(2) by simp
qed simp

section \<open>The interface of the allocator\<close>

text \<open>
  Clients see two operations on a list of free pages. A client is a sequence of
  requests; it frees a page by giving its place among the pages it owns.
\<close>

datatype request = Alloc | Free nat

fun serve :: "('s, u64) kf \<Rightarrow> (u64 \<Rightarrow> ('s, unit) kf) \<Rightarrow> request list \<Rightarrow> u64 list \<Rightarrow> ('s, u64 list) kf" where
  "serve al fr [] own = kret own"
| "serve al fr (Alloc # rs) own = kbind al (\<lambda>p. serve al fr rs (if p = 0 then own else p # own))"
| "serve al fr (Free i # rs) own =
     (if i < length own then kseq (fr (own ! i)) (serve al fr rs (take i own @ drop (Suc i) own))
      else serve al fr rs own)"

locale page_allocator =
  fixes al :: "('s, u64) kf" and fr :: "u64 \<Rightarrow> ('s, unit) kf"
    and rep :: "'s \<Rightarrow> u64 list \<Rightarrow> bool" and valid :: "u64 \<Rightarrow> bool"
  assumes alloc_empty: "rep s [] \<Longrightarrow> \<exists>t. al s = Inr (0, t) \<and> rep t []"
    and alloc_page: "rep s (x # xs) \<Longrightarrow> \<exists>t. al s = Inr (x, t) \<and> rep t xs"
    and free_page: "rep s xs \<Longrightarrow> valid x \<Longrightarrow> x \<notin> set xs \<Longrightarrow> \<exists>t. fr x s = Inr ((), t) \<and> rep t (x # xs)"
    and rep_ok: "rep s xs \<Longrightarrow> distinct xs \<and> (\<forall>x\<in>set xs. valid x)"
    and valid_nonnull: "valid x \<Longrightarrow> x \<noteq> 0"
begin

lemma serve_conserves:
  "rep s xs \<Longrightarrow> distinct (own @ xs) \<Longrightarrow> list_all valid own \<Longrightarrow>
   \<exists>own' ys t. serve al fr rs own s = Inr (own', t) \<and> rep t ys \<and> distinct (own' @ ys) \<and>
     mset (own' @ ys) = mset (own @ xs)"
proof (induction rs arbitrary: s xs own)
  case Nil
  then show ?case by (auto simp: k_simps)
next
  case (Cons r rs)
  show ?case
  proof (cases r)
    case Alloc
    show ?thesis
    proof (cases xs)
      case Nil
      with Cons.prems(1) obtain t where "al s = Inr (0, t)" "rep t []" using alloc_empty by blast
      with Cons.IH [of t "[]" own] Cons.prems Nil Alloc show ?thesis by (simp add: k_simps)
    next
      case (Cons x ys)
      with Cons.prems(1) obtain t where t: "al s = Inr (x, t)" "rep t ys" using alloc_page by blast
      moreover have "valid x" using rep_ok [OF Cons.prems(1)] Cons by simp
      ultimately show ?thesis
        using Cons.IH [of t ys "x # own"] Cons.prems Cons Alloc valid_nonnull [of x] by (auto simp: k_simps)
    qed
  next
    case (Free i)
    show ?thesis
    proof (cases "i < length own")
      case True
      let ?own = "take i own @ drop (Suc i) own"
      have own: "own = take i own @ own ! i # drop (Suc i) own" using True by (rule id_take_nth_drop)
      have m: "mset own = add_mset (own ! i) (mset ?own)" by (subst own) simp
      have v: "valid (own ! i)" "list_all valid ?own" "own ! i \<notin> set xs"
        using Cons.prems nth_mem [OF True] by (auto simp: list_all_iff dest: in_set_takeD in_set_dropD)
      then obtain t where t: "fr (own ! i) s = Inr ((), t)" "rep t (own ! i # xs)"
        using free_page Cons.prems(1) by blast
      have "distinct (?own @ own ! i # xs)"
        by (rule mset_eq_imp_distinct_iff [THEN iffD1, OF _ Cons.prems(2)]) (simp add: m)
      with Cons.IH [OF t(2), of ?own] v obtain own' ys u where
        "serve al fr rs ?own t = Inr (own', u)" "rep u ys" "distinct (own' @ ys)"
        "mset (own' @ ys) = mset (?own @ own ! i # xs)" by blast
      with t(1) Free True m show ?thesis by (auto simp: k_simps)
    next
      case False
      with Cons Free show ?thesis by simp
    qed
  qed
qed

end

interpretation kalloc_pages:
  page_allocator kalloc kfree "\<lambda>s xs. kmem_rep s xs \<and> avail L_kmem s \<and> kend s = e" "page_ok e" for e
proof
  fix s :: "'a kmem_scheme"
  assume "kmem_rep s [] \<and> avail L_kmem s \<and> kend s = e"
  then show "\<exists>t. kalloc s = Inr (0, t) \<and> kmem_rep t [] \<and> avail L_kmem t \<and> kend t = e"
    by (simp add: kalloc_run kmem_rep_Nil)
next
  fix s :: "'a kmem_scheme" and x xs
  assume a: "kmem_rep s (x # xs) \<and> avail L_kmem s \<and> kend s = e"
  then obtain t where "kalloc s = Inr (x, t)" "kmem_rep t xs" "avail L_kmem t" "kend t = kend s"
    using kalloc_rep [of s x xs] by metis
  with a show "\<exists>t. kalloc s = Inr (x, t) \<and> kmem_rep t xs \<and> avail L_kmem t \<and> kend t = e" by auto
next
  fix s :: "'a kmem_scheme" and xs x
  assume a: "kmem_rep s xs \<and> avail L_kmem s \<and> kend s = e" "page_ok e x" "x \<notin> set xs"
  then obtain t where "kfree x s = Inr ((), t)" "kmem_rep t (x # xs)" "avail L_kmem t" "kend t = kend s"
    using kfree_rep [of s xs x] by metis
  with a show "\<exists>t. kfree x s = Inr ((), t) \<and> kmem_rep t (x # xs) \<and> avail L_kmem t \<and> kend t = e" by auto
qed (auto simp: kmem_rep_def list_all_iff page_ok_def)

section \<open>Initialisation\<close>

definition pages :: "u64 \<Rightarrow> nat \<Rightarrow> u64 list" where
  "pages p n = map (\<lambda>i. p + of_nat (4096 * i)) [0..<n]"

lemma pages_Suc: "pages p (Suc n) = p # pages (p + 4096) n"
proof -
  have "pages p (Suc n) = p # map (\<lambda>i. p + of_nat (4096 * Suc i)) [0..<n]"
    by (simp only: pages_def upt_conv_Cons map_Suc_upt [symmetric] map_map o_def list.map zero_less_Suc) simp
  also have "(\<lambda>i. p + of_nat (4096 * Suc i)) = (\<lambda>i. p + 4096 + of_nat (4096 * i) :: u64)"
    by (simp add: fun_eq_iff)
  finally show ?thesis by (simp add: pages_def)
qed

lemma unat_PHYSTOP: "unat PHYSTOP = 0x88000000"
  by (simp add: PHYSTOP_val)

lemma freerange_loop:
  assumes "kmem_rep s xs" "avail L_kmem s" "pg_aligned p" "kend s \<le> p" "p \<noteq> 0"
    and "e \<le> PHYSTOP" "unat p + 4096 * n \<le> unat e" "unat e < unat p + 4096 * n + 4096"
    and "\<And>x. x \<in> set xs \<Longrightarrow> x < p" and "n < fuel"
  shows "\<exists>t. kloop fuel (\<lambda>p. if p + PGSIZE \<le> e then kseq (kfree p) (kret (Inl (p + PGSIZE)))
        else kret (Inr ())) p s = Inr ((), t) \<and> kmem_rep t (rev (pages p n) @ xs) \<and>
      avail L_kmem t \<and> kend t = kend s"
  using assms
proof (induction n arbitrary: s xs p fuel)
  case 0
  then obtain f where f: "fuel = Suc f" by (cases fuel) auto
  have "unat (p + 4096) = unat p + 4096"
    using 0 unat_PHYSTOP by (subst unat_add_u64) (auto simp: word_le_nat_alt)
  with 0 f show ?case by (simp add: k_simps PGSIZE_def word_le_nat_alt pages_def)
next
  case (Suc n)
  then obtain f where f: "fuel = Suc f" by (cases fuel) auto
  have u: "unat (p + 4096) = unat p + 4096"
    using Suc.prems unat_PHYSTOP by (subst unat_add_u64) (auto simp: word_le_nat_alt)
  have "p < PHYSTOP" using Suc.prems by (simp add: word_le_nat_alt word_less_nat_alt)
  then have "page_ok (kend s) p" "p \<notin> set xs"
    using Suc.prems by (auto simp: page_ok_def)
  then obtain t where t: "kfree p s = Inr ((), t)" "kmem_rep t (p # xs)" "avail L_kmem t" "kend t = kend s"
    using kfree_rep Suc.prems(1,2) by metis
  have "p < p + 4096" "p + 4096 \<noteq> 0" using u by (auto simp: word_less_nat_alt simp flip: unat_eq_0)
  then have "\<exists>v. kloop f (\<lambda>p. if p + PGSIZE \<le> e then kseq (kfree p) (kret (Inl (p + PGSIZE)))
        else kret (Inr ())) (p + 4096) t = Inr ((), v) \<and>
      kmem_rep v (rev (pages (p + 4096) n) @ p # xs) \<and> avail L_kmem v \<and> kend v = kend t"
    using Suc.prems u t f
    by (intro Suc.IH) (auto simp: pg_aligned_iff word_le_nat_alt intro: less_trans)
  moreover have "p + PGSIZE \<le> e" using Suc.prems u by (simp add: word_le_nat_alt PGSIZE_def)
  ultimately show ?case using t f by (auto simp: k_simps pages_Suc PGSIZE_def)
qed

text \<open>
  C7. Physical pages are conserved. Whatever requests are made in whatever order, \<open>kalloc\<close>
  and \<open>kfree\<close> return, and the pages the clients own and the pages on the free list
  together stay exactly the ones there were at first, none of them twice: no page is lost
  and no page is handed out while somebody owns it.
\<close>

theorem kalloc_conserves:
  assumes "kmem_rep s xs" and "avail L_kmem s" and "distinct (own @ xs)"
    and "list_all (page_ok (kend s)) own"
  shows "\<exists>own' ys t. serve kalloc kfree rs own s = Inr (own', t) \<and> kmem_rep t ys \<and>
    distinct (own' @ ys) \<and> mset (own' @ ys) = mset (own @ xs)"
  using kalloc_pages.serve_conserves [of s xs "kend s" own rs] assms by blast

definition demo_kmem :: kmem where
  "demo_kmem = \<lparr>tp = 0,
     cpus = (\<lambda>_. \<lparr>c_proc = None, c_context = \<lparr>ctx_ra = 0, ctx_sp = 0, ctx_s = []\<rparr>, c_noff = 0, c_intena = 0\<rparr>),
     sstatus = (\<lambda>_. 0), lks = (\<lambda>_. \<lparr>lk_locked = 0, lk_name = [], lk_cpu = None\<rparr>),
     mem = store64 (\<lambda>_. 0) 0x80002000 0x80003000, freelist = 0x80002000,
     kend = 0x80000800, etext = 0x80000400, trampoline = 0x80000000\<rparr>"

lemma demo_kmem_rep: "kmem_rep demo_kmem [0x80002000, 0x80003000]"
  by (simp add: kmem_rep_def demo_kmem_def page_ok_def pg_aligned_def PGSIZE_def PHYSTOP_val)
    (simp add: load64_def store64_at upt_conv_Cons)

lemma demo_kmem_avail: "avail l demo_kmem"
  by (simp add: avail_def lock_free_def cpu_ok_def demo_kmem_def)

theorem kalloc_conserves_witness:
  "\<exists>own' ys t. serve kalloc kfree [Alloc, Alloc, Free 1, Alloc, Alloc] [] demo_kmem = Inr (own', t) \<and>
     kmem_rep t ys \<and> distinct (own' @ ys) \<and> mset (own' @ ys) = {# 0x80002000, 0x80003000 #}"
  using kalloc_conserves [OF demo_kmem_rep demo_kmem_avail, of "[]" "[Alloc, Alloc, Free 1, Alloc, Alloc]"]
  by simp

text \<open>
  C26. The boot-time initialisation ends, and leaves on the free list exactly the whole pages
  between the end of the kernel and the top of physical memory, the highest one first.
\<close>

theorem kinit_frees_all:
  assumes "0 < kend s" and "kend s \<le> PHYSTOP" and "cpu_ok s" and "freelist s = 0"
  shows "\<exists>t. kinit s = Inr ((), t) \<and>
    kmem_rep t (rev (pages (PGROUNDUP (kend s)) ((unat PHYSTOP - unat (PGROUNDUP (kend s))) div 4096)))"
proof -
  obtain u where u: "initlock L_kmem ''kmem'' s = Inr ((), u)" "kmem_rep u []" "avail L_kmem u" "kend u = kend s"
    using assms(3,4) by (simp add: initlock_def set_lock_def k_simps kmem_rep_Nil avail_def lock_free_def cpu_ok_def sie_def)
  let ?p = "PGROUNDUP (kend s)" and ?n = "(unat PHYSTOP - unat (PGROUNDUP (kend s))) div 4096"
  have e: "0 < unat (kend s)" "unat (kend s) \<le> 0x88000000"
    using assms(1,2) unat_PHYSTOP by (simp_all add: word_less_nat_alt word_le_nat_alt)
  then have up: "unat ?p = (unat (kend s) + 4095) div 4096 * 4096"
    by (simp add: unat_PGROUNDUP)
  have "(unat (kend s) + 4095) div 4096 \<le> (0x88000000 + 4095) div 4096"
    using e by (intro div_le_mono) simp
  then have p: "unat (kend s) \<le> unat ?p" "unat ?p \<le> unat PHYSTOP"
    unfolding up unat_PHYSTOP by (linarith, simp)
  have "\<exists>t. freerange (kend s) PHYSTOP u = Inr ((), t) \<and> kmem_rep t (rev (pages ?p ?n) @ []) \<and>
      avail L_kmem t \<and> kend t = kend u"
    unfolding freerange_def
  proof (rule freerange_loop [OF u(2,3)])
    show "pg_aligned ?p" by (rule PGROUNDUP_aligned)
    show "kend u \<le> ?p" using p(1) u(4) by (simp add: word_le_nat_alt)
    show "?p \<noteq> 0" using p(1) e(1) by (auto simp flip: unat_eq_0)
    show "unat ?p + 4096 * ?n \<le> unat PHYSTOP" "unat PHYSTOP < unat ?p + 4096 * ?n + 4096"
      using p(2) by linarith+
    show "?n < 2 ^ 52" using unat_PHYSTOP by simp
  qed simp_all
  with u show ?thesis by (auto simp: kinit_def k_simps)
qed

theorem kinit_frees_all_witness:
  "\<exists>t. kinit (demo_kmem\<lparr>freelist := 0\<rparr>) = Inr ((), t) \<and> kmem_rep t (rev (pages 0x80001000 32767))"
proof -
  have "cpu_ok (demo_kmem\<lparr>freelist := 0\<rparr>)" by (simp add: cpu_ok_def demo_kmem_def)
  moreover have "kend demo_kmem = 0x80000800" "PGROUNDUP 0x80000800 = 0x80001000"
    by (simp_all add: demo_kmem_def PGROUNDUP_def PGSIZE_def)
  ultimately show ?thesis
    using kinit_frees_all [of "demo_kmem\<lparr>freelist := 0\<rparr>"] unat_PHYSTOP by (simp add: PHYSTOP_val)
qed

end
