(* ===== verification/Xv6_Vm.thy ===== *)
theory Xv6_Vm
  imports Xv6_Kalloc
begin

unbundle bit_operations_syntax

text \<open>
  Page tables (\<^verbatim>\<open>vm.c\<close>). A page table is a tree of pages of the byte memory; a
  \<open>pagetable_t\<close> is the address of its root and a \<open>pte_t *\<close> the address of an entry,
  0 being the null pointer.

  Kernel buffers that are not pages of this memory (a \<^verbatim>\<open>struct buf\<close>, a variable on the
  kernel's stack) are byte lists: \<open>copyout\<close> is given the bytes that \<^verbatim>\<open>src\<close> points to,
  \<open>copyin\<close> and \<open>copyinstr\<close> return the bytes they wrote at \<^verbatim>\<open>dst\<close> with their result.
  Such buffers never share memory with a user page.

  The loops over the pages of a range advance by one page a round, so \<open>2 ^ 52\<close> rounds
  reach every page there is.
\<close>

record vm = kmem +
  kernel_pagetable :: u64
  satp :: "nat \<Rightarrow> u64"       \<comment> \<open>each hart's page-table register\<close>

definition kmemmove :: "u64 \<Rightarrow> u64 \<Rightarrow> nat \<Rightarrow> ('a kmem_scheme, unit) kf" where
  "kmemmove dst src n = kupd (\<lambda>s. s\<lparr>mem := memmove (mem s) dst src n\<rparr>)"

definition kstore_bytes :: "u64 \<Rightarrow> u8 list \<Rightarrow> ('a kmem_scheme, unit) kf" where
  "kstore_bytes a bs = kupd (\<lambda>s. s\<lparr>mem := store_bytes (mem s) a bs\<rparr>)"

definition PAGE_ROUNDS :: nat where "PAGE_ROUNDS = 2 ^ 52"

section \<open>Walking a page table\<close>

definition pte_addr :: "u64 \<Rightarrow> nat \<Rightarrow> u64 \<Rightarrow> u64" where
  "pte_addr pagetable level va = pagetable + 8 * PX level va"

fun walk_loop :: "nat \<Rightarrow> u64 \<Rightarrow> u64 \<Rightarrow> bool \<Rightarrow> ('a kmem_scheme, u64) kf" where
  "walk_loop 0 pagetable va alloc = kret (pte_addr pagetable 0 va)"
| "walk_loop (Suc level) pagetable va alloc =
     kbind (kload64 (pte_addr pagetable (Suc level) va)) (\<lambda>pte.
     if pte AND PTE_V \<noteq> 0 then walk_loop level (PTE2PA pte) va alloc
     else if \<not> alloc then kret 0
     else kbind kalloc (\<lambda>pg.
       if pg = 0 then kret 0 else
       kseq (kmemset pg 0 4096) (
       kseq (kstore64 (pte_addr pagetable (Suc level) va) (PA2PTE pg OR PTE_V)) (
       walk_loop level pg va alloc))))"

definition walk :: "u64 \<Rightarrow> u64 \<Rightarrow> bool \<Rightarrow> ('a kmem_scheme, u64) kf" where
  "walk pagetable va alloc =
     (if MAXVA \<le> va then panic ''walk'' else walk_loop 2 pagetable va alloc)"

definition walkaddr :: "u64 \<Rightarrow> u64 \<Rightarrow> ('a kmem_scheme, u64) kf" where
  "walkaddr pagetable va =
     (if MAXVA \<le> va then kret 0 else
      kbind (walk pagetable va False) (\<lambda>p.
      if p = 0 then kret 0 else
      kbind (kload64 p) (\<lambda>pte.
      if pte AND PTE_V = 0 then kret 0
      else if pte AND PTE_U = 0 then kret 0
      else kret (PTE2PA pte))))"

section \<open>Changing a page table\<close>

definition mappages_round :: "u64 \<Rightarrow> u64 \<Rightarrow> u64 \<Rightarrow> u64 \<times> u64 \<Rightarrow> ('a kmem_scheme, (u64 \<times> u64) + int) kf" where
  "mappages_round pagetable last_va perm = (\<lambda>(a, pa).
     kbind (walk pagetable a True) (\<lambda>p.
     if p = 0 then kret (Inr (-1)) else
     kbind (kload64 p) (\<lambda>pte.
     if pte AND PTE_V \<noteq> 0 then panic ''mappages: remap'' else
     kseq (kstore64 p (PA2PTE pa OR perm OR PTE_V)) (
     if a = last_va then kret (Inr 0)
     else kret (Inl (a + PGSIZE, pa + PGSIZE))))))"

definition mappages :: "u64 \<Rightarrow> u64 \<Rightarrow> u64 \<Rightarrow> u64 \<Rightarrow> u64 \<Rightarrow> ('a kmem_scheme, int) kf" where
  "mappages pagetable va sz pa perm =
     (if va mod PGSIZE \<noteq> 0 then panic ''mappages: va not aligned''
      else if sz mod PGSIZE \<noteq> 0 then panic ''mappages: size not aligned''
      else if sz = 0 then panic ''mappages: size''
      else kloop PAGE_ROUNDS (mappages_round pagetable (va + sz - PGSIZE) perm) (va, pa))"

definition kvmmap :: "u64 \<Rightarrow> u64 \<Rightarrow> u64 \<Rightarrow> u64 \<Rightarrow> u64 \<Rightarrow> ('a kmem_scheme, unit) kf" where
  "kvmmap kpgtbl va pa sz perm =
     kbind (mappages kpgtbl va sz pa perm) (\<lambda>r. kwhen (r \<noteq> 0) (panic ''kvmmap''))"

definition uvmunmap :: "u64 \<Rightarrow> u64 \<Rightarrow> u64 \<Rightarrow> bool \<Rightarrow> ('a kmem_scheme, unit) kf" where
  "uvmunmap pagetable va npages do_free =
     (if va mod PGSIZE \<noteq> 0 then panic ''uvmunmap: not aligned'' else
      kloop PAGE_ROUNDS (\<lambda>a.
        if \<not> a < va + npages * PGSIZE then kret (Inr ()) else
        kbind (walk pagetable a False) (\<lambda>p.
        if p = 0 then panic ''uvmunmap: walk'' else
        kbind (kload64 p) (\<lambda>pte.
        if pte AND PTE_V = 0 then panic ''uvmunmap: not mapped''
        else if PTE_FLAGS pte = PTE_V then panic ''uvmunmap: not a leaf''
        else
          kseq (kwhen do_free (kfree (PTE2PA pte))) (
          kseq (kstore64 p 0) (
          kret (Inl (a + PGSIZE))))))) va)"

definition uvmcreate :: "('a kmem_scheme, u64) kf" where
  "uvmcreate =
     kbind kalloc (\<lambda>pagetable.
     if pagetable = 0 then kret 0 else
     kseq (kmemset pagetable 0 4096) (kret pagetable))"

definition uvmfirst :: "u64 \<Rightarrow> u8 list \<Rightarrow> ('a kmem_scheme, unit) kf" where
  "uvmfirst pagetable src =
     (if 4096 \<le> length src then panic ''uvmfirst: more than a page'' else
      kbind kalloc (\<lambda>pg.
      kseq (kmemset pg 0 4096) (
      kbind (mappages pagetable 0 PGSIZE pg (PTE_W OR PTE_R OR PTE_X OR PTE_U)) (\<lambda>_.
      kstore_bytes pg src))))"

text \<open>\<^verbatim>\<open>npages\<close> is an \<open>int\<close>, converted back to 64 bits by the call of \<open>uvmunmap\<close>.\<close>

definition uvmdealloc :: "u64 \<Rightarrow> u64 \<Rightarrow> u64 \<Rightarrow> ('a kmem_scheme, u64) kf" where
  "uvmdealloc pagetable oldsz newsz =
     (if oldsz \<le> newsz then kret oldsz else
      kseq (kwhen (PGROUNDUP newsz < PGROUNDUP oldsz) (
        let npages = ucast ((PGROUNDUP oldsz - PGROUNDUP newsz) div PGSIZE) :: cint in
        uvmunmap pagetable (PGROUNDUP newsz) (scast npages) True)) (
      kret newsz))"

definition uvmalloc :: "u64 \<Rightarrow> u64 \<Rightarrow> u64 \<Rightarrow> u64 \<Rightarrow> ('a kmem_scheme, u64) kf" where
  "uvmalloc pagetable oldsz newsz xperm =
     (if newsz < oldsz then kret oldsz else
      let oldsz = PGROUNDUP oldsz in
      kloop PAGE_ROUNDS (\<lambda>a.
        if \<not> a < newsz then kret (Inr newsz) else
        kbind kalloc (\<lambda>pg.
        if pg = 0 then kbind (uvmdealloc pagetable a oldsz) (\<lambda>_. kret (Inr 0)) else
        kseq (kmemset pg 0 4096) (
        kbind (mappages pagetable a PGSIZE pg (PTE_R OR PTE_U OR xperm)) (\<lambda>r.
        if r \<noteq> 0 then
          kseq (kfree pg) (kbind (uvmdealloc pagetable a oldsz) (\<lambda>_. kret (Inr 0)))
        else kret (Inl (a + PGSIZE)))))) oldsz)"

text \<open>
  The recursion of \<open>freewalk\<close> follows the tree. Each activation needs a frame on the
  kernel's one-page stack, so a depth of 64 is more than the code itself can reach; a
  well-formed tree has depth 3.
\<close>

fun freewalk_depth :: "nat \<Rightarrow> u64 \<Rightarrow> ('a kmem_scheme, unit) kf" where
  "freewalk_depth 0 pagetable = spin ''freewalk''"
| "freewalk_depth (Suc d) pagetable =
     kseq (kfor [0..<512] (\<lambda>i.
       kbind (kload64 (pagetable + 8 * of_nat i)) (\<lambda>pte.
       if pte AND PTE_V \<noteq> 0 \<and> pte AND (PTE_R OR PTE_W OR PTE_X) = 0 then
         kseq (freewalk_depth d (PTE2PA pte)) (kstore64 (pagetable + 8 * of_nat i) 0)
       else kwhen (pte AND PTE_V \<noteq> 0) (panic ''freewalk: leaf'')))) (
     kfree pagetable)"

definition freewalk :: "u64 \<Rightarrow> ('a kmem_scheme, unit) kf" where
  "freewalk = freewalk_depth 64"

definition uvmfree :: "u64 \<Rightarrow> u64 \<Rightarrow> ('a kmem_scheme, unit) kf" where
  "uvmfree pagetable sz =
     kseq (kwhen (0 < sz) (uvmunmap pagetable 0 (PGROUNDUP sz div PGSIZE) True)) (
     freewalk pagetable)"

text \<open>\<^verbatim>\<open>goto err\<close> is reached with the current \<open>i\<close>; \<open>flags\<close> is an unsigned \<open>int\<close>.\<close>

definition uvmcopy :: "u64 \<Rightarrow> u64 \<Rightarrow> u64 \<Rightarrow> ('a kmem_scheme, int) kf" where
  "uvmcopy old new sz =
     (let err = \<lambda>i. kseq (uvmunmap new 0 (i div PGSIZE) True) (kret (Inr (-1))) in
      kloop PAGE_ROUNDS (\<lambda>i.
        if \<not> i < sz then kret (Inr 0) else
        kbind (walk old i False) (\<lambda>p.
        if p = 0 then panic ''uvmcopy: pte should exist'' else
        kbind (kload64 p) (\<lambda>pte.
        if pte AND PTE_V = 0 then panic ''uvmcopy: page not present'' else
        let pa = PTE2PA pte; flags = ucast (PTE_FLAGS pte) :: u32 in
        kbind kalloc (\<lambda>pg.
        if pg = 0 then err i else
        kseq (kmemmove pg pa 4096) (
        kbind (mappages new i PGSIZE pg (ucast flags)) (\<lambda>r.
        if r \<noteq> 0 then kseq (kfree pg) (err i)
        else kret (Inl (i + PGSIZE)))))))) 0)"

definition uvmclear :: "u64 \<Rightarrow> u64 \<Rightarrow> ('a kmem_scheme, unit) kf" where
  "uvmclear pagetable va =
     kbind (walk pagetable va False) (\<lambda>p.
     if p = 0 then panic ''uvmclear'' else
     kbind (kload64 p) (\<lambda>pte. kstore64 p (pte AND NOT PTE_U)))"

section \<open>Copying between kernel and user\<close>

text \<open>The bytes up to the end of the page, but no more than \<open>len\<close>.\<close>

definition page_part :: "u64 \<Rightarrow> u64 \<Rightarrow> u64" where
  "page_part va len = (let n = PGSIZE - (va - PGROUNDDOWN va) in if n > len then len else n)"

definition copyout_round :: "u64 \<Rightarrow> u64 \<times> u8 list \<Rightarrow> ('a kmem_scheme, (u64 \<times> u8 list) + int) kf" where
  "copyout_round pagetable = (\<lambda>(dstva, src).
     if src = [] then kret (Inr 0) else
     let va0 = PGROUNDDOWN dstva in
     if MAXVA \<le> va0 then kret (Inr (-1)) else
     kbind (walk pagetable va0 False) (\<lambda>p.
     if p = 0 then kret (Inr (-1)) else
     kbind (kload64 p) (\<lambda>pte.
     if pte AND PTE_V = 0 \<or> pte AND PTE_U = 0 \<or> pte AND PTE_W = 0 then kret (Inr (-1)) else
     let n = unat (page_part dstva (of_nat (length src))) in
     kseq (kstore_bytes (PTE2PA pte + (dstva - va0)) (take n src)) (
     kret (Inl (va0 + PGSIZE, drop n src))))))"

definition copyout :: "u64 \<Rightarrow> u64 \<Rightarrow> u8 list \<Rightarrow> ('a kmem_scheme, int) kf" where
  "copyout pagetable dstva src = kloop PAGE_ROUNDS (copyout_round pagetable) (dstva, src)"

definition copyin_round :: "u64 \<Rightarrow> u64 \<times> u64 \<times> u8 list \<Rightarrow> ('a kmem_scheme, (u64 \<times> u64 \<times> u8 list) + (int \<times> u8 list)) kf" where
  "copyin_round pagetable = (\<lambda>(srcva, len, dst).
     if \<not> 0 < len then kret (Inr (0, dst)) else
     let va0 = PGROUNDDOWN srcva in
     kbind (walkaddr pagetable va0) (\<lambda>pa0.
     if pa0 = 0 then kret (Inr (-1, dst)) else
     let n = page_part srcva len in
     kbind (kgets (\<lambda>s. load_bytes (mem s) (pa0 + (srcva - va0)) (unat n))) (\<lambda>bs.
     kret (Inl (va0 + PGSIZE, len - n, dst @ bs)))))"

definition copyin :: "u64 \<Rightarrow> u64 \<Rightarrow> u64 \<Rightarrow> ('a kmem_scheme, int \<times> u8 list) kf" where
  "copyin pagetable srcva len = kloop PAGE_ROUNDS (copyin_round pagetable) (srcva, len, [])"

text \<open>The inner loop: the bytes written at \<^verbatim>\<open>dst\<close> and whether a zero was among them.\<close>

fun copyinstr_page :: "memory \<Rightarrow> u64 \<Rightarrow> nat \<Rightarrow> u8 list \<times> bool" where
  "copyinstr_page m p 0 = ([], False)"
| "copyinstr_page m p (Suc n) =
     (if m p = 0 then ([0], True)
      else case copyinstr_page m (p + 1) n of (bs, got_null) \<Rightarrow> (m p # bs, got_null))"

definition copyinstr :: "u64 \<Rightarrow> u64 \<Rightarrow> u64 \<Rightarrow> ('a kmem_scheme, int \<times> u8 list) kf" where
  "copyinstr pagetable srcva mx =
     kloop PAGE_ROUNDS (\<lambda>(srcva, mx, dst, got_null).
       if \<not> (\<not> got_null \<and> 0 < mx) then kret (Inr (if got_null then 0 else -1, dst)) else
       let va0 = PGROUNDDOWN srcva in
       kbind (walkaddr pagetable va0) (\<lambda>pa0.
       if pa0 = 0 then kret (Inr (-1, dst)) else
       let n = page_part srcva mx in
       kbind (kgets (\<lambda>s. copyinstr_page (mem s) (pa0 + (srcva - va0)) (unat n))) (\<lambda>(bs, got).
       kret (Inl (va0 + PGSIZE, mx - of_nat (length bs - (if got then 1 else 0)), dst @ bs, got)))))
       (srcva, mx, [], False)"

section \<open>The kernel's page table\<close>

definition NPROC :: nat where "NPROC = 64"

definition proc_mapstacks :: "u64 \<Rightarrow> ('a kmem_scheme, unit) kf" where
  "proc_mapstacks kpgtbl = kfor [0..<NPROC] (\<lambda>p.
     kbind kalloc (\<lambda>pa.
     if pa = 0 then panic ''kalloc'' else
     kvmmap kpgtbl (KSTACK p) pa PGSIZE (PTE_R OR PTE_W)))"

definition kvmmake :: "('a kmem_scheme, u64) kf" where
  "kvmmake =
     kbind kalloc (\<lambda>kpgtbl.
     kbind (kgets etext) (\<lambda>et.
     kbind (kgets trampoline) (\<lambda>tr.
     kseq (block [
       kmemset kpgtbl 0 4096,
       kvmmap kpgtbl UART0 UART0 PGSIZE (PTE_R OR PTE_W),
       kvmmap kpgtbl VIRTIO0 VIRTIO0 PGSIZE (PTE_R OR PTE_W),
       kvmmap kpgtbl PLIC PLIC 0x4000000 (PTE_R OR PTE_W),
       kvmmap kpgtbl KERNBASE KERNBASE (et - KERNBASE) (PTE_R OR PTE_X),
       kvmmap kpgtbl et et (PHYSTOP - et) (PTE_R OR PTE_W),
       kvmmap kpgtbl TRAMPOLINE tr PGSIZE (PTE_R OR PTE_X),
       proc_mapstacks kpgtbl]) (
     kret kpgtbl))))"

definition kvminit :: "('a vm_scheme, unit) kf" where
  "kvminit = kbind kvmmake (\<lambda>k. kupd (\<lambda>s. s\<lparr>kernel_pagetable := k\<rparr>))"

definition w_satp :: "u64 \<Rightarrow> ('a vm_scheme, unit) kf" where
  "w_satp x = kupd (\<lambda>s. s\<lparr>satp := (satp s)(tp s := x)\<rparr>)"

text \<open>The fences order the hardware's own reads of the table; there is nothing to do here.\<close>

definition kvminithart :: "('a vm_scheme, unit) kf" where
  "kvminithart = kbind (kgets kernel_pagetable) (\<lambda>k. w_satp (MAKE_SATP k))"

end
