(* ===== verification/Xv6_Proc.thy ===== *)
theory Xv6_Proc
  imports Xv6_Vm
begin

unbundle bit_operations_syntax

text \<open>
  Processes (\<^verbatim>\<open>proc.c\<close>, \<^verbatim>\<open>proc.h\<close>, \<^verbatim>\<open>random.c\<close>): the process table, allocation of
  processes and their page tables, the scheduler with its two policies, \<open>sched\<close>,
  \<open>yield\<close>, \<open>sleep\<close>, \<open>wakeup\<close>, \<open>kill\<close> and \<open>wait\<close>. A \<open>struct proc *\<close> is the index of the
  entry in the table.

  \<open>swtch\<close> leaves the thread that calls it; what the machine does until that thread
  runs again is an argument of the functions that call it: in the scheduler \<open>run p\<close> is
  the execution of process \<open>p\<close> until it switches back, in \<open>sched\<close> \<open>sw\<close> is everything
  other threads do until this one is resumed. A pointer dereferenced while null traps, and
  \<^verbatim>\<open>kerneltrap\<close> panics.
\<close>

section \<open>The process table\<close>

datatype procstate = UNUSED | USED | SLEEPING | RUNNABLE | RUNNING | ZOMBIE

record proc =
  p_state :: procstate
  p_chan :: "chan option"        \<comment> \<open>if non-null, sleeping on this channel\<close>
  p_killed :: int
  p_xstate :: cint               \<comment> \<open>exit status to be returned to the parent's \<open>wait\<close>\<close>
  p_pid :: cint
  p_tickets :: cint              \<comment> \<open>number of lottery tickets\<close>
  p_parent :: "nat option"
  p_kstack :: u64
  p_sz :: u64                    \<comment> \<open>size of process memory in bytes\<close>
  p_pagetable :: u64
  p_trapframe :: u64
  p_context :: ctx
  p_ofile :: "nat \<Rightarrow> nat option" \<comment> \<open>open files, entries of the file table\<close>
  p_cwd :: "nat option"          \<comment> \<open>current directory, an entry of the inode table\<close>
  p_name :: "u8 list"

record procs = vm +
  proc_tab :: "nat \<Rightarrow> proc"
  initproc :: "nat option"
  nextpid :: cint
  scheduler_mode :: int          \<comment> \<open>0 round robin, 1 lottery\<close>
  seed :: u32
  ticks :: u32
  forkret_addr :: u64            \<comment> \<open>the address of the code of \<open>forkret\<close>\<close>

definition NOFILE :: nat where "NOFILE = 16"

definition pget :: "nat \<Rightarrow> (proc \<Rightarrow> 'x) \<Rightarrow> ('a procs_scheme, 'x) kf" where
  "pget p f = kgets (\<lambda>s. f (proc_tab s p))"

definition pset :: "nat \<Rightarrow> (proc \<Rightarrow> proc) \<Rightarrow> ('a procs_scheme, unit) kf" where
  "pset p f = kupd (\<lambda>s. s\<lparr>proc_tab := (proc_tab s)(p := f (proc_tab s p))\<rparr>)"

definition procinit :: "('a procs_scheme, unit) kf" where
  "procinit = block [
     initlock L_pid ''nextpid'',
     initlock L_wait ''wait_lock'',
     kfor [0..<NPROC] (\<lambda>p. block [
       initlock (L_proc p) ''proc'',
       pset p (\<lambda>q. q\<lparr>p_state := UNUSED\<rparr>),
       pset p (\<lambda>q. q\<lparr>p_kstack := KSTACK p\<rparr>)])]"

definition myproc :: "('a procs_scheme, nat option) kf" where
  "myproc =
     kseq push_off (
     kbind mycpu (\<lambda>c.
     kbind (kgets (\<lambda>s. c_proc (cpus s c))) (\<lambda>p.
     kseq pop_off (
     kret p))))"

text \<open>\<open>myproc()->\<close>: the current process, dereferenced.\<close>

definition curproc :: "('a procs_scheme, nat) kf" where
  "curproc = kbind myproc (\<lambda>p. case p of None \<Rightarrow> panic ''kerneltrap'' | Some p \<Rightarrow> kret p)"

definition allocpid :: "('a procs_scheme, cint) kf" where
  "allocpid =
     kseq (acquire L_pid) (
     kbind (kgets nextpid) (\<lambda>pid.
     kseq (kupd (\<lambda>s. s\<lparr>nextpid := nextpid s + 1\<rparr>)) (
     kseq (release L_pid) (
     kret pid))))"

section \<open>Page tables of processes\<close>

definition proc_pagetable :: "nat \<Rightarrow> ('a procs_scheme, u64) kf" where
  "proc_pagetable p =
     kbind uvmcreate (\<lambda>pagetable.
     if pagetable = 0 then kret 0 else
     kbind (kgets trampoline) (\<lambda>tr.
     kbind (mappages pagetable TRAMPOLINE PGSIZE tr (PTE_R OR PTE_X)) (\<lambda>r.
     if r < 0 then kseq (uvmfree pagetable 0) (kret 0) else
     kbind (pget p p_trapframe) (\<lambda>tf.
     kbind (mappages pagetable TRAPFRAME PGSIZE tf (PTE_R OR PTE_W)) (\<lambda>r.
     if r < 0 then
       kseq (uvmunmap pagetable TRAMPOLINE 1 False) (
       kseq (uvmfree pagetable 0) (kret 0))
     else kret pagetable)))))"

definition proc_freepagetable :: "u64 \<Rightarrow> u64 \<Rightarrow> ('a procs_scheme, unit) kf" where
  "proc_freepagetable pagetable sz = block [
     uvmunmap pagetable TRAMPOLINE 1 False,
     uvmunmap pagetable TRAPFRAME 1 False,
     uvmfree pagetable sz]"

definition freeproc :: "nat \<Rightarrow> ('a procs_scheme, unit) kf" where
  "freeproc p =
     kbind (pget p p_trapframe) (\<lambda>tf.
     kseq (kwhen (tf \<noteq> 0) (kfree tf)) (
     kseq (pset p (\<lambda>q. q\<lparr>p_trapframe := 0\<rparr>)) (
     kbind (pget p (\<lambda>q. (p_pagetable q, p_sz q))) (\<lambda>(pt, sz).
     kseq (kwhen (pt \<noteq> 0) (proc_freepagetable pt sz)) (
     pset p (\<lambda>q. q\<lparr>p_pagetable := 0, p_sz := 0, p_pid := 0, p_parent := None,
       p_name := (p_name q)[0 := 0], p_chan := None, p_killed := 0, p_xstate := 0,
       p_state := UNUSED\<rparr>))))))"

text \<open>\<open>Some p\<close> with \<^verbatim>\<open>p->lock\<close> held, or the null pointer.\<close>

definition allocproc :: "('a procs_scheme, nat option) kf" where
  "allocproc =
     kbind (kfind [0..<NPROC] (\<lambda>p.
       kseq (acquire (L_proc p)) (
       kbind (pget p p_state) (\<lambda>st.
       if st = UNUSED then kret (Some p)
       else kseq (release (L_proc p)) (kret None))))) (\<lambda>found.
     case found of None \<Rightarrow> kret None | Some p \<Rightarrow>
     kbind allocpid (\<lambda>pid.
     kseq (pset p (\<lambda>q. q\<lparr>p_pid := pid\<rparr>)) (
     kseq (pset p (\<lambda>q. q\<lparr>p_state := USED\<rparr>)) (
     kseq (pset p (\<lambda>q. q\<lparr>p_tickets := 10\<rparr>)) (
     kbind kalloc (\<lambda>tf.
     kseq (pset p (\<lambda>q. q\<lparr>p_trapframe := tf\<rparr>)) (
     if tf = 0 then kseq (freeproc p) (kseq (release (L_proc p)) (kret None)) else
     kbind (proc_pagetable p) (\<lambda>pt.
     kseq (pset p (\<lambda>q. q\<lparr>p_pagetable := pt\<rparr>)) (
     if pt = 0 then kseq (freeproc p) (kseq (release (L_proc p)) (kret None)) else
     kbind (kgets forkret_addr) (\<lambda>fr.
     kseq (pset p (\<lambda>q. q\<lparr>p_context := \<lparr>ctx_ra = fr, ctx_sp = p_kstack q + PGSIZE, ctx_s = replicate 12 0\<rparr>\<rparr>)) (
     kret (Some p))))))))))))"

definition growproc :: "cint \<Rightarrow> ('a procs_scheme, int) kf" where
  "growproc n =
     kbind curproc (\<lambda>p.
     kbind (pget p (\<lambda>q. (p_pagetable q, p_sz q))) (\<lambda>(pt, sz).
     if 0 < sint n then
       kbind (uvmalloc pt sz (sz + scast n) PTE_W) (\<lambda>sz'.
       if sz' = 0 then kret (-1)
       else kseq (pset p (\<lambda>q. q\<lparr>p_sz := sz'\<rparr>)) (kret 0))
     else if sint n < 0 then
       kbind (uvmdealloc pt sz (sz + scast n)) (\<lambda>sz'.
       kseq (pset p (\<lambda>q. q\<lparr>p_sz := sz'\<rparr>)) (kret 0))
     else kseq (pset p (\<lambda>q. q\<lparr>p_sz := sz\<rparr>)) (kret 0)))"

section \<open>The scheduler\<close>

text \<open>
  \<^verbatim>\<open>seed % max\<close> is computed on unsigned numbers, the \<open>int\<close> \<open>max\<close> being converted; the
  result is converted back to \<open>int\<close>.
\<close>

definition random_next :: "u32 \<Rightarrow> u32" where
  "random_next x = x * 1664525 + 1013904223"

definition random :: "cint \<Rightarrow> ('a procs_scheme, cint) kf" where
  "random mx =
     kseq (kupd (\<lambda>s. s\<lparr>seed := random_next (seed s)\<rparr>)) (
     kbind (kgets seed) (\<lambda>x. kret (x mod mx)))"

definition settickets :: "cint \<Rightarrow> ('a procs_scheme, unit) kf" where
  "settickets n =
     kbind curproc (\<lambda>p. block [
       acquire (L_proc p),
       pset p (\<lambda>q. q\<lparr>p_tickets := n\<rparr>),
       release (L_proc p)])"

text \<open>The first pass of the lottery: all tickets of runnable processes.\<close>

fun count_tickets :: "nat list \<Rightarrow> cint \<Rightarrow> ('a procs_scheme, cint) kf" where
  "count_tickets [] total_tickets = kret total_tickets"
| "count_tickets (p # ps) total_tickets =
     kseq (acquire (L_proc p)) (
     kbind (pget p (\<lambda>q. if p_state q = RUNNABLE then total_tickets + p_tickets q else total_tickets)) (\<lambda>t.
     kseq (release (L_proc p)) (
     count_tickets ps t)))"

text \<open>What both policies do with the process they have chosen.\<close>

definition dispatch :: "(nat \<Rightarrow> ('a procs_scheme, unit) kf) \<Rightarrow> nat \<Rightarrow> nat \<Rightarrow> ('a procs_scheme, unit) kf" where
  "dispatch run c p = block [
     pset p (\<lambda>q. q\<lparr>p_state := RUNNING\<rparr>),
     set_cpu c (\<lambda>cp. cp\<lparr>c_proc := Some p\<rparr>),
     run p,
     set_cpu c (\<lambda>cp. cp\<lparr>c_proc := None\<rparr>)]"

text \<open>The second pass: the process whose tickets reach past the winning one.\<close>

fun pick_winner :: "(nat \<Rightarrow> ('a procs_scheme, unit) kf) \<Rightarrow> nat \<Rightarrow> nat list \<Rightarrow> cint \<Rightarrow> cint \<Rightarrow> ('a procs_scheme, unit) kf" where
  "pick_winner run c [] winning_ticket current_ticket_sum = kret ()"
| "pick_winner run c (p # ps) winning_ticket current_ticket_sum =
     kseq (acquire (L_proc p)) (
     kbind (pget p (\<lambda>q. (p_state q, p_tickets q))) (\<lambda>(st, tk).
     if st = RUNNABLE then
       let sum' = current_ticket_sum + tk in
       if sint winning_ticket < sint sum' then
         kseq (dispatch run c p) (release (L_proc p))
       else kseq (release (L_proc p)) (pick_winner run c ps winning_ticket sum')
     else kseq (release (L_proc p)) (pick_winner run c ps winning_ticket current_ticket_sum)))"

definition lottery :: "(nat \<Rightarrow> ('a procs_scheme, unit) kf) \<Rightarrow> nat \<Rightarrow> ('a procs_scheme, unit) kf" where
  "lottery run c =
     kbind (count_tickets [0..<NPROC] 0) (\<lambda>total_tickets.
     if total_tickets = 0 then kret () else
     kbind (random total_tickets) (\<lambda>winning_ticket.
     pick_winner run c [0..<NPROC] winning_ticket 0))"

definition round_robin :: "(nat \<Rightarrow> ('a procs_scheme, unit) kf) \<Rightarrow> nat \<Rightarrow> ('a procs_scheme, unit) kf" where
  "round_robin run c = kfor [0..<NPROC] (\<lambda>p.
     kseq (acquire (L_proc p)) (
     kbind (pget p p_state) (\<lambda>st.
     kseq (kwhen (st = RUNNABLE) (dispatch run c p)) (
     release (L_proc p)))))"

text \<open>One round of the endless loop, and the scheduler after \<open>n\<close> rounds.\<close>

definition scheduler_round :: "(nat \<Rightarrow> ('a procs_scheme, unit) kf) \<Rightarrow> nat \<Rightarrow> ('a procs_scheme, unit) kf" where
  "scheduler_round run c =
     kseq intr_on (
     kbind (kgets scheduler_mode) (\<lambda>mode.
     if mode = 1 then lottery run c else round_robin run c))"

definition scheduler :: "(nat \<Rightarrow> ('a procs_scheme, unit) kf) \<Rightarrow> nat \<Rightarrow> ('a procs_scheme, unit) kf" where
  "scheduler run n =
     kbind mycpu (\<lambda>c.
     kseq (set_cpu c (\<lambda>cp. cp\<lparr>c_proc := None\<rparr>)) (
     kfor [0..<n] (\<lambda>_. scheduler_round run c)))"

section \<open>Giving up the cpu\<close>

text \<open>The checks of \<open>sched\<close>, which end by reading \<^verbatim>\<open>mycpu()->intena\<close>.\<close>

definition sched_check :: "('a procs_scheme, int) kf" where
  "sched_check =
     kbind curproc (\<lambda>p.
     kbind (holding (L_proc p)) (\<lambda>h.
     if \<not> h then panic ''sched p->lock'' else
     kbind mycpu (\<lambda>c.
     kbind (kgets (\<lambda>s. c_noff (cpus s c))) (\<lambda>noff.
     if noff \<noteq> 1 then panic ''sched locks'' else
     kbind (pget p p_state) (\<lambda>st.
     if st = RUNNING then panic ''sched running'' else
     kbind intr_get (\<lambda>on.
     if on \<noteq> 0 then panic ''sched interruptible'' else
     kgets (\<lambda>s. c_intena (cpus s c))))))))"

definition sched :: "('a procs_scheme, unit) kf \<Rightarrow> ('a procs_scheme, unit) kf" where
  "sched sw =
     kbind sched_check (\<lambda>intena.
     kseq sw (
     kbind mycpu (\<lambda>c.
     set_cpu c (\<lambda>cp. cp\<lparr>c_intena := intena\<rparr>))))"

definition yield :: "('a procs_scheme, unit) kf \<Rightarrow> ('a procs_scheme, unit) kf" where
  "yield sw =
     kbind curproc (\<lambda>p. block [
       acquire (L_proc p),
       pset p (\<lambda>q. q\<lparr>p_state := RUNNABLE\<rparr>),
       sched sw,
       release (L_proc p)])"

definition sleep :: "'a procs_scheme env \<Rightarrow> chan \<Rightarrow> lockid \<Rightarrow> ('a procs_scheme, unit) kf" where
  "sleep e ch lk =
     kbind curproc (\<lambda>p. block [
       acquire (L_proc p),
       release lk,
       pset p (\<lambda>q. q\<lparr>p_chan := Some ch\<rparr>),
       pset p (\<lambda>q. q\<lparr>p_state := SLEEPING\<rparr>),
       sched (others e ch),
       pset p (\<lambda>q. q\<lparr>p_chan := None\<rparr>),
       release (L_proc p),
       acquire lk])"

definition wakeup_one :: "chan option \<Rightarrow> nat \<Rightarrow> ('a procs_scheme, unit) kf" where
  "wakeup_one ch p =
     kbind myproc (\<lambda>me.
     kwhen (Some p \<noteq> me) (
       kseq (acquire (L_proc p)) (
       kbind (pget p (\<lambda>q. p_state q = SLEEPING \<and> p_chan q = ch)) (\<lambda>b.
       kseq (kwhen b (pset p (\<lambda>q. q\<lparr>p_state := RUNNABLE\<rparr>))) (
       release (L_proc p))))))"

definition wakeup :: "chan option \<Rightarrow> ('a procs_scheme, unit) kf" where
  "wakeup ch = kfor [0..<NPROC] (wakeup_one ch)"

section \<open>Killing and waiting\<close>

definition kill_one :: "cint \<Rightarrow> nat \<Rightarrow> ('a procs_scheme, int option) kf" where
  "kill_one pid p =
     kseq (acquire (L_proc p)) (
     kbind (pget p p_pid) (\<lambda>k.
     if k = pid then
       kseq (pset p (\<lambda>q. q\<lparr>p_killed := 1\<rparr>)) (
       kbind (pget p p_state) (\<lambda>st.
       kseq (kwhen (st = SLEEPING) (pset p (\<lambda>q. q\<lparr>p_state := RUNNABLE\<rparr>))) (
       kseq (release (L_proc p)) (kret (Some 0)))))
     else kseq (release (L_proc p)) (kret None)))"

definition kill :: "cint \<Rightarrow> ('a procs_scheme, int) kf" where
  "kill pid =
     kbind (kfind [0..<NPROC] (kill_one pid)) (\<lambda>r.
     case r of None \<Rightarrow> kret (-1) | Some v \<Rightarrow> kret v)"

definition setkilled :: "nat \<Rightarrow> ('a procs_scheme, unit) kf" where
  "setkilled p = block [
     acquire (L_proc p),
     pset p (\<lambda>q. q\<lparr>p_killed := 1\<rparr>),
     release (L_proc p)]"

definition killed :: "nat \<Rightarrow> ('a procs_scheme, int) kf" where
  "killed p =
     kseq (acquire (L_proc p)) (
     kbind (pget p p_killed) (\<lambda>k.
     kseq (release (L_proc p)) (kret k)))"

text \<open>The scan of \<open>wait\<close>: \<open>Inr v\<close> returns \<open>v\<close>, \<open>Inl havekids\<close> reaches the end of the table.\<close>

fun wait_scan :: "nat \<Rightarrow> u64 \<Rightarrow> nat list \<Rightarrow> bool \<Rightarrow> ('a procs_scheme, bool + int) kf" where
  "wait_scan p addr [] havekids = kret (Inl havekids)"
| "wait_scan p addr (pp # pps) havekids =
     kbind (pget pp p_parent) (\<lambda>par.
     if par \<noteq> Some p then wait_scan p addr pps havekids else
     kseq (acquire (L_proc pp)) (
     kbind (pget pp p_state) (\<lambda>st.
     if st = ZOMBIE then
       kbind (pget pp p_pid) (\<lambda>pid.
       kbind (pget pp p_xstate) (\<lambda>xst.
       kbind (pget p p_pagetable) (\<lambda>pt.
       kbind (if addr \<noteq> 0 then copyout pt addr (bytes32 xst) else kret 0) (\<lambda>r.
       if r < 0 then kseq (release (L_proc pp)) (kseq (release L_wait) (kret (Inr (-1))))
       else
         kseq (freeproc pp) (
         kseq (release (L_proc pp)) (
         kseq (release L_wait) (kret (Inr (sint pid)))))))))
     else kseq (release (L_proc pp)) (wait_scan p addr pps True))))"

definition wait :: "'a procs_scheme env \<Rightarrow> u64 \<Rightarrow> ('a procs_scheme, int) kf" where
  "wait e addr =
     kbind curproc (\<lambda>p.
     kseq (acquire L_wait) (
     kwaiting (ChanProc p) (rounds e) (\<lambda>_.
       kbind (wait_scan p addr [0..<NPROC] False) (\<lambda>r. case r of
         Inr v \<Rightarrow> kret (Inr v)
       | Inl havekids \<Rightarrow>
           kbind (if \<not> havekids then kret 1 else killed p) (\<lambda>k.
           if k \<noteq> 0 then kseq (release L_wait) (kret (Inr (-1)))
           else kseq (sleep e (ChanProc p) L_wait) (kret (Inl ()))))) ()))"

definition reparent :: "nat \<Rightarrow> ('a procs_scheme, unit) kf" where
  "reparent p = kfor [0..<NPROC] (\<lambda>pp.
     kbind (pget pp p_parent) (\<lambda>par.
     kwhen (par = Some p) (
       kbind (kgets initproc) (\<lambda>ip.
       kseq (pset pp (\<lambda>q. q\<lparr>p_parent := ip\<rparr>)) (
       wakeup (map_option ChanProc ip))))))"

definition either_copyout :: "bool \<Rightarrow> u64 \<Rightarrow> u8 list \<Rightarrow> ('a procs_scheme, int) kf" where
  "either_copyout user_dst dst src =
     kbind myproc (\<lambda>me.
     if user_dst then (case me of None \<Rightarrow> panic ''kerneltrap''
       | Some p \<Rightarrow> kbind (pget p p_pagetable) (\<lambda>pt. copyout pt dst src))
     else kseq (kstore_bytes dst src) (kret 0))"

definition either_copyin :: "bool \<Rightarrow> u64 \<Rightarrow> u64 \<Rightarrow> ('a procs_scheme, int \<times> u8 list) kf" where
  "either_copyin user_src src len =
     kbind myproc (\<lambda>me.
     if user_src then (case me of None \<Rightarrow> panic ''kerneltrap''
       | Some p \<Rightarrow> kbind (pget p p_pagetable) (\<lambda>pt. copyin pt src len))
     else kbind (kgets (\<lambda>s. load_bytes (mem s) src (unat len))) (\<lambda>bs. kret (0, bs)))"

end
