(* ===== verification/Xv6_Scheduler.thy ===== *)
theory Xv6_Scheduler
  imports Xv6_Proc
begin

unbundle bit_operations_syntax

text \<open>
  Properties of the scheduler: which process a round of the lottery runs and how often each
  process wins, what happens when the ticket counts overflow a C \<open>int\<close>, and what a sweep of
  the round-robin policy runs.
\<close>

section \<open>What a lottery is\<close>

definition share :: "proc \<Rightarrow> nat" where
  "share q = (if p_state q = RUNNABLE then nat (sint (p_tickets q)) else 0)"

definition before :: "(nat \<Rightarrow> proc) \<Rightarrow> nat \<Rightarrow> nat" where
  "before P n = (\<Sum>q<n. share (P q))"

definition holds_ticket :: "(nat \<Rightarrow> proc) \<Rightarrow> nat \<Rightarrow> nat \<Rightarrow> bool" where
  "holds_ticket P p r \<longleftrightarrow> p < NPROC \<and> p_state (P p) = RUNNABLE \<and> before P p \<le> r \<and> r < before P (Suc p)"

definition tickets_ok :: "(nat \<Rightarrow> proc) \<Rightarrow> bool" where
  "tickets_ok P \<longleftrightarrow> (\<forall>p<NPROC. p_state (P p) = RUNNABLE \<longrightarrow> 1 \<le> sint (p_tickets (P p))) \<and>
     before P NPROC < 2 ^ 31"

definition sched_ready :: "'a procs_scheme \<Rightarrow> bool" where
  "sched_ready s \<longleftrightarrow> hok (tp s) (cpus s) (sstatus s) \<and> (\<forall>p<NPROC. lfree (lks s (L_proc p)))"

lemma before_0 [simp]: "before P 0 = 0" by (simp add: before_def)
lemma before_Suc: "before P (Suc n) = before P n + share (P n)" by (simp add: before_def)

lemma before_mono: "m \<le> n \<Longrightarrow> before P m \<le> before P n"
  by (induction rule: dec_induct) (auto simp: before_Suc)

lemma holds_ticket_unique: "holds_ticket P p r \<Longrightarrow> holds_ticket P q r \<Longrightarrow> p = q"
proof (induction p q rule: linorder_wlog)
  case (le p q)
  show ?case
  proof (rule ccontr)
    assume "p \<noteq> q"
    with le(1) have "before P (Suc p) \<le> before P q" by (intro before_mono) simp
    with le(2,3) show False by (simp add: holds_ticket_def)
  qed
qed simp

lemma holds_ticket_exists: "r < before P n \<Longrightarrow> n \<le> NPROC \<Longrightarrow> \<exists>p. holds_ticket P p r"
proof (induction n)
  case (Suc n)
  show ?case
  proof (cases "r < before P n")
    case False
    with Suc.prems have "share (P n) \<noteq> 0" by (auto simp: before_Suc)
    then have "p_state (P n) = RUNNABLE" by (auto simp: share_def split: if_splits)
    with Suc.prems False have "holds_ticket P n r" by (simp add: holds_ticket_def)
    then show ?thesis by blast
  qed (use Suc in auto)
qed simp

section \<open>The two passes\<close>

lemma procs_frame [simp]:
  "proc_tab (noted s) = proc_tab s" "seed (noted s) = seed s" "scheduler_mode (noted s) = scheduler_mode s"
  "nextpid (noted s) = nextpid s" "initproc (noted s) = initproc s" "ticks (noted s) = ticks s"
  by (simp_all add: noted_eq)

lemma sched_ready_frame [simp]:
  "sched_ready (noted s) = sched_ready s" "sched_ready (s\<lparr>seed := x\<rparr>) = sched_ready s"
  by (simp_all add: sched_ready_def noted_eq lock_simps)

lemma proc_lock_step:
  assumes "sched_ready s" and "p < NPROC"
  shows "kseq (acquire (L_proc p)) (kbind (pget p f) (\<lambda>x. kseq (release (L_proc p)) (g x))) s =
    g (f (proc_tab s p)) (noted s)"
  using assms by (simp add: sched_ready_def k_simps lock_simps pget_def noted_eq)

lemma noted_acquire: "lfree (lks s l) \<Longrightarrow> acquire l (noted s) = acquire l s"
  by (simp add: lock_simps noted_eq)

lemma count_tickets_run:
  assumes "sched_ready s" and "set ps \<subseteq> {..<NPROC}"
  shows "count_tickets ps a s =
    Inr (fold (\<lambda>p a. if p_state (proc_tab s p) = RUNNABLE then a + p_tickets (proc_tab s p) else a) ps a,
      if ps = [] then s else noted s)"
  using assms
proof (induction ps arbitrary: a s)
  case (Cons p ps)
  then show ?case using Cons.IH [of "noted s"] by (simp add: proc_lock_step cong: if_cong)
qed (simp add: k_simps)

lemma count_tickets_all:
  "sched_ready s \<Longrightarrow> count_tickets [0..<NPROC] a s =
    Inr (fold (\<lambda>p a. if p_state (proc_tab s p) = RUNNABLE then a + p_tickets (proc_tab s p) else a)
      [0..<NPROC] a, noted s)"
  by (subst count_tickets_run) (auto simp: NPROC_def)

text \<open>Below \<open>2 ^ 31\<close> the sum in the C variable is the mathematical one.\<close>

lemma sint_ticket_sum:
  assumes "tickets_ok P" and "n \<le> NPROC"
  shows "sint (fold (\<lambda>p a. if p_state (P p) = RUNNABLE then a + p_tickets (P p) else a) [0..<n] (0::cint)) =
    int (before P n)"
  using assms(2)
proof (induction n)
  case (Suc n)
  let ?a = "fold (\<lambda>p a. if p_state (P p) = RUNNABLE then a + p_tickets (P p) else a) [0..<n] (0::cint)"
  have "before P (Suc n) \<le> before P NPROC" using Suc.prems by (rule before_mono)
  with assms(1) have lt: "before P (Suc n) < 2 ^ 31" by (simp add: tickets_ok_def)
  show ?case
  proof (cases "p_state (P n) = RUNNABLE")
    case True
    with assms(1) Suc.prems have "1 \<le> sint (p_tickets (P n))" unfolding tickets_ok_def by simp
    then have "0 < sint (p_tickets (P n))" by simp
    then have sh: "int (share (P n)) = sint (p_tickets (P n))" using True by (simp add: share_def)
    with lt have "int (before P n) + sint (p_tickets (P n)) < 2 ^ 31" by (simp add: before_Suc)
    with \<open>0 < sint (p_tickets (P n))\<close> Suc have "sint (?a + p_tickets (P n)) = sint ?a + sint (p_tickets (P n))"
      by (simp add: sint_word_add signed_take_bit_int_eq_self)
    with True sh Suc show ?thesis by (simp add: before_Suc)
  next
    case False
    with Suc show ?thesis by (simp add: before_Suc share_def)
  qed
qed simp

lemma pick_winner_run:
  assumes "sched_ready s" and "tickets_ok (proc_tab s)"
    and "holds_ticket (proc_tab s) p (nat (sint w))" and "0 \<le> sint w"
    and "sint a = int (before (proc_tab s) k)" and "k \<le> p"
  shows "pick_winner run c [k..<NPROC] w a s =
    kseq (acquire (L_proc p)) (kseq (dispatch run c p) (release (L_proc p))) s"
  using assms
proof (induction "p - k" arbitrary: k a s)
  case 0
  then have k: "k = p" "p < NPROC" by (auto simp: holds_ticket_def)
  let ?q = "proc_tab s p"
  have run: "p_state ?q = RUNNABLE" and lt: "nat (sint w) < before (proc_tab s) (Suc p)"
    using 0 by (auto simp: holds_ticket_def)
  have up: "[k..<NPROC] = p # [Suc p..<NPROC]" using k by (simp add: upt_conv_Cons)
  have "1 \<le> sint (p_tickets ?q)" using 0 run k by (simp add: tickets_ok_def)
  moreover have "before (proc_tab s) (Suc p) < 2 ^ 31"
    using before_mono [of "Suc p" NPROC "proc_tab s"] k 0 by (simp add: tickets_ok_def)
  ultimately have "sint (a + p_tickets ?q) = int (before (proc_tab s) (Suc p))"
    using 0 run k by (simp add: sint_word_add signed_take_bit_int_eq_self before_Suc share_def)
  with lt have "sint w < sint (a + p_tickets ?q)" by linarith
  then show ?case unfolding up using 0 run k
    by (simp add: k_simps pget_def lock_simps sched_ready_def Let_def)
next
  case (Suc d)
  then have k: "k < p" "p < NPROC" by (auto simp: holds_ticket_def)
  let ?q = "proc_tab s k"
  let ?a = "if p_state ?q = RUNNABLE then a + p_tickets ?q else a"
  have up: "[k..<NPROC] = k # [Suc k..<NPROC]" using k by (simp add: upt_conv_Cons)
  have le: "before (proc_tab s) (Suc k) \<le> nat (sint w)"
    using before_mono [of "Suc k" p "proc_tab s"] k Suc.prems by (simp add: holds_ticket_def)
  have "before (proc_tab s) (Suc k) < 2 ^ 31"
    using before_mono [of "Suc k" NPROC "proc_tab s"] k Suc.prems by (simp add: tickets_ok_def)
  moreover have "p_state ?q = RUNNABLE \<Longrightarrow> 1 \<le> sint (p_tickets ?q)" using Suc.prems k by (simp add: tickets_ok_def)
  ultimately have a: "sint ?a = int (before (proc_tab s) (Suc k))"
    using Suc.prems by (auto simp: sint_word_add signed_take_bit_int_eq_self before_Suc share_def)
  with le Suc.prems(4) have "\<not> sint w < sint ?a" by linarith
  then have "pick_winner run c [k..<NPROC] w a s = pick_winner run c [Suc k..<NPROC] w ?a (noted s)"
    unfolding up using Suc.prems(1) k
    by (simp add: k_simps pget_def lock_simps sched_ready_def Let_def noted_eq split: if_splits)
  also have "\<dots> = kseq (acquire (L_proc p)) (kseq (dispatch run c p) (release (L_proc p))) (noted s)"
    using Suc.prems Suc.hyps(2) k a by (intro Suc.hyps(1)) auto
  also have "\<dots> = kseq (acquire (L_proc p)) (kseq (dispatch run c p) (release (L_proc p))) s"
    using Suc.prems(1) k by (simp add: k_simps noted_acquire sched_ready_def)
  finally show ?case .
qed

lemma tickets_total_pos:
  assumes "tickets_ok P" and "p < NPROC" and "p_state (P p) = RUNNABLE"
  shows "0 < before P NPROC"
proof -
  have "0 < share (P p)" using assms by (force simp: tickets_ok_def share_def)
  then show ?thesis using before_mono [of "Suc p" NPROC P] assms(2) by (simp add: before_Suc)
qed

text \<open>
  C1. The lottery scheduler runs the owner of the drawn ticket. While the runnable processes
  have at least one ticket each and less than \<open>2 ^ 31\<close> together, number their tickets in
  the order of the process table: if any process is runnable, a round of the lottery draws
  the ticket \<open>random_next seed mod total\<close>, and does exactly one thing, which is to dispatch
  the process that holds it. There is always exactly one such process and it is runnable.
\<close>

theorem lottery_runs_ticket_holder:
  assumes "sched_ready s" and "tickets_ok (proc_tab s)"
    and "q < NPROC" and "p_state (proc_tab s q) = RUNNABLE"
  shows "\<exists>!p. holds_ticket (proc_tab s) p (unat (random_next (seed s)) mod before (proc_tab s) NPROC) \<and>
    lottery run c s = kseq (acquire (L_proc p)) (kseq (dispatch run c p) (release (L_proc p)))
      (s\<lparr>seed := random_next (seed s)\<rparr>)"
proof -
  let ?P = "proc_tab s" and ?x = "random_next (seed s)"
  let ?T = "before ?P NPROC"
  let ?t = "fold (\<lambda>p a. if p_state (?P p) = RUNNABLE then a + p_tickets (?P p) else a) [0..<NPROC] (0::cint)"
  have T: "0 < ?T" "?T < 2 ^ 31"
    using tickets_total_pos [OF assms(2-4)] assms(2) by (auto simp: tickets_ok_def)
  have t: "sint ?t = int ?T" using sint_ticket_sum [OF assms(2), of NPROC] by simp
  then have ut: "unat ?t = ?T" using unat_sint [of ?t] by simp
  have r: "unat (?x mod ?t) = unat ?x mod ?T" by (simp add: unat_mod_distrib ut)
  then have "unat (?x mod ?t) < 2 ^ 31" using T mod_less_divisor [OF T(1), of "unat ?x"] by linarith
  then have "sint (?x mod ?t) = int (unat (?x mod ?t))" by (rule sint_unat)
  then have w: "sint (?x mod ?t) = int (unat ?x mod ?T)" by (simp only: r)
  obtain p where p: "holds_ticket ?P p (unat ?x mod ?T)"
    using holds_ticket_exists [of "unat ?x mod ?T" ?P NPROC] T by auto
  have "pick_winner run c [0..<NPROC] (?x mod ?t) 0 (noted s\<lparr>seed := ?x\<rparr>) =
      kseq (acquire (L_proc p)) (kseq (dispatch run c p) (release (L_proc p))) (noted s\<lparr>seed := ?x\<rparr>)"
    using assms(1,2) p w by (intro pick_winner_run) auto
  moreover have "\<dots> = kseq (acquire (L_proc p)) (kseq (dispatch run c p) (release (L_proc p))) (s\<lparr>seed := ?x\<rparr>)"
    using assms(1) p by (simp add: k_simps sched_ready_def holds_ticket_def noted_eq lock_simps)
  moreover have "?t \<noteq> 0" using ut T by auto
  ultimately have "lottery run c s = kseq (acquire (L_proc p)) (kseq (dispatch run c p) (release (L_proc p))) (s\<lparr>seed := ?x\<rparr>)"
    using count_tickets_all [OF assms(1), of 0] by (simp add: lottery_def k_simps random_def)
  with p show ?thesis by (blast intro: holds_ticket_unique)
qed

section \<open>Proportional share\<close>

lemma random_next_inverse: "4276115653 * (random_next x - 1013904223) = x"
proof -
  have "4276115653 * (random_next x - 1013904223) = x * (4276115653 * 1664525 :: u32)"
    by (simp add: random_next_def algebra_simps)
  also have "(4276115653 * 1664525 :: u32) = 1" by simp
  finally show ?thesis by simp
qed

lemma bij_random_next: "bij random_next"
proof (rule bij_betw_byWitness [where f' = "\<lambda>y. 4276115653 * (y - 1013904223)"])
  show "\<forall>y\<in>UNIV. random_next (4276115653 * (y - 1013904223)) = y"
  proof
    fix y :: u32
    have "random_next (4276115653 * (y - 1013904223)) = (4276115653 * 1664525) * (y - 1013904223) + 1013904223"
      by (simp add: random_next_def algebra_simps)
    also have "(4276115653 * 1664525 :: u32) = 1" by simp
    finally show "random_next (4276115653 * (y - 1013904223)) = y" by simp
  qed
  show "\<forall>x\<in>UNIV. 4276115653 * (random_next x - 1013904223) = x" using random_next_inverse by blast
qed auto

lemma card_residues:
  fixes lo hi T N :: nat
  assumes "lo \<le> hi" "hi \<le> T" "0 < T"
  defines "A \<equiv> {n. n < N \<and> lo \<le> n mod T \<and> n mod T < hi}"
  shows "(hi - lo) * (N div T) \<le> card A" and "card A \<le> (hi - lo) * (N div T + 1)"
proof -
  have fin: "finite A" by (simp add: A_def)
  let ?B = "{lo..<hi} \<times> {..<N div T}" and ?C = "{lo..<hi} \<times> {..N div T}"
  have "card ?B \<le> card A"
  proof (rule card_inj_on_le [where f = "\<lambda>(r, j). j * T + r"])
    show "inj_on (\<lambda>(r, j). j * T + r) ?B"
    proof (rule inj_onI, clarify)
      fix r j r' j'
      assume "r \<in> {lo..<hi}" "r' \<in> {lo..<hi}" and eq: "j * T + r = j' * T + r'"
      then have "r < T" "r' < T" using assms by auto
      then have "(j * T + r) mod T = r" "(j' * T + r') mod T = r'" by auto
      with eq have "r = r'" by simp
      with eq show "r = r' \<and> j = j'" using assms(3) by simp
    qed
    show "(\<lambda>(r, j). j * T + r) ` ?B \<subseteq> A"
    proof clarify
      fix r j assume "r \<in> {lo..<hi}" "j < N div T"
      then have "r < T" "lo \<le> r" "r < hi" using assms by auto
      moreover have "Suc j * T \<le> N" using \<open>j < N div T\<close> by (metis Suc_leI times_div_less_eq_dividend mult.commute mult_le_mono1 order_trans)
      ultimately show "j * T + r \<in> A" by (simp add: A_def)
    qed
  qed (rule fin)
  then show "(hi - lo) * (N div T) \<le> card A" by (simp add: card_cartesian_product)
  have "card A \<le> card ?C"
  proof (rule card_inj_on_le [where f = "\<lambda>n. (n mod T, n div T)"])
    show "inj_on (\<lambda>n. (n mod T, n div T)) A" by (rule inj_onI) (metis div_mult_mod_eq prod.inject)
    show "(\<lambda>n. (n mod T, n div T)) ` A \<subseteq> ?C" by (auto simp: A_def intro: div_le_mono)
  qed simp
  then show "card A \<le> (hi - lo) * (N div T + 1)" by (simp add: card_cartesian_product)
qed

lemma card_u32_residues:
  assumes "lo \<le> hi" "hi \<le> T" "0 < T"
  defines "A \<equiv> {x::u32. lo \<le> unat (random_next x) mod T \<and> unat (random_next x) mod T < hi}"
  shows "(hi - lo) * (2 ^ 32 div T) \<le> card A" and "card A \<le> (hi - lo) * (2 ^ 32 div T + 1)"
proof -
  let ?B = "{n. n < 2 ^ 32 \<and> lo \<le> n mod T \<and> n mod T < hi}"
  have "bij_betw (\<lambda>x. unat (random_next x)) A ?B"
  proof (rule bij_betwI')
    fix x y assume "x \<in> A" "y \<in> A"
    show "unat (random_next x) = unat (random_next y) \<longleftrightarrow> x = y"
      using bij_random_next by (metis bij_is_inj injD word_unat_eq_iff)
  next
    fix x assume "x \<in> A"
    then show "unat (random_next x) \<in> ?B" using unsigned_less [of "random_next x", where 'a = nat] by (simp add: A_def)
  next
    fix n assume n: "n \<in> ?B"
    obtain x where "random_next x = of_nat n" using bij_random_next by (metis bij_pointE)
    moreover have "unat (of_nat n :: u32) = n" using n by (simp add: unat_of_nat)
    ultimately show "\<exists>x\<in>A. n = unat (random_next x)" using n by (intro bexI [of _ x]) (auto simp: A_def)
  qed
  then have "card A = card ?B" by (rule bij_betw_same_card)
  with card_residues [OF assms(1-3), of "2 ^ 32"] show "(hi - lo) * (2 ^ 32 div T) \<le> card A"
    "card A \<le> (hi - lo) * (2 ^ 32 div T + 1)" by simp_all
qed


section \<open>Concrete process tables\<close>

definition idle_proc :: proc where
  "idle_proc = \<lparr>p_state = UNUSED, p_chan = None, p_killed = 0, p_xstate = 0, p_pid = 0, p_tickets = 0,
     p_parent = None, p_kstack = 0, p_sz = 0, p_pagetable = 0, p_trapframe = 0,
     p_context = \<lparr>ctx_ra = 0, ctx_sp = 0, ctx_s = []\<rparr>, p_ofile = (\<lambda>_. None), p_cwd = None,
     p_name = replicate 16 0\<rparr>"

definition runnable_with :: "cint \<Rightarrow> proc" where
  "runnable_with n = idle_proc\<lparr>p_state := RUNNABLE, p_tickets := n\<rparr>"

definition demo_procs :: "(nat \<Rightarrow> proc) \<Rightarrow> procs" where
  "demo_procs P = \<lparr>tp = 0,
     cpus = (\<lambda>_. \<lparr>c_proc = None, c_context = \<lparr>ctx_ra = 0, ctx_sp = 0, ctx_s = []\<rparr>, c_noff = 0, c_intena = 0\<rparr>),
     sstatus = (\<lambda>_. 0), lks = (\<lambda>_. \<lparr>lk_locked = 0, lk_name = [], lk_cpu = None\<rparr>),
     mem = (\<lambda>_. 0), freelist = 0, kend = 0x80000800, etext = 0x80000400, trampoline = 0x80000000,
     kernel_pagetable = 0, satp = (\<lambda>_. 0),
     proc_tab = P, initproc = Some 0, nextpid = 4, scheduler_mode = 1, seed = 1, ticks = 0, forkret_addr = 0\<rparr>"

text \<open>The processes of \<^verbatim>\<open>lotterytest.c\<close>: 10, 30 and 90 tickets.\<close>

definition test_table :: "nat \<Rightarrow> proc" where
  "test_table = (\<lambda>_. idle_proc)(3 := runnable_with 10, 4 := runnable_with 30, 5 := runnable_with 90)"

text \<open>Counts that overflow: \<open>2 ^ 31 - 1\<close>, \<open>2 ^ 31 - 1\<close> and \<open>2\<close> tickets.\<close>

definition rich_table :: "nat \<Rightarrow> proc" where
  "rich_table = (\<lambda>_. idle_proc)(3 := runnable_with 0x7FFFFFFF, 4 := runnable_with 0x7FFFFFFF, 5 := runnable_with 2)"

lemma demo_ready: "sched_ready (demo_procs P)"
  by (simp add: sched_ready_def demo_procs_def hok_def lfree_def)

lemma proc_tab_demo [simp]: "proc_tab (demo_procs P) = P" "seed (demo_procs P) = 1"
  by (simp_all add: demo_procs_def)

lemma share_table:
  "share idle_proc = 0" "share (runnable_with n) = nat (sint n)"
  "p_state idle_proc = UNUSED" "p_state (runnable_with n) = RUNNABLE" "p_tickets (runnable_with n) = n"
  by (simp_all add: share_def idle_proc_def runnable_with_def)

lemma before_sparse: "finite A \<Longrightarrow> (\<And>q. q \<notin> A \<Longrightarrow> share (P q) = 0) \<Longrightarrow> before P n = (\<Sum>q\<in>A \<inter> {..<n}. share (P q))"
  unfolding before_def by (rule sum.mono_neutral_right) (auto intro: ccontr)

lemma test_table_before: "before test_table n = (\<Sum>q\<in>{3,4,5} \<inter> {..<n}. share (test_table q))"
  by (rule before_sparse) (auto simp: test_table_def share_table)

lemma test_table_total: "before test_table NPROC = 130"
  by (simp add: test_table_before NPROC_def) (simp add: test_table_def share_table)

lemma test_table_ok: "tickets_ok test_table"
  by (auto simp: tickets_ok_def test_table_total) (auto simp: test_table_def share_table split: if_splits)

lemma test_table_winner: "holds_ticket test_table 4 38"
  by (simp add: holds_ticket_def NPROC_def test_table_before) (simp add: test_table_def share_table)

text \<open>
  With the generator's first draw, ticket 38 of 130, the process with 30 tickets runs; here it
  gives up the cpu at once.
\<close>

theorem lottery_runs_ticket_holder_witness:
  "lottery (\<lambda>p. pset p (\<lambda>q. q\<lparr>p_state := RUNNABLE\<rparr>)) 0 (demo_procs test_table) =
     kseq (acquire (L_proc 4)) (kseq (dispatch (\<lambda>p. pset p (\<lambda>q. q\<lparr>p_state := RUNNABLE\<rparr>)) 0 4) (release (L_proc 4)))
       (demo_procs test_table\<lparr>seed := 1015568748\<rparr>)"
proof -
  have "p_state (test_table 3) = RUNNABLE" by (simp add: test_table_def share_table)
  then obtain p where p: "holds_ticket test_table p 38"
    "lottery (\<lambda>p. pset p (\<lambda>q. q\<lparr>p_state := RUNNABLE\<rparr>)) 0 (demo_procs test_table) =
     kseq (acquire (L_proc p)) (kseq (dispatch (\<lambda>p. pset p (\<lambda>q. q\<lparr>p_state := RUNNABLE\<rparr>)) 0 p) (release (L_proc p)))
       (demo_procs test_table\<lparr>seed := 1015568748\<rparr>)"
    using lottery_runs_ticket_holder [OF demo_ready, of test_table 3 "\<lambda>p. pset p (\<lambda>q. q\<lparr>p_state := RUNNABLE\<rparr>)" 0]
    by (auto simp: test_table_ok NPROC_def random_next_def test_table_total [unfolded NPROC_def])
  from holds_ticket_unique [OF this(1) test_table_winner] this(2) show ?thesis by simp
qed


section \<open>Where the lottery does not run a process\<close>

text \<open>With nothing to run, a round only passes through the locks.\<close>

lemma lottery_idle:
  assumes "sched_ready s" and "fold (\<lambda>p a. if p_state (proc_tab s p) = RUNNABLE then a + p_tickets (proc_tab s p) else a) [0..<NPROC] (0::cint) = 0"
  shows "lottery run c s = Inr ((), noted s)"
  using count_tickets_all [OF assms(1), of 0] assms(2) by (simp add: lottery_def k_simps)


section \<open>Rounds of the scheduler\<close>

record traced = procs +
  trace :: "nat list"

lemma trace_more: "procs.more t = procs.more s \<Longrightarrow> trace t = trace s" for s t :: traced
  by (cases t, cases s) simp

definition idle_cpu :: "'a procs_scheme \<Rightarrow> bool" where
  "idle_cpu s \<longleftrightarrow> c_noff (cpus s (tp s)) = 0 \<and> (\<forall>p<NPROC. lfree (lks s (L_proc p)))"

definition on_cpu :: "nat \<Rightarrow> 'a procs_scheme \<Rightarrow> bool" where
  "on_cpu p s \<longleftrightarrow> p < NPROC \<and> lk_locked (lks s (L_proc p)) \<noteq> 0 \<and> lk_cpu (lks s (L_proc p)) = Some (tp s) \<and>
     (\<forall>q<NPROC. q \<noteq> p \<longrightarrow> lfree (lks s (L_proc q))) \<and>
     c_noff (cpus s (tp s)) = 1 \<and> sstatus s (tp s) AND SSTATUS_SIE = 0"

lemma idle_ready: "idle_cpu s \<Longrightarrow> sched_ready s"
  by (simp add: idle_cpu_def sched_ready_def hok_def)

lemma acquire_on_cpu:
  assumes "idle_cpu s" and "p < NPROC"
  obtains t where "acquire (L_proc p) s = Inr ((), t)" "on_cpu p t" "tp t = tp s"
    "proc_tab t = proc_tab s" "procs.more t = procs.more s" "c_proc (cpus t (tp t)) = c_proc (cpus s (tp s))"
proof
  show "acquire (L_proc p) s = Inr ((), entered (L_proc p) s)"
    using assms by (simp add: idle_cpu_def lock_simps entered_eq)
qed (use assms in \<open>auto simp: entered_eq on_cpu_def idle_cpu_def lheld_def lock_simps\<close>)

lemma release_on_cpu:
  assumes "on_cpu p s"
  obtains t where "release (L_proc p) s = Inr ((), t)" "idle_cpu t" "tp t = tp s"
    "proc_tab t = proc_tab s" "procs.more t = procs.more s" "c_proc (cpus t (tp t)) = c_proc (cpus s (tp s))"
proof
  show "release (L_proc p) s = Inr ((), s\<lparr>
    lks := (lks s)(L_proc p := (lks s (L_proc p))\<lparr>lk_cpu := None, lk_locked := 0\<rparr>),
    cpus := (cpus s)(tp s := (cpus s (tp s))\<lparr>c_noff := 0\<rparr>),
    sstatus := if c_intena (cpus s (tp s)) \<noteq> 0
      then (sstatus s)(tp s := sstatus s (tp s) OR SSTATUS_SIE) else sstatus s\<rparr>)" (is "_ = Inr ((), ?t)")
    using assms by (subst release_held) (auto simp: on_cpu_def)
  show "idle_cpu ?t" using assms by (auto simp: on_cpu_def idle_cpu_def lfree_def)
qed auto

section \<open>Any threads that keep to the protocol of \<open>swtch\<close>\<close>

text \<open>
  What the scheduler relies on when it switches to a thread: the thread switches back on
  the same cpu, with the lock of its process held and no other, one level of
  \<open>push_off\<close> and interrupts off, its process no longer running; and it leaves runnable the
  other processes that were. \<open>trace\<close> is a ghost variable: the processes that ran.
\<close>

locale threads =
  fixes run :: "nat \<Rightarrow> (traced, unit) kf"
  assumes switches_back: "on_cpu p s \<Longrightarrow> p_state (proc_tab s p) = RUNNING \<Longrightarrow> c_proc (cpus s (tp s)) = Some p \<Longrightarrow>
    \<exists>t. run p s = Inr ((), t) \<and> on_cpu p t \<and> tp t = tp s \<and> p_state (proc_tab t p) \<noteq> RUNNING \<and>
      (\<forall>q. q \<noteq> p \<longrightarrow> p_state (proc_tab s q) = RUNNABLE \<longrightarrow> p_state (proc_tab t q) = RUNNABLE) \<and>
      trace t = trace s @ [p]"
begin

lemma dispatch_runs:
  assumes "on_cpu p s" and "c = tp s"
  obtains t where "dispatch run c p s = Inr ((), t)" "on_cpu p t" "tp t = tp s" "trace t = trace s @ [p]"
    "\<And>q. q \<noteq> p \<Longrightarrow> p_state (proc_tab s q) = RUNNABLE \<Longrightarrow> p_state (proc_tab t q) = RUNNABLE"
proof -
  let ?u = "s\<lparr>proc_tab := (proc_tab s)(p := (proc_tab s p)\<lparr>p_state := RUNNING\<rparr>),
    cpus := (cpus s)(c := (cpus s c)\<lparr>c_proc := Some p\<rparr>)\<rparr>"
  have u: "on_cpu p ?u" "p_state (proc_tab ?u p) = RUNNING" "c_proc (cpus ?u (tp ?u)) = Some p"
    using assms by (auto simp: on_cpu_def)
  from switches_back [OF u] obtain t where t: "run p ?u = Inr ((), t)" "on_cpu p t" "tp t = tp s"
    "\<And>q. q \<noteq> p \<Longrightarrow> p_state (proc_tab s q) = RUNNABLE \<Longrightarrow> p_state (proc_tab t q) = RUNNABLE"
    "trace t = trace s @ [p]" by fastforce
  show ?thesis
  proof (rule that [of "t\<lparr>cpus := (cpus t)(c := (cpus t c)\<lparr>c_proc := None\<rparr>)\<rparr>"])
    show "dispatch run c p s = Inr ((), t\<lparr>cpus := (cpus t)(c := (cpus t c)\<lparr>c_proc := None\<rparr>)\<rparr>)"
      using t(1) by (simp add: dispatch_def pset_def set_cpu_def k_simps)
    show "on_cpu p (t\<lparr>cpus := (cpus t)(c := (cpus t c)\<lparr>c_proc := None\<rparr>)\<rparr>)"
      using t(2,3) assms(2) by (auto simp: on_cpu_def)
  qed (use t in auto)
qed

text \<open>Acquire, dispatch, release: one process has run and the cpu is idle again.\<close>

lemma run_one:
  assumes "idle_cpu s" and "p < NPROC" and "c = tp s"
  obtains t where "kseq (acquire (L_proc p)) (kseq (dispatch run c p) (release (L_proc p))) s = Inr ((), t)"
    "idle_cpu t" "tp t = tp s" "trace t = trace s @ [p]"
    "\<And>q. q \<noteq> p \<Longrightarrow> p_state (proc_tab s q) = RUNNABLE \<Longrightarrow> p_state (proc_tab t q) = RUNNABLE"
proof -
  obtain u where u: "acquire (L_proc p) s = Inr ((), u)" "on_cpu p u" "tp u = tp s" "proc_tab u = proc_tab s" "procs.more u = procs.more s"
    by (rule acquire_on_cpu [OF assms(1,2)])
  obtain v where v: "dispatch run c p u = Inr ((), v)" "on_cpu p v" "tp v = tp u" "trace v = trace u @ [p]"
    "\<And>q. q \<noteq> p \<Longrightarrow> p_state (proc_tab u q) = RUNNABLE \<Longrightarrow> p_state (proc_tab v q) = RUNNABLE"
    using dispatch_runs [OF u(2), of c] assms(3) u(3) by metis
  obtain t where t: "release (L_proc p) v = Inr ((), t)" "idle_cpu t" "tp t = tp v" "proc_tab t = proc_tab v" "procs.more t = procs.more v"
    by (rule release_on_cpu [OF v(2)])
  have "trace u = trace s" "trace t = trace v" by (rule trace_more [OF u(5)], rule trace_more [OF t(5)])
  with u v t show ?thesis by (intro that [of t]) (auto simp: k_simps)
qed

text \<open>A sweep over the rest of the table.\<close>

lemma sweep:
  assumes "idle_cpu s" and "c = tp s" and "n \<le> NPROC"
  shows "\<exists>t ps. kfor [n..<NPROC] (\<lambda>p.
       kseq (acquire (L_proc p)) (
       kbind (pget p p_state) (\<lambda>st.
       kseq (kwhen (st = RUNNABLE) (dispatch run c p)) (
       release (L_proc p))))) s = Inr ((), t) \<and> idle_cpu t \<and> tp t = tp s \<and>
     trace t = trace s @ ps \<and> sorted ps \<and> distinct ps \<and> set ps \<subseteq> {n..<NPROC} \<and>
     (\<forall>p\<in>{n..<NPROC}. p_state (proc_tab s p) = RUNNABLE \<longrightarrow> p \<in> set ps)"
  using assms
proof (induction "NPROC - n" arbitrary: n s)
  case 0
  then show ?case by (intro exI [of _ s] exI [of _ "[]"]) (simp add: k_simps)
next
  case (Suc d)
  then have n: "n < NPROC" and up: "[n..<NPROC] = n # [Suc n..<NPROC]" by (simp_all add: upt_conv_Cons)
  let ?body = "\<lambda>p. kseq (acquire (L_proc p)) (kbind (pget p p_state) (\<lambda>st.
       kseq (kwhen (st = RUNNABLE) (dispatch run c p)) (release (L_proc p))))"
  obtain u qs where u: "?body n s = Inr ((), u)" "idle_cpu u" "tp u = tp s" "trace u = trace s @ qs"
    "\<And>q. q \<noteq> n \<Longrightarrow> p_state (proc_tab s q) = RUNNABLE \<Longrightarrow> p_state (proc_tab u q) = RUNNABLE"
    "qs = (if p_state (proc_tab s n) = RUNNABLE then [n] else [])"
  proof (cases "p_state (proc_tab s n) = RUNNABLE")
    case True
    obtain a where a: "acquire (L_proc n) s = Inr ((), a)" "proc_tab a = proc_tab s"
      using acquire_on_cpu [OF Suc.prems(1) n] by metis
    then have "?body n s = kseq (acquire (L_proc n)) (kseq (dispatch run c n) (release (L_proc n))) s"
      using True by (simp add: k_simps pget_def)
    with run_one [OF Suc.prems(1) n Suc.prems(2)] True show ?thesis by (metis that)
  next
    case False
    have "?body n s = Inr ((), noted s)"
      using False proc_lock_step [OF idle_ready [OF Suc.prems(1)] n, of p_state "\<lambda>_. kret ()"]
        idle_ready [OF Suc.prems(1)] n
      by (simp add: k_simps lock_simps pget_def sched_ready_def noted_eq)
    with False Suc.prems(1) show ?thesis
      by (intro that [of "noted s" "[]"]) (auto simp: idle_cpu_def noted_eq lock_simps)
  qed
  obtain t ps where t: "kfor [Suc n..<NPROC] ?body u = Inr ((), t)" "idle_cpu t" "tp t = tp u"
    "trace t = trace u @ ps" "sorted ps" "distinct ps" "set ps \<subseteq> {Suc n..<NPROC}"
    "\<And>p. p \<in> {Suc n..<NPROC} \<Longrightarrow> p_state (proc_tab u p) = RUNNABLE \<Longrightarrow> p \<in> set ps"
    using Suc.hyps(1) [of "Suc n" u] Suc.hyps(2) Suc.prems n u(2,3) by fastforce
  show ?case
  proof (intro exI conjI)
    show "kfor [n..<NPROC] ?body s = Inr ((), t)" unfolding up using u(1) t(1) by (simp add: k_simps)
    show "trace t = trace s @ (qs @ ps)" using u(4) t(4) by simp
    show "sorted (qs @ ps)" "distinct (qs @ ps)" "set (qs @ ps) \<subseteq> {n..<NPROC}"
      using t(5-7) n by (auto simp: u(6) sorted_append)
    show "\<forall>p\<in>{n..<NPROC}. p_state (proc_tab s p) = RUNNABLE \<longrightarrow> p \<in> set (qs @ ps)"
    proof (intro ballI impI)
      fix p assume p: "p \<in> {n..<NPROC}" "p_state (proc_tab s p) = RUNNABLE"
      show "p \<in> set (qs @ ps)"
      proof (cases "p = n")
        case True
        with p u(6) show ?thesis by simp
      next
        case False
        with p u(5) t(8) [of p] show ?thesis by simp
      qed
    qed
  qed (use u t in auto)
qed

lemma round_robin_sweep:
  assumes "idle_cpu s" and "c = tp s"
  shows "\<exists>t ps. round_robin run c s = Inr ((), t) \<and> idle_cpu t \<and> tp t = tp s \<and>
     trace t = trace s @ ps \<and> sorted ps \<and> distinct ps \<and> set ps \<subseteq> {0..<NPROC} \<and>
     (\<forall>p\<in>{0..<NPROC}. p_state (proc_tab s p) = RUNNABLE \<longrightarrow> p \<in> set ps)"
  unfolding round_robin_def by (rule sweep [OF assms]) simp

text \<open>Whatever the ticket counts are, a round of the lottery ends with the cpu idle again.\<close>

lemma pick_winner_returns:
  assumes "idle_cpu s" and "c = tp s" and "set ps \<subseteq> {..<NPROC}"
  shows "\<exists>t. pick_winner run c ps w a s = Inr ((), t) \<and> idle_cpu t \<and> tp t = tp s"
  using assms
proof (induction ps arbitrary: a s)
  case (Cons p ps)
  then have p: "p < NPROC" by simp
  let ?q = "proc_tab s p"
  let ?a = "if p_state ?q = RUNNABLE then a + p_tickets ?q else a"
  show ?case
  proof (cases "p_state ?q = RUNNABLE \<and> sint w < sint (a + p_tickets ?q)")
    case True
    obtain b where b: "acquire (L_proc p) s = Inr ((), b)" "proc_tab b = proc_tab s"
      using acquire_on_cpu [OF Cons.prems(1) p] by metis
    then have "pick_winner run c (p # ps) w a s =
        kseq (acquire (L_proc p)) (kseq (dispatch run c p) (release (L_proc p))) s"
      using True by (simp add: k_simps pget_def)
    with run_one [OF Cons.prems(1) p Cons.prems(2)] show ?thesis by metis
  next
    case False
    have "pick_winner run c (p # ps) w a s = pick_winner run c ps w ?a (noted s)"
      using False idle_ready [OF Cons.prems(1)] p
      by (auto simp: k_simps pget_def lock_simps sched_ready_def Let_def noted_eq split: if_splits)
    moreover have "idle_cpu (noted s)" "tp (noted s) = tp s"
      using Cons.prems(1) by (auto simp: idle_cpu_def noted_eq lock_simps)
    moreover define a' where "a' = ?a"
    ultimately show ?thesis using Cons.IH [of "noted s" a'] Cons.prems(2,3) by auto
  qed
qed (simp add: k_simps)

lemma lottery_returns:
  assumes "idle_cpu s" and "c = tp s"
  shows "\<exists>t. lottery run c s = Inr ((), t) \<and> idle_cpu t \<and> tp t = tp s"
proof -
  let ?t = "fold (\<lambda>p a. if p_state (proc_tab s p) = RUNNABLE then a + p_tickets (proc_tab s p) else a) [0..<NPROC] (0::cint)"
  let ?u = "(noted s)\<lparr>seed := random_next (seed s)\<rparr>"
  have n: "idle_cpu (noted s)" "idle_cpu ?u" "tp ?u = tp s" "tp (noted s) = tp s"
    using assms(1) by (auto simp: idle_cpu_def noted_eq lock_simps)
  have "lottery run c s = (if ?t = 0 then Inr ((), noted s)
      else pick_winner run c [0..<NPROC] (random_next (seed s) mod ?t) 0 ?u)"
    using count_tickets_all [OF idle_ready [OF assms(1)], of 0] by (simp add: lottery_def random_def k_simps)
  moreover have sub: "set [0..<NPROC] \<subseteq> {..<NPROC}" by auto
  ultimately show ?thesis using pick_winner_returns [OF n(2) _ sub, of c] n assms(2) by auto
qed

lemma scheduler_round_returns:
  assumes "idle_cpu s" and "c = tp s"
  shows "\<exists>t. scheduler_round run c s = Inr ((), t) \<and> idle_cpu t \<and> tp t = tp s"
proof -
  let ?u = "s\<lparr>sstatus := (sstatus s)(tp s := sstatus s (tp s) OR SSTATUS_SIE)\<rparr>"
  have u: "idle_cpu ?u" "c = tp ?u" using assms by (auto simp: idle_cpu_def)
  have "scheduler_round run c s = (if scheduler_mode s = 1 then lottery run c ?u else round_robin run c ?u)"
    by (simp add: scheduler_round_def intr_on_def k_simps)
  with lottery_returns [OF u] round_robin_sweep [OF u] show ?thesis by auto
qed

lemma scheduler_rounds:
  assumes "idle_cpu s" and "c = tp s"
  shows "\<exists>t. kfor [0..<n] (\<lambda>_. scheduler_round run c) s = Inr ((), t) \<and> idle_cpu t \<and> tp t = tp s"
proof (induction n)
  case (Suc n)
  then obtain u where u: "kfor [0..<n] (\<lambda>_. scheduler_round run c) s = Inr ((), u)" "idle_cpu u" "tp u = tp s" by blast
  with scheduler_round_returns [OF u(2), of c] assms(2) obtain t where
    "scheduler_round run c u = Inr ((), t)" "idle_cpu t" "tp t = tp u" by auto
  with u show ?case by (simp add: kfor_append k_simps)
qed (use assms in \<open>simp add: k_simps\<close>)

lemma scheduler_returns:
  assumes "idle_cpu s"
  shows "\<exists>t. scheduler run n s = Inr ((), t) \<and> idle_cpu t \<and> tp t = tp s"
proof -
  have "idle_cpu (s\<lparr>cpus := (cpus s)(tp s := (cpus s (tp s))\<lparr>c_proc := None\<rparr>)\<rparr>)" (is "idle_cpu ?u")
    using assms by (auto simp: idle_cpu_def)
  from scheduler_rounds [OF this, of "tp s" n] show ?thesis
    by (simp add: scheduler_def mycpu_def cpuid_def set_cpu_def k_simps)
qed

end

text \<open>
  A thread made of the kernel's own code: it comes back from \<open>sched\<close> in \<open>yield\<close>, restores
  \<open>intena\<close> and releases the lock of its process; then it calls \<open>yield\<close> again, up to the
  next \<open>swtch\<close>.
\<close>

definition yield_thread :: "nat \<Rightarrow> (traced, unit) kf" where
  "yield_thread p = block [
     kbind mycpu (\<lambda>c. set_cpu c (\<lambda>cp. cp\<lparr>c_intena := 1\<rparr>)),
     release (L_proc p),
     kupd (\<lambda>s. s\<lparr>trace := trace s @ [p]\<rparr>),
     kbind curproc (\<lambda>q. block [acquire (L_proc q), pset q (\<lambda>r. r\<lparr>p_state := RUNNABLE\<rparr>)]),
     kbind sched_check (\<lambda>_. kret ())]"

lemma curproc_run:
  assumes "hok (tp s) (cpus s) (sstatus s)" and "c_proc (cpus s (tp s)) = Some p"
  shows "curproc s = Inr (p, noted s)"
  using assms by (simp add: curproc_def myproc_def mycpu_def cpuid_def k_simps lock_simps noted_eq)

lemma noted_nested: "0 < c_noff (cpus s (tp s)) \<Longrightarrow> noted s = s"
  by (simp add: noted_eq note_cpus_def)

lemma sched_check_run:
  assumes "lk_locked (lks s (L_proc p)) \<noteq> 0" "lk_cpu (lks s (L_proc p)) = Some (tp s)"
    and "c_noff (cpus s (tp s)) = 1" "sstatus s (tp s) AND SSTATUS_SIE = 0"
    and "c_proc (cpus s (tp s)) = Some p" and "p_state (proc_tab s p) \<noteq> RUNNING"
  shows "sched_check s = Inr (c_intena (cpus s (tp s)), s)"
proof -
  have "curproc s = Inr (p, s)"
    using assms noted_nested [of s] by (subst curproc_run) (auto simp: hok_def)
  with assms show ?thesis
    by (simp add: sched_check_def holding_def mycpu_def cpuid_def intr_get_def pget_def k_simps)
qed

interpretation yielding: threads yield_thread
proof
  fix p and s :: traced
  assume s: "on_cpu p s" "p_state (proc_tab s p) = RUNNING" "c_proc (cpus s (tp s)) = Some p"
  let ?s1 = "s\<lparr>cpus := (cpus s)(tp s := (cpus s (tp s))\<lparr>c_intena := 1\<rparr>)\<rparr>"
  have s1: "on_cpu p ?s1" using s(1) by (auto simp: on_cpu_def)
  obtain s2 where s2: "release (L_proc p) ?s1 = Inr ((), s2)" "idle_cpu s2" "tp s2 = tp ?s1"
    "proc_tab s2 = proc_tab ?s1" "procs.more s2 = procs.more ?s1" "c_proc (cpus s2 (tp s2)) = c_proc (cpus ?s1 (tp ?s1))"
    by (rule release_on_cpu [OF s1])
  let ?s3 = "s2\<lparr>trace := trace s @ [p]\<rparr>"
  have idle: "idle_cpu (noted ?s3)" using s2(2) by (auto simp: idle_cpu_def noted_eq lock_simps)
  have cur: "curproc ?s3 = Inr (p, noted ?s3)"
    using s2 s(3) by (intro curproc_run) (auto simp: idle_cpu_def hok_def)
  have p: "p < NPROC" using s(1) by (simp add: on_cpu_def)
  obtain u where u: "acquire (L_proc p) (noted ?s3) = Inr ((), u)" "on_cpu p u" "tp u = tp (noted ?s3)"
    "proc_tab u = proc_tab (noted ?s3)" "procs.more u = procs.more (noted ?s3)"
    "c_proc (cpus u (tp u)) = c_proc (cpus (noted ?s3) (tp (noted ?s3)))"
    by (rule acquire_on_cpu [OF idle p])
  let ?t = "u\<lparr>proc_tab := (proc_tab u)(p := (proc_tab u p)\<lparr>p_state := RUNNABLE\<rparr>)\<rparr>"
  have on: "on_cpu p ?t" "c_proc (cpus ?t (tp ?t)) = Some p"
    using u(2,6) s2(6) s(3) by (auto simp: on_cpu_def noted_eq lock_simps)
  then have "sched_check ?t = Inr (c_intena (cpus ?t (tp ?t)), ?t)"
    by (intro sched_check_run) (auto simp: on_cpu_def)
  moreover have "trace s2 = trace s" using trace_more [OF s2(5)] by simp
  ultimately have "yield_thread p s = Inr ((), ?t)"
    using s2(1) cur u(1) by (simp add: yield_thread_def mycpu_def cpuid_def set_cpu_def pset_def k_simps)
  moreover have "trace ?t = trace s @ [p]" using trace_more [OF u(5)] by (simp add: noted_eq)
  ultimately show "\<exists>t. yield_thread p s = Inr ((), t) \<and> on_cpu p t \<and> tp t = tp s \<and> p_state (proc_tab t p) \<noteq> RUNNING \<and>
      (\<forall>q. q \<noteq> p \<longrightarrow> p_state (proc_tab s q) = RUNNABLE \<longrightarrow> p_state (proc_tab t q) = RUNNABLE) \<and>
      trace t = trace s @ [p]"
    using on(1) s2 u by (intro exI [of _ ?t]) (simp add: noted_eq)
qed



definition demo_traced :: traced where
  "demo_traced = procs.extend (demo_procs test_table) \<lparr>trace = []\<rparr>"

lemma demo_traced_idle: "idle_cpu demo_traced"
  by (simp add: demo_traced_def procs.extend_def demo_procs_def idle_cpu_def lfree_def)



end
