(* ===== verification/Xv6_Wakeup.thy ===== *)
theory Xv6_Wakeup
  imports Xv6_Scheduler
begin

unbundle bit_operations_syntax

text \<open>
  Properties of \<open>wakeup\<close>, \<open>kill\<close>, \<open>allocpid\<close> and \<open>sleep\<close> (\<^verbatim>\<open>proc.c\<close>).
\<close>

section \<open>The current process\<close>

lemma myproc_run:
  assumes "hok (tp s) (cpus s) (sstatus s)"
  shows "myproc s = Inr (c_proc (cpus s (tp s)), noted s)"
  using assms by (simp add: myproc_def mycpu_def cpuid_def k_simps lock_simps noted_eq)

lemma noted_update [simp]: "noted (s\<lparr>proc_tab := P\<rparr>) = (noted s)\<lparr>proc_tab := P\<rparr>"
  by (simp add: noted_eq)

lemma sched_ready_proc_tab [simp]: "sched_ready (s\<lparr>proc_tab := P\<rparr>) = sched_ready s"
  by (simp add: sched_ready_def)

lemma allocpid_run:
  assumes "avail L_pid s"
  shows "allocpid s = Inr (nextpid s, (noted s)\<lparr>nextpid := nextpid s + 1\<rparr>)"
  using assms by (simp add: allocpid_def avail_def cpu_ok_iff lock_free_iff k_simps lock_simps noted_eq)

section \<open>wakeup\<close>

definition woken :: "chan option \<Rightarrow> nat option \<Rightarrow> (nat \<Rightarrow> proc) \<Rightarrow> nat \<Rightarrow> nat \<Rightarrow> proc" where
  "woken ch me P n = (\<lambda>p. if p < n \<and> Some p \<noteq> me \<and> p_state (P p) = SLEEPING \<and> p_chan (P p) = ch
     then (P p)\<lparr>p_state := RUNNABLE\<rparr> else P p)"

lemma wakeup_step:
  assumes "sched_ready s" and "p < NPROC"
  shows "wakeup_one ch p s = Inr ((), (noted s)\<lparr>proc_tab := (proc_tab s)(p :=
       if Some p \<noteq> c_proc (cpus s (tp s)) \<and> p_state (proc_tab s p) = SLEEPING \<and> p_chan (proc_tab s p) = ch
       then (proc_tab s p)\<lparr>p_state := RUNNABLE\<rparr> else proc_tab s p)\<rparr>)"
  using assms
  by (simp add: wakeup_one_def sched_ready_def k_simps lock_simps myproc_run pget_def pset_def noted_eq)

lemma woken_Suc:
  "woken ch me P (Suc n) = (woken ch me P n)(n :=
     if Some n \<noteq> me \<and> p_state (P n) = SLEEPING \<and> p_chan (P n) = ch then (P n)\<lparr>p_state := RUNNABLE\<rparr> else P n)"
  by (auto simp: woken_def fun_eq_iff less_Suc_eq)

lemma woken_0: "woken ch me P 0 = P"
  by (simp add: woken_def)

lemma wakeup_upto:
  assumes "sched_ready s" and "Suc n \<le> NPROC"
  shows "kfor [0..<Suc n] (wakeup_one ch) s =
    Inr ((), (noted s)\<lparr>proc_tab := woken ch (c_proc (cpus s (tp s))) (proc_tab s) (Suc n)\<rparr>)"
  using assms(2)
proof (induction n)
  case 0
  then show ?case using wakeup_step [OF assms(1), of 0 ch]
    by (simp add: k_simps woken_Suc woken_0 fun_upd_def)
next
  case (Suc n)
  let ?me = "c_proc (cpus s (tp s))"
  let ?s = "(noted s)\<lparr>proc_tab := woken ch ?me (proc_tab s) (Suc n)\<rparr>"
  have up: "[0..<Suc (Suc n)] = [0..<Suc n] @ [Suc n]" by simp
  have "wakeup_one ch (Suc n) ?s = Inr ((), (noted s)\<lparr>proc_tab := woken ch ?me (proc_tab s) (Suc (Suc n))\<rparr>)"
    using Suc.prems assms(1) woken_Suc [of ch ?me "proc_tab s" "Suc n"]
    by (subst wakeup_step) (simp_all add: noted_eq lock_simps woken_def sched_ready_def)
  with Suc show ?case unfolding up by (simp only: kfor_append) (simp add: k_simps)
qed

lemma wakeup_run:
  assumes "sched_ready s"
  shows "wakeup ch s = Inr ((), (noted s)\<lparr>proc_tab := woken ch (c_proc (cpus s (tp s))) (proc_tab s) NPROC\<rparr>)"
  using wakeup_upto [OF assms, of "NPROC - 1" ch] by (simp add: wakeup_def NPROC_def)

section \<open>kill\<close>

lemma kill_step:
  assumes "sched_ready s" and "p < NPROC"
  shows "kill_one pid p s = (if p_pid (proc_tab s p) = pid
     then Inr (Some 0, (noted s)\<lparr>proc_tab := (proc_tab s)(p := (proc_tab s p)\<lparr>p_killed := 1,
       p_state := if p_state (proc_tab s p) = SLEEPING then RUNNABLE else p_state (proc_tab s p)\<rparr>)\<rparr>)
     else Inr (None, noted s))"
  using assms by (simp add: kill_one_def sched_ready_def k_simps lock_simps pget_def pset_def noted_eq)

lemma kill_scan:
  assumes "sched_ready s" and "set ps \<subseteq> {..<NPROC}"
  shows "kfind ps (kill_one pid) s =
    (case find (\<lambda>p. p_pid (proc_tab s p) = pid) ps of
       None \<Rightarrow> Inr (None, if ps = [] then s else noted s)
     | Some p \<Rightarrow> Inr (Some 0, (noted s)\<lparr>proc_tab := (proc_tab s)(p := (proc_tab s p)\<lparr>p_killed := 1,
          p_state := if p_state (proc_tab s p) = SLEEPING then RUNNABLE else p_state (proc_tab s p)\<rparr>)\<rparr>))"
  using assms
proof (induction ps arbitrary: s)
  case (Cons p ps)
  then show ?case
    using Cons.IH [of "noted s"] kill_step [OF Cons.prems(1), of p pid]
    by (auto simp: k_simps split: option.splits)
qed (simp add: k_simps)

lemma kill_run:
  assumes "sched_ready s"
  shows "kill pid s =
    (case find (\<lambda>p. p_pid (proc_tab s p) = pid) [0..<NPROC] of
       None \<Rightarrow> Inr (-1, noted s)
     | Some p \<Rightarrow> Inr (0, (noted s)\<lparr>proc_tab := (proc_tab s)(p := (proc_tab s p)\<lparr>p_killed := 1,
          p_state := if p_state (proc_tab s p) = SLEEPING then RUNNABLE else p_state (proc_tab s p)\<rparr>)\<rparr>))"
proof -
  have "set [0..<NPROC] \<subseteq> {..<NPROC}" "[0..<NPROC] \<noteq> []" by (auto simp: NPROC_def)
  with kill_scan [OF assms, of "[0..<NPROC]" pid] show ?thesis
    by (simp add: kill_def k_simps split: option.splits)
qed

section \<open>sleep\<close>

text \<open>
  What \<open>sleep\<close> has done when it switches away, and what is left to do when it is resumed.
\<close>

definition sleep_resume :: "lockid \<Rightarrow> nat \<Rightarrow> int \<Rightarrow> ('a procs_scheme, unit) kf" where
  "sleep_resume lk p intena = block [
     kbind mycpu (\<lambda>c. set_cpu c (\<lambda>cp. cp\<lparr>c_intena := intena\<rparr>)),
     pset p (\<lambda>q. q\<lparr>p_chan := None\<rparr>),
     release (L_proc p),
     acquire lk]"

definition sleeping_on :: "chan \<Rightarrow> nat \<Rightarrow> 'a procs_scheme \<Rightarrow> 'a procs_scheme" where
  "sleeping_on ch p s = s\<lparr>proc_tab := (proc_tab s)(p := (proc_tab s p)\<lparr>p_chan := Some ch, p_state := SLEEPING\<rparr>)\<rparr>"

lemma sleep_run:
  assumes "avail lk s" "lk \<noteq> L_proc p" "lfree (lks s (L_proc p))"
    and "c_noff (cpus s (tp s)) = 0" "c_proc (cpus s (tp s)) = Some p"
  shows "sleep e ch lk (entered lk s) =
    kseq (others e ch) (sleep_resume lk p (c_intena (cpus (entered lk s) (tp s))))
      (entered (L_proc p) (sleeping_on ch p s))"
proof -
  have "curproc (entered lk s) = Inr (p, entered lk s)"
    using assms by (subst curproc_run) (simp_all add: entered_eq avail_def cpu_ok_iff noted_eq lock_simps)
  moreover let ?t = "entered (L_proc p) (sleeping_on ch p s)"
  have "sched_check ?t = Inr (c_intena (cpus ?t (tp ?t)), ?t)"
    using assms by (intro sched_check_run) (auto simp: entered_eq sleeping_on_def lheld_def lock_simps)
  moreover have "c_intena (cpus ?t (tp ?t)) = c_intena (cpus (entered lk s) (tp s))"
    by (simp add: entered_eq sleeping_on_def)
  moreover have "kseq (acquire (L_proc p)) (kseq (release lk)
      (kseq (pset p (\<lambda>q. q\<lparr>p_chan := Some ch\<rparr>)) (kseq (pset p (\<lambda>q. q\<lparr>p_state := SLEEPING\<rparr>)) m))) (entered lk s) = m ?t" for m :: "('a procs_scheme, unit) kf"
    using assms
    by (simp add: entered_eq sleeping_on_def avail_def cpu_ok_iff lock_free_iff k_simps lock_simps pset_def
        upd_restore) (rule arg_cong [of _ _ m], simp)
  ultimately show ?thesis
    by (simp add: sleep_def kbind_run [of curproc] sched_def sleep_resume_def)
      (simp add: kseq_def kbind_assoc kbind_run [of sched_check])
qed

section \<open>Properties\<close>

text \<open>
  C23. \<open>wakeup\<close> wakes exactly the sleepers on its channel. It returns; every process other than
  the caller that slept on the channel is runnable afterwards and otherwise as before; and
  nothing else in the machine changes, except that \<open>intena\<close> has been recorded.
\<close>

theorem wakeup_wakes_sleepers:
  assumes "sched_ready s"
  shows "\<exists>P. wakeup ch s = Inr ((), (noted s)\<lparr>proc_tab := P\<rparr>) \<and>
    (\<forall>p. P p = (if p < NPROC \<and> Some p \<noteq> c_proc (cpus s (tp s)) \<and>
        p_state (proc_tab s p) = SLEEPING \<and> p_chan (proc_tab s p) = ch
      then (proc_tab s p)\<lparr>p_state := RUNNABLE\<rparr> else proc_tab s p))"
  using wakeup_run [OF assms, of ch] by (auto simp: woken_def)

text \<open>
  C24. \<open>kill\<close> finds the process with the given pid. If there is none it returns -1 and changes
  nothing; otherwise it returns 0 and the first such process is marked as killed, and is
  runnable if it was asleep, so that it can notice; no other process changes.
\<close>

theorem kill_marks_process:
  assumes "sched_ready s"
  shows "((\<forall>p<NPROC. p_pid (proc_tab s p) \<noteq> pid) \<longrightarrow> kill pid s = Inr (-1, noted s)) \<and>
    (\<forall>p<NPROC. p_pid (proc_tab s p) = pid \<and> (\<forall>q<p. p_pid (proc_tab s q) \<noteq> pid) \<longrightarrow>
      kill pid s = Inr (0, (noted s)\<lparr>proc_tab := (proc_tab s)(p := (proc_tab s p)\<lparr>p_killed := 1,
        p_state := if p_state (proc_tab s p) = SLEEPING then RUNNABLE else p_state (proc_tab s p)\<rparr>)\<rparr>))"
proof (intro conjI allI impI)
  assume "\<forall>p<NPROC. p_pid (proc_tab s p) \<noteq> pid"
  then have "find (\<lambda>p. p_pid (proc_tab s p) = pid) [0..<NPROC] = None" by (auto simp: find_None_iff)
  with kill_run [OF assms, of pid] show "kill pid s = Inr (-1, noted s)" by simp
next
  fix p assume p: "p < NPROC" and first: "p_pid (proc_tab s p) = pid \<and> (\<forall>q<p. p_pid (proc_tab s q) \<noteq> pid)"
  then have "find (\<lambda>p. p_pid (proc_tab s p) = pid) [0..<NPROC] = Some p"
    by (auto simp: find_Some_iff intro!: exI [of _ p])
  with kill_run [OF assms, of pid] show "kill pid s = Inr (0, (noted s)\<lparr>proc_tab :=
      (proc_tab s)(p := (proc_tab s p)\<lparr>p_killed := 1,
        p_state := if p_state (proc_tab s p) = SLEEPING then RUNNABLE else p_state (proc_tab s p)\<rparr>)\<rparr>)" by simp
qed

text \<open>
  A history in which process \<open>p\<close> is woken: the scheduler releases the lock of \<open>p\<close>, on which
  \<open>p\<close> went to sleep; process \<open>q\<close> runs and calls \<open>wakeup\<close>; and the scheduler takes the lock of
  \<open>p\<close> again, finds \<open>p\<close> runnable and switches to it.
\<close>

definition woken_by :: "nat \<Rightarrow> nat \<Rightarrow> chan \<Rightarrow> ('a procs_scheme, unit) kf" where
  "woken_by q p ch =
     kbind mycpu (\<lambda>c. block [
       set_cpu c (\<lambda>cp. cp\<lparr>c_proc := None\<rparr>),
       release (L_proc p),
       set_cpu c (\<lambda>cp. cp\<lparr>c_proc := Some q\<rparr>),
       wakeup (Some ch),
       set_cpu c (\<lambda>cp. cp\<lparr>c_proc := None\<rparr>),
       acquire (L_proc p),
       kbind (pget p p_state) (\<lambda>st. if st = RUNNABLE then pset p (\<lambda>q. q\<lparr>p_state := RUNNING\<rparr>) else spin ''scheduler''),
       set_cpu c (\<lambda>cp. cp\<lparr>c_proc := Some p\<rparr>)])"

lemma push_c_proc [lock_simps]:
  "(push_cpus h cs ss)(h := (push_cpus h cs ss h)\<lparr>c_proc := x\<rparr>) = push_cpus h (cs(h := (cs h)\<lparr>c_proc := x\<rparr>)) ss"
  by (auto simp: push_cpus_def note_cpus_def fun_eq_iff)

lemma note_c_proc [lock_simps]:
  "(note_cpus h cs ss)(h := (note_cpus h cs ss h)\<lparr>c_proc := x\<rparr>) = note_cpus h (cs(h := (cs h)\<lparr>c_proc := x\<rparr>)) ss"
  by (auto simp: note_cpus_def fun_eq_iff)

lemma hok_c_proc [lock_simps]: "hok h (cs(h := (cs h)\<lparr>c_proc := x\<rparr>)) ss = hok h cs ss"
  by (simp add: hok_def)

definition on_behalf :: "nat option \<Rightarrow> 'a procs_scheme \<Rightarrow> 'a procs_scheme" where
  "on_behalf me s = s\<lparr>cpus := (cpus s)(tp s := (cpus s (tp s))\<lparr>c_proc := me\<rparr>)\<rparr>"

lemma woken_by_run:
  assumes "sched_ready s" "p < NPROC" "p \<noteq> q" "c_noff (cpus s (tp s)) = 0" "c_proc (cpus s (tp s)) = Some p"
  shows "woken_by q p ch (entered (L_proc p) (sleeping_on ch p s)) =
    Inr ((), entered (L_proc p) (s\<lparr>proc_tab := (woken (Some ch) (Some q) (proc_tab (sleeping_on ch p s)) NPROC)
      (p := (proc_tab s p)\<lparr>p_chan := Some ch, p_state := RUNNING\<rparr>)\<rparr>))"
proof -
  let ?s = "on_behalf (Some q) (noted (sleeping_on ch p s))"
  have "sched_ready ?s" using assms(1) by (simp add: on_behalf_def sched_ready_def sleeping_on_def noted_eq lock_simps)
  from wakeup_run [OF this, of "Some ch"]
  have "wakeup (Some ch) ?s = Inr ((), (noted ?s)\<lparr>proc_tab := woken (Some ch) (Some q) (proc_tab (sleeping_on ch p s)) NPROC\<rparr>)"
    by (simp add: on_behalf_def sleeping_on_def noted_eq lock_simps)
  moreover have "woken (Some ch) (Some q) (proc_tab (sleeping_on ch p s)) NPROC p = (proc_tab s p)\<lparr>p_chan := Some ch, p_state := RUNNABLE\<rparr>"
    using assms(2,3) by (simp add: woken_def sleeping_on_def)
  moreover have "(cpus s)(tp s := (cpus s (tp s))\<lparr>c_proc := Some p\<rparr>) = cpus s"
    using assms(5) by (auto simp: fun_eq_iff)
  ultimately show ?thesis using assms
    by (simp add: woken_by_def mycpu_def cpuid_def set_cpu_def pget_def pset_def k_simps entered_eq
        sleeping_on_def lock_simps sched_ready_def on_behalf_def noted_eq)
qed

lemma sleep_resume_run:
  assumes "avail lk s" "lk \<noteq> L_proc p" "lfree (lks s (L_proc p))" "c_noff (cpus s (tp s)) = 0"
    and "i = c_intena (cpus (entered (L_proc p) s) (tp s))"
  shows "sleep_resume lk p i (entered (L_proc p) s) =
    Inr ((), entered lk (s\<lparr>proc_tab := (proc_tab s)(p := (proc_tab s p)\<lparr>p_chan := None\<rparr>)\<rparr>))"
proof -
  let ?c = "push_cpus (tp s) (cpus s) (sstatus s)"
  have "?c(tp s := (?c (tp s))\<lparr>c_intena := c_intena (?c (tp s))\<rparr>) = ?c" by (auto simp: fun_eq_iff)
  then show ?thesis using assms
    by (simp add: sleep_resume_def mycpu_def cpuid_def set_cpu_def pset_def k_simps entered_eq
        avail_def cpu_ok_iff lock_free_iff lock_simps)
qed


definition demo_running :: "nat \<Rightarrow> (nat \<Rightarrow> proc) \<Rightarrow> procs" where
  "demo_running p P = on_behalf (Some p) (demo_procs P)"

lemma demo_running_ok:
  "sched_ready (demo_running p P)" "avail l (demo_running p P)" "tp (demo_running p P) = 0"
  "proc_tab (demo_running p P) = P" "c_proc (cpus (demo_running p P) 0) = Some p" "c_noff (cpus (demo_running p P) 0) = 0"
  by (simp_all add: demo_running_def on_behalf_def demo_procs_def sched_ready_def hok_def lfree_def avail_def
      cpu_ok_iff lock_free_iff)


text \<open>Process 5 sleeps for the clock, process 4 for the log.\<close>

definition sleepy_table :: "nat \<Rightarrow> proc" where
  "sleepy_table = (\<lambda>_. idle_proc)(3 := runnable_with 10,
     4 := idle_proc\<lparr>p_state := SLEEPING, p_chan := Some ChanLog, p_pid := 7\<rparr>,
     5 := idle_proc\<lparr>p_state := SLEEPING, p_chan := Some ChanTicks, p_pid := 8\<rparr>)"

theorem wakeup_wakes_sleepers_witness:
  "\<exists>P. wakeup (Some ChanTicks) (demo_running 3 sleepy_table) = Inr ((), (noted (demo_running 3 sleepy_table))\<lparr>proc_tab := P\<rparr>) \<and>
     P 5 = (sleepy_table 5)\<lparr>p_state := RUNNABLE\<rparr> \<and> P 4 = sleepy_table 4"
proof -
  obtain P where "wakeup (Some ChanTicks) (demo_running 3 sleepy_table) = Inr ((), (noted (demo_running 3 sleepy_table))\<lparr>proc_tab := P\<rparr>)"
    "\<forall>p. P p = (if p < NPROC \<and> Some p \<noteq> Some 3 \<and> p_state (sleepy_table p) = SLEEPING \<and> p_chan (sleepy_table p) = Some ChanTicks
      then (sleepy_table p)\<lparr>p_state := RUNNABLE\<rparr> else sleepy_table p)"
    using wakeup_wakes_sleepers [OF demo_running_ok(1) [of 3 sleepy_table], of "Some ChanTicks"] by (auto simp: demo_running_ok)
  then show ?thesis by (intro exI [of _ P]) (simp add: sleepy_table_def NPROC_def)
qed

theorem kill_marks_process_witness:
  "kill 8 (demo_running 3 sleepy_table) = Inr (0, (noted (demo_running 3 sleepy_table))\<lparr>proc_tab :=
      sleepy_table(5 := (sleepy_table 5)\<lparr>p_killed := 1, p_state := RUNNABLE\<rparr>)\<rparr>) \<and>
   kill 9 (demo_running 3 sleepy_table) = Inr (-1, noted (demo_running 3 sleepy_table))"
proof -
  have pids: "p_pid (sleepy_table p) = (if p = 4 then 7 else if p = 5 then 8 else 0)" for p
    by (simp add: sleepy_table_def idle_proc_def runnable_with_def)
  have sl: "p_state (sleepy_table 5) = SLEEPING" by (simp add: sleepy_table_def)
  note k = kill_marks_process [OF demo_running_ok(1) [of 3 sleepy_table]]
  have "kill 8 (demo_running 3 sleepy_table) = Inr (0, (noted (demo_running 3 sleepy_table))\<lparr>proc_tab :=
      sleepy_table(5 := (sleepy_table 5)\<lparr>p_killed := 1, p_state := RUNNABLE\<rparr>)\<rparr>)"
    using k [of 8, THEN conjunct2, rule_format, of 5] by (simp add: demo_running_ok pids NPROC_def sl)
  moreover have "kill 9 (demo_running 3 sleepy_table) = Inr (-1, noted (demo_running 3 sleepy_table))"
    using k [of 9, THEN conjunct1] by (simp add: demo_running_ok pids)
  ultimately show ?thesis ..
qed

end
