(* ===== verification/Xv6_Sleeplock.thy ===== *)
theory Xv6_Sleeplock
  imports Xv6_Wakeup
begin

unbundle bit_operations_syntax

text \<open>
  Sleep locks (\<^verbatim>\<open>sleeplock.c\<close>): long-term locks, whose waiters give up the cpu. A lock is
  named by the buffer or inode it belongs to; each has a spin lock of its own.
\<close>

datatype sleepid = SL_buf nat | SL_inode nat

record sleeplock =
  sl_locked :: u32
  sl_name :: string
  sl_pid :: cint      \<comment> \<open>process holding the lock\<close>

record slocks = procs +
  slk :: "sleepid \<Rightarrow> sleeplock"

fun sl_lk :: "sleepid \<Rightarrow> lockid" where
  "sl_lk (SL_buf b) = L_bufsleep b"
| "sl_lk (SL_inode i) = L_inodesleep i"

fun sl_chan :: "sleepid \<Rightarrow> chan" where
  "sl_chan (SL_buf b) = ChanBufLock b"
| "sl_chan (SL_inode i) = ChanInodeLock i"

definition set_slk :: "sleepid \<Rightarrow> (sleeplock \<Rightarrow> sleeplock) \<Rightarrow> ('a slocks_scheme, unit) kf" where
  "set_slk l f = kupd (\<lambda>s. s\<lparr>slk := (slk s)(l := f (slk s l))\<rparr>)"

definition initsleeplock :: "sleepid \<Rightarrow> string \<Rightarrow> ('a slocks_scheme, unit) kf" where
  "initsleeplock l name = block [
     initlock (sl_lk l) ''sleep lock'',
     set_slk l (\<lambda>k. k\<lparr>sl_name := name\<rparr>),
     set_slk l (\<lambda>k. k\<lparr>sl_locked := 0\<rparr>),
     set_slk l (\<lambda>k. k\<lparr>sl_pid := 0\<rparr>)]"

definition acquiresleep :: "'a slocks_scheme env \<Rightarrow> sleepid \<Rightarrow> ('a slocks_scheme, unit) kf" where
  "acquiresleep e l = block [
     acquire (sl_lk l),
     kwaiting (sl_chan l) (rounds e) (\<lambda>_.
       kbind (kgets (\<lambda>s. sl_locked (slk s l))) (\<lambda>k.
       if k \<noteq> 0 then kseq (sleep e (sl_chan l) (sl_lk l)) (kret (Inl ())) else kret (Inr ()))) (),
     set_slk l (\<lambda>k. k\<lparr>sl_locked := 1\<rparr>),
     kbind curproc (\<lambda>p. kbind (pget p p_pid) (\<lambda>pid. set_slk l (\<lambda>k. k\<lparr>sl_pid := pid\<rparr>))),
     release (sl_lk l)]"

definition releasesleep :: "sleepid \<Rightarrow> ('a slocks_scheme, unit) kf" where
  "releasesleep l = block [
     acquire (sl_lk l),
     set_slk l (\<lambda>k. k\<lparr>sl_locked := 0\<rparr>),
     set_slk l (\<lambda>k. k\<lparr>sl_pid := 0\<rparr>),
     wakeup (Some (sl_chan l)),
     release (sl_lk l)]"

text \<open>The process is looked up only when the lock is taken.\<close>

definition holdingsleep :: "sleepid \<Rightarrow> ('a slocks_scheme, bool) kf" where
  "holdingsleep l =
     kseq (acquire (sl_lk l)) (
     kbind (kgets (\<lambda>s. slk s l)) (\<lambda>k.
     kbind (if sl_locked k = 0 then kret False else
       kbind curproc (\<lambda>p. pget p (\<lambda>q. sl_pid k = p_pid q))) (\<lambda>r.
     kseq (release (sl_lk l)) (kret r))))"

section \<open>What they do when nobody is in the way\<close>

text \<open>
  \<open>thread p s\<close>: the hart runs the kernel code of process \<open>p\<close>, all spin locks that
  \<open>acquiresleep\<close>, \<open>sleep\<close> and \<open>wakeup\<close> use are free, and interrupts may be on.
\<close>

definition thread :: "nat \<Rightarrow> 'a slocks_scheme \<Rightarrow> bool" where
  "thread p s \<longleftrightarrow> c_proc (cpus s (tp s)) = Some p \<and> hok (tp s) (cpus s) (sstatus s) \<and>
     (\<forall>q<NPROC. lfree (lks s (L_proc q))) \<and> (\<forall>l. lfree (lks s (sl_lk l)))"

definition sl_ready :: "nat \<Rightarrow> sleepid \<Rightarrow> 'a slocks_scheme \<Rightarrow> bool" where
  "sl_ready p l s \<longleftrightarrow> thread p s \<and> sl_locked (slk s l) = 0 \<and> sl_pid (slk s l) = 0"

definition sl_enter :: "nat \<Rightarrow> sleepid \<Rightarrow> 'a slocks_scheme \<Rightarrow> 'a slocks_scheme" where
  "sl_enter p l s = (noted s)\<lparr>slk := (slk s)(l := (slk s l)\<lparr>sl_locked := 1, sl_pid := p_pid (proc_tab s p)\<rparr>)\<rparr>"

definition sl_leave :: "nat \<Rightarrow> sleepid \<Rightarrow> 'a slocks_scheme \<Rightarrow> 'a slocks_scheme" where
  "sl_leave p l s = (noted s)\<lparr>proc_tab := woken (Some (sl_chan l)) (Some p) (proc_tab s) NPROC\<rparr>"

lemma sl_lk_not_proc [simp]: "sl_lk l \<noteq> L_proc q" "L_proc q \<noteq> sl_lk l"
  by (cases l; simp)+

lemma acquiresleep_free:
  assumes "thread p s" and "sl_locked (slk s l) = 0"
  shows "acquiresleep e l s = Inr ((), sl_enter p l s)"
proof -
  have lk: "lfree (lks s (sl_lk l))" "hok (tp s) (cpus s) (sstatus s)" "c_proc (cpus s (tp s)) = Some p"
    using assms(1) by (auto simp: thread_def)
  let ?s = "entered (sl_lk l) s"
  have w: "kwaiting (sl_chan l) (rounds e) (\<lambda>_.
       kbind (kgets (\<lambda>s. sl_locked (slk s l))) (\<lambda>k.
       if k \<noteq> 0 then kseq (sleep e (sl_chan l) (sl_lk l)) (kret (Inl ())) else kret (Inr ()))) () ?s = Inr ((), ?s)"
    using assms(2) by (intro kwaiting_exit) (simp add: k_simps entered_eq)
  have c: "curproc (?s\<lparr>slk := x\<rparr>) = Inr (p, ?s\<lparr>slk := x\<rparr>)" for x
    using lk by (subst curproc_run) (simp_all add: entered_eq noted_eq lock_simps)
  show ?thesis
    using lk w c
    by (simp add: acquiresleep_def k_simps acquire_ok entered_eq [symmetric])
      (simp add: set_slk_def pget_def k_simps entered_eq lock_simps sl_enter_def noted_eq)
qed

lemma releasesleep_run:
  assumes "thread p s"
  shows "releasesleep l s = Inr ((), (noted s)\<lparr>slk := (slk s)(l := (slk s l)\<lparr>sl_locked := 0, sl_pid := 0\<rparr>),
    proc_tab := woken (Some (sl_chan l)) (Some p) (proc_tab s) NPROC\<rparr>)"
proof -
  have lk: "lfree (lks s (sl_lk l))" "hok (tp s) (cpus s) (sstatus s)" "c_proc (cpus s (tp s)) = Some p"
    using assms by (auto simp: thread_def)
  let ?s = "(entered (sl_lk l) s)\<lparr>slk := (slk s)(l := (slk s l)\<lparr>sl_locked := 0, sl_pid := 0\<rparr>)\<rparr>"
  have "sched_ready ?s"
    using assms by (auto simp: sched_ready_def thread_def entered_eq lock_simps)
  from wakeup_run [OF this, of "Some (sl_chan l)"]
  have "wakeup (Some (sl_chan l)) ?s = Inr ((), ?s\<lparr>proc_tab := woken (Some (sl_chan l)) (Some p) (proc_tab s) NPROC\<rparr>)"
    using lk by (simp add: entered_eq noted_eq lock_simps)
  with lk show ?thesis
    by (simp add: releasesleep_def set_slk_def k_simps acquire_ok entered_eq lock_simps noted_eq)
qed

lemma holdingsleep_run:
  assumes "thread p s"
  shows "holdingsleep l s = Inr (sl_locked (slk s l) \<noteq> 0 \<and> sl_pid (slk s l) = p_pid (proc_tab s p), noted s)"
proof -
  have lk: "lfree (lks s (sl_lk l))" "hok (tp s) (cpus s) (sstatus s)" "c_proc (cpus s (tp s)) = Some p"
    using assms by (auto simp: thread_def)
  have "curproc (entered (sl_lk l) s) = Inr (p, entered (sl_lk l) s)"
    using lk by (subst curproc_run) (simp_all add: entered_eq noted_eq lock_simps)
  with lk show ?thesis
    by (simp add: holdingsleep_def k_simps acquire_ok entered_eq pget_def lock_simps noted_eq)
qed

lemma thread_frame [simp]:
  "thread p (noted s) = thread p s" "thread p (s\<lparr>slk := x\<rparr>) = thread p s" "thread p (s\<lparr>proc_tab := y\<rparr>) = thread p s"
  by (simp_all add: thread_def noted_eq lock_simps)

lemma thread_enter [simp]: "thread p (sl_enter p l s) = thread p s"
  by (simp add: sl_enter_def)

interpretation sleep_lock: lock_ops "acquiresleep e" releasesleep "sl_ready p" "sl_enter p" "sl_leave p" for e p
proof
  fix l and s :: "'a slocks_scheme"
  assume r: "sl_ready p l s"
  then have t: "thread p s" "sl_locked (slk s l) = 0" "sl_pid (slk s l) = 0" by (auto simp: sl_ready_def)
  show "acquiresleep e l s = Inr ((), sl_enter p l s)" by (rule acquiresleep_free [OF t(1,2)])
  have "(slk s)(l := (slk s l)\<lparr>sl_locked := 0, sl_pid := 0\<rparr>) = slk s" using t by (auto simp: fun_eq_iff)
  then show "releasesleep l (sl_enter p l s) = Inr ((), sl_leave p l s)"
    using t(1) by (simp add: releasesleep_run [of p]) (simp add: sl_enter_def sl_leave_def noted_eq lock_simps)
  show "sl_ready p l (sl_leave p l s)" using r by (simp add: sl_ready_def sl_leave_def) (simp add: noted_eq)
qed


definition demo_slocks :: "nat \<Rightarrow> (nat \<Rightarrow> proc) \<Rightarrow> slocks" where
  "demo_slocks p P = procs.extend (demo_running p P) \<lparr>slk = (\<lambda>_. \<lparr>sl_locked = 0, sl_name = [], sl_pid = 0\<rparr>)\<rparr>"

lemma demo_slocks_thread: "thread p (demo_slocks p P)" "sl_locked (slk (demo_slocks p P) l) = 0"
  "proc_tab (demo_slocks p P) = P"
  by (simp_all add: demo_slocks_def procs.extend_def demo_running_def on_behalf_def demo_procs_def thread_def hok_def lfree_def)

definition waiting_table :: "nat \<Rightarrow> proc" where
  "waiting_table = sleepy_table(4 := (sleepy_table 4)\<lparr>p_chan := Some (ChanBufLock 2)\<rparr>)"


end
