(* ===== verification/Xv6_Virtio.thy ===== *)
theory Xv6_Virtio
  imports Xv6_Sleeplock
begin

unbundle bit_operations_syntax

text \<open>
  Disk buffers (\<^verbatim>\<open>buf.h\<close>) and the driver of the virtio disk (\<^verbatim>\<open>virtio_disk.c\<close>,
  \<^verbatim>\<open>virtio.h\<close>). A \<open>struct buf *\<close> is the index of the buffer in the cache. The descriptor
  table and the two rings live in pages that only the driver and the device use; they are
  fields of the state, and an address the driver puts into a descriptor is a \<open>vptr\<close>.

  The device is not part of the repository. Reading one of its registers gives \<open>dev ws r\<close>,
  where \<open>ws\<close> is the history of the values written to its registers. What is on the medium,
  \<open>medium\<close>, is never touched by the driver.
\<close>

section \<open>Buffers\<close>

definition NBUF :: nat where "NBUF = 30"
definition BSIZE :: nat where "BSIZE = 1024"

record buf =
  b_valid :: int      \<comment> \<open>has data been read from disk?\<close>
  b_disk :: int       \<comment> \<open>does the disk own the buffer?\<close>
  b_dev :: u32
  b_blockno :: u32
  b_refcnt :: u32
  b_prev :: nat       \<comment> \<open>LRU cache list\<close>
  b_next :: nat
  b_data :: "u8 list"

record bcache = slocks +
  bufs :: "nat \<Rightarrow> buf"  \<comment> \<open>\<open>NBUF\<close> is the list head\<close>

definition bget_field :: "nat \<Rightarrow> (buf \<Rightarrow> 'x) \<Rightarrow> ('a bcache_scheme, 'x) kf" where
  "bget_field b f = kgets (\<lambda>s. f (bufs s b))"

definition bset :: "nat \<Rightarrow> (buf \<Rightarrow> buf) \<Rightarrow> ('a bcache_scheme, unit) kf" where
  "bset b f = kupd (\<lambda>s. s\<lparr>bufs := (bufs s)(b := f (bufs s b))\<rparr>)"

section \<open>Driver state\<close>

definition NUM :: nat where "NUM = 8"
definition VRING_DESC_F_NEXT :: u16 where "VRING_DESC_F_NEXT = 1"
definition VRING_DESC_F_WRITE :: u16 where "VRING_DESC_F_WRITE = 2"
definition VIRTIO_BLK_T_IN :: u32 where "VIRTIO_BLK_T_IN = 0"
definition VIRTIO_BLK_T_OUT :: u32 where "VIRTIO_BLK_T_OUT = 1"

datatype vptr = VNull | VOp nat | VData nat | VStatus nat

record virtq_desc =
  d_addr :: vptr
  d_len :: u32
  d_flags :: u16
  d_next :: u16

record virtio_blk_req =
  r_type :: u32
  r_reserved :: u32
  r_sector :: u64

record vdisk = bcache +
  vd_desc :: "nat \<Rightarrow> virtq_desc"
  vd_avail_idx :: u16
  vd_avail_ring :: "nat \<Rightarrow> u16"
  vd_used_dev_idx :: u16           \<comment> \<open>\<open>disk.used->idx\<close>, which the device increments\<close>
  vd_used_ring :: "nat \<Rightarrow> u32"     \<comment> \<open>the \<open>id\<close> of each used element\<close>
  vd_free :: "nat \<Rightarrow> bool"         \<comment> \<open>is a descriptor free?\<close>
  vd_used_idx :: u16               \<comment> \<open>we have looked this far in the used ring\<close>
  vd_info_b :: "nat \<Rightarrow> nat option"
  vd_status :: "nat \<Rightarrow> u8"
  vd_ops :: "nat \<Rightarrow> virtio_blk_req"
  vd_pages :: "u64 \<times> u64 \<times> u64"    \<comment> \<open>the pages of \<open>desc\<close>, \<open>avail\<close> and \<open>used\<close>\<close>
  vwrites :: "(u64 \<times> u32) list"    \<comment> \<open>the values written to device registers\<close>
  medium :: "nat \<Rightarrow> u8 list"       \<comment> \<open>the blocks on the disk\<close>

section \<open>Device registers\<close>

definition VIRTIO_MMIO_MAGIC_VALUE :: u64 where "VIRTIO_MMIO_MAGIC_VALUE = 0x000"
definition VIRTIO_MMIO_VERSION :: u64 where "VIRTIO_MMIO_VERSION = 0x004"
definition VIRTIO_MMIO_DEVICE_ID :: u64 where "VIRTIO_MMIO_DEVICE_ID = 0x008"
definition VIRTIO_MMIO_VENDOR_ID :: u64 where "VIRTIO_MMIO_VENDOR_ID = 0x00c"
definition VIRTIO_MMIO_DEVICE_FEATURES :: u64 where "VIRTIO_MMIO_DEVICE_FEATURES = 0x010"
definition VIRTIO_MMIO_DRIVER_FEATURES :: u64 where "VIRTIO_MMIO_DRIVER_FEATURES = 0x020"
definition VIRTIO_MMIO_QUEUE_SEL :: u64 where "VIRTIO_MMIO_QUEUE_SEL = 0x030"
definition VIRTIO_MMIO_QUEUE_NUM_MAX :: u64 where "VIRTIO_MMIO_QUEUE_NUM_MAX = 0x034"
definition VIRTIO_MMIO_QUEUE_NUM :: u64 where "VIRTIO_MMIO_QUEUE_NUM = 0x038"
definition VIRTIO_MMIO_QUEUE_READY :: u64 where "VIRTIO_MMIO_QUEUE_READY = 0x044"
definition VIRTIO_MMIO_QUEUE_NOTIFY :: u64 where "VIRTIO_MMIO_QUEUE_NOTIFY = 0x050"
definition VIRTIO_MMIO_INTERRUPT_STATUS :: u64 where "VIRTIO_MMIO_INTERRUPT_STATUS = 0x060"
definition VIRTIO_MMIO_INTERRUPT_ACK :: u64 where "VIRTIO_MMIO_INTERRUPT_ACK = 0x064"
definition VIRTIO_MMIO_STATUS :: u64 where "VIRTIO_MMIO_STATUS = 0x070"
definition VIRTIO_MMIO_QUEUE_DESC_LOW :: u64 where "VIRTIO_MMIO_QUEUE_DESC_LOW = 0x080"
definition VIRTIO_MMIO_QUEUE_DESC_HIGH :: u64 where "VIRTIO_MMIO_QUEUE_DESC_HIGH = 0x084"
definition VIRTIO_MMIO_DRIVER_DESC_LOW :: u64 where "VIRTIO_MMIO_DRIVER_DESC_LOW = 0x090"
definition VIRTIO_MMIO_DRIVER_DESC_HIGH :: u64 where "VIRTIO_MMIO_DRIVER_DESC_HIGH = 0x094"
definition VIRTIO_MMIO_DEVICE_DESC_LOW :: u64 where "VIRTIO_MMIO_DEVICE_DESC_LOW = 0x0a0"
definition VIRTIO_MMIO_DEVICE_DESC_HIGH :: u64 where "VIRTIO_MMIO_DEVICE_DESC_HIGH = 0x0a4"

type_synonym device_regs = "(u64 \<times> u32) list \<Rightarrow> u64 \<Rightarrow> u32"

definition vread :: "device_regs \<Rightarrow> u64 \<Rightarrow> ('a vdisk_scheme, u32) kf" where
  "vread dev r = kgets (\<lambda>s. dev (vwrites s) r)"

definition vwrite :: "u64 \<Rightarrow> u32 \<Rightarrow> ('a vdisk_scheme, unit) kf" where
  "vwrite r v = kupd (\<lambda>s. s\<lparr>vwrites := vwrites s @ [(r, v)]\<rparr>)"

text \<open>
  The feature bits the driver turns off. The masks are complements of 32-bit constants; as
  \<open>features\<close> holds a value read from a 32-bit register, its upper half is zero.
\<close>

definition negotiate :: "u32 \<Rightarrow> u32" where
  "negotiate f = foldl (\<lambda>f k. f AND NOT (push_bit k 1)) f [5, 7, 11, 12, 27, 29, 28]"

definition virtio_disk_init :: "device_regs \<Rightarrow> ('a vdisk_scheme, unit) kf" where
  "virtio_disk_init dev =
     kseq (initlock L_vdisk ''virtio_disk'') (
     kbind (vread dev VIRTIO_MMIO_MAGIC_VALUE) (\<lambda>magic.
     kbind (vread dev VIRTIO_MMIO_VERSION) (\<lambda>version.
     kbind (vread dev VIRTIO_MMIO_DEVICE_ID) (\<lambda>dev_id.
     kbind (vread dev VIRTIO_MMIO_VENDOR_ID) (\<lambda>vendor.
     if magic \<noteq> 0x74726976 \<or> version \<noteq> 2 \<or> dev_id \<noteq> 2 \<or> vendor \<noteq> 0x554d4551
     then panic ''could not find virtio disk'' else
     kseq (vwrite VIRTIO_MMIO_STATUS 0) (
     kseq (vwrite VIRTIO_MMIO_STATUS 1) (
     kseq (vwrite VIRTIO_MMIO_STATUS (1 OR 2)) (
     kbind (vread dev VIRTIO_MMIO_DEVICE_FEATURES) (\<lambda>features.
     kseq (vwrite VIRTIO_MMIO_DRIVER_FEATURES (negotiate features)) (
     kseq (vwrite VIRTIO_MMIO_STATUS (1 OR 2 OR 8)) (
     kbind (vread dev VIRTIO_MMIO_STATUS) (\<lambda>status.
     if status AND 8 = 0 then panic ''virtio disk FEATURES_OK unset'' else
     kseq (vwrite VIRTIO_MMIO_QUEUE_SEL 0) (
     kbind (vread dev VIRTIO_MMIO_QUEUE_READY) (\<lambda>ready.
     if ready \<noteq> 0 then panic ''virtio disk should not be ready'' else
     kbind (vread dev VIRTIO_MMIO_QUEUE_NUM_MAX) (\<lambda>mx.
     if mx = 0 then panic ''virtio disk has no queue 0''
     else if mx < of_nat NUM then panic ''virtio disk max queue too short'' else
     kbind kalloc (\<lambda>d.
     kbind kalloc (\<lambda>a.
     kbind kalloc (\<lambda>u.
     if d = 0 \<or> a = 0 \<or> u = 0 then panic ''virtio disk kalloc'' else
     block [
       kupd (\<lambda>s. s\<lparr>vd_pages := (d, a, u)\<rparr>),
       kmemset d 0 4096,
       kmemset a 0 4096,
       kmemset u 0 4096,
       kupd (\<lambda>s. s\<lparr>vd_desc := (\<lambda>_. \<lparr>d_addr = VNull, d_len = 0, d_flags = 0, d_next = 0\<rparr>),
         vd_avail_idx := 0, vd_avail_ring := (\<lambda>_. 0), vd_used_dev_idx := 0, vd_used_ring := (\<lambda>_. 0)\<rparr>),
       vwrite VIRTIO_MMIO_QUEUE_NUM (of_nat NUM),
       vwrite VIRTIO_MMIO_QUEUE_DESC_LOW (ucast d),
       vwrite VIRTIO_MMIO_QUEUE_DESC_HIGH (ucast (drop_bit 32 d)),
       vwrite VIRTIO_MMIO_DRIVER_DESC_LOW (ucast a),
       vwrite VIRTIO_MMIO_DRIVER_DESC_HIGH (ucast (drop_bit 32 a)),
       vwrite VIRTIO_MMIO_DEVICE_DESC_LOW (ucast u),
       vwrite VIRTIO_MMIO_DEVICE_DESC_HIGH (ucast (drop_bit 32 u)),
       vwrite VIRTIO_MMIO_QUEUE_READY 1,
       kupd (\<lambda>s. s\<lparr>vd_free := (\<lambda>i. if i < NUM then True else vd_free s i)\<rparr>),
       vwrite VIRTIO_MMIO_STATUS (status OR 4)]))))))))))))))))))"

section \<open>Descriptors\<close>

definition set_desc :: "nat \<Rightarrow> (virtq_desc \<Rightarrow> virtq_desc) \<Rightarrow> ('a vdisk_scheme, unit) kf" where
  "set_desc i f = kupd (\<lambda>s. s\<lparr>vd_desc := (vd_desc s)(i := f (vd_desc s i))\<rparr>)"

text \<open>\<open>None\<close> stands for the result -1.\<close>

definition alloc_desc :: "('a vdisk_scheme, nat option) kf" where
  "alloc_desc = kfind [0..<NUM] (\<lambda>i.
     kbind (kgets (\<lambda>s. vd_free s i)) (\<lambda>f.
     if f then kseq (kupd (\<lambda>s. s\<lparr>vd_free := (vd_free s)(i := False)\<rparr>)) (kret (Some i))
     else kret None))"

definition free_desc :: "nat \<Rightarrow> ('a vdisk_scheme, unit) kf" where
  "free_desc i =
     (if NUM \<le> i then panic ''free_desc 1'' else
      kbind (kgets (\<lambda>s. vd_free s i)) (\<lambda>f.
      if f then panic ''free_desc 2'' else
      block [
        set_desc i (\<lambda>_. \<lparr>d_addr = VNull, d_len = 0, d_flags = 0, d_next = 0\<rparr>),
        kupd (\<lambda>s. s\<lparr>vd_free := (vd_free s)(i := True)\<rparr>),
        wakeup (Some ChanDisk)]))"

text \<open>Each round frees one descriptor and panics on one that is free, so 9 rounds are enough.\<close>

definition free_chain :: "nat \<Rightarrow> ('a vdisk_scheme, unit) kf" where
  "free_chain i = kloop (NUM + 1) (\<lambda>i.
     kbind (kgets (\<lambda>s. (d_flags (vd_desc s i), d_next (vd_desc s i)))) (\<lambda>(flag, nxt).
     kseq (free_desc i) (
     if flag AND VRING_DESC_F_NEXT \<noteq> 0 then kret (Inl (unat nxt)) else kret (Inr ())))) i"

text \<open>The three indices, or \<open>None\<close> after giving back what had been allocated.\<close>

definition alloc3_desc :: "('a vdisk_scheme, (nat \<times> nat \<times> nat) option) kf" where
  "alloc3_desc =
     kbind alloc_desc (\<lambda>i0. case i0 of None \<Rightarrow> kret None | Some i0 \<Rightarrow>
     kbind alloc_desc (\<lambda>i1. case i1 of
       None \<Rightarrow> kseq (free_desc i0) (kret None)
     | Some i1 \<Rightarrow>
     kbind alloc_desc (\<lambda>i2. case i2 of
       None \<Rightarrow> kseq (free_desc i0) (kseq (free_desc i1) (kret None))
     | Some i2 \<Rightarrow> kret (Some (i0, i1, i2)))))"

section \<open>Requests\<close>

definition format_request :: "nat \<Rightarrow> bool \<Rightarrow> u64 \<Rightarrow> nat \<Rightarrow> nat \<Rightarrow> nat \<Rightarrow> ('a vdisk_scheme, unit) kf" where
  "format_request b wr sector i0 i1 i2 = block [
     kupd (\<lambda>s. s\<lparr>vd_ops := (vd_ops s)(i0 := \<lparr>r_type = if wr then VIRTIO_BLK_T_OUT else VIRTIO_BLK_T_IN,
       r_reserved = 0, r_sector = sector\<rparr>)\<rparr>),
     set_desc i0 (\<lambda>_. \<lparr>d_addr = VOp i0, d_len = 16, d_flags = VRING_DESC_F_NEXT, d_next = of_nat i1\<rparr>),
     set_desc i1 (\<lambda>_. \<lparr>d_addr = VData b, d_len = of_nat BSIZE,
       d_flags = (if wr then 0 else VRING_DESC_F_WRITE) OR VRING_DESC_F_NEXT, d_next = of_nat i2\<rparr>),
     kupd (\<lambda>s. s\<lparr>vd_status := (vd_status s)(i0 := 0xff)\<rparr>),
     set_desc i2 (\<lambda>_. \<lparr>d_addr = VStatus i0, d_len = 1, d_flags = VRING_DESC_F_WRITE, d_next = 0\<rparr>),
     bset b (\<lambda>bf. bf\<lparr>b_disk := 1\<rparr>),
     kupd (\<lambda>s. s\<lparr>vd_info_b := (vd_info_b s)(i0 := Some b)\<rparr>)]"

text \<open>The first waits for three descriptors, the last for the device to be done with the buffer.\<close>

definition wait_desc :: "'a vdisk_scheme env \<Rightarrow> ('a vdisk_scheme, nat \<times> nat \<times> nat) kf" where
  "wait_desc e = kwaiting ChanDisk (rounds e) (\<lambda>_.
     kbind alloc3_desc (\<lambda>r. case r of
       Some i \<Rightarrow> kret (Inr i)
     | None \<Rightarrow> kseq (sleep e ChanDisk L_vdisk) (kret (Inl ())))) ()"

definition submit_request :: "nat \<Rightarrow> ('a vdisk_scheme, unit) kf" where
  "submit_request i0 = block [
     kupd (\<lambda>s. s\<lparr>vd_avail_ring := (vd_avail_ring s)(unat (vd_avail_idx s) mod NUM := of_nat i0)\<rparr>),
     kupd (\<lambda>s. s\<lparr>vd_avail_idx := vd_avail_idx s + 1\<rparr>),
     vwrite VIRTIO_MMIO_QUEUE_NOTIFY 0]"

definition wait_request :: "'a vdisk_scheme env \<Rightarrow> nat \<Rightarrow> ('a vdisk_scheme, unit) kf" where
  "wait_request e b = kwaiting (ChanBuf b) (rounds e) (\<lambda>_.
     kbind (bget_field b b_disk) (\<lambda>d.
     if d = 1 then kseq (sleep e (ChanBuf b) L_vdisk) (kret (Inl ())) else kret (Inr ()))) ()"

definition virtio_disk_rw :: "'a vdisk_scheme env \<Rightarrow> nat \<Rightarrow> bool \<Rightarrow> ('a vdisk_scheme, unit) kf" where
  "virtio_disk_rw e b wr =
     kbind (bget_field b b_blockno) (\<lambda>bn.
     let sector = ucast (bn * 2) :: u64 in
     kseq (acquire L_vdisk) (
     kbind (wait_desc e) (\<lambda>(i0, i1, i2).
     block [
       format_request b wr sector i0 i1 i2,
       submit_request i0,
       wait_request e b,
       kupd (\<lambda>s. s\<lparr>vd_info_b := (vd_info_b s)(i0 := None)\<rparr>),
       free_chain i0,
       release L_vdisk])))"

text \<open>
  The loop of the handler runs until the driver's index has caught up with the device's. The
  ring has \<open>NUM\<close> entries and at most that many requests are outstanding; \<open>2 ^ 16\<close> rounds
  are enough for any pair of 16-bit indices. An index beyond the tables or a null \<open>info.b\<close>
  would be a wild pointer.
\<close>

definition virtio_intr_round :: "unit \<Rightarrow> ('a vdisk_scheme, unit + unit) kf" where
  "virtio_intr_round = (\<lambda>_.
     kbind (kgets (\<lambda>s. vd_used_idx s \<noteq> vd_used_dev_idx s)) (\<lambda>more.
     if \<not> more then kret (Inr ()) else
     kbind (kgets (\<lambda>s. unat (vd_used_ring s (unat (vd_used_idx s) mod NUM)))) (\<lambda>i.
     kbind (kgets (\<lambda>s. (vd_status s i, vd_info_b s i))) (\<lambda>(status, bo).
     if status \<noteq> 0 then panic ''virtio_disk_intr status'' else
     case bo of None \<Rightarrow> panic ''kerneltrap'' | Some b \<Rightarrow>
     kseq (bset b (\<lambda>bf. bf\<lparr>b_disk := 0\<rparr>)) (
     kseq (wakeup (Some (ChanBuf b))) (
     kseq (kupd (\<lambda>s. s\<lparr>vd_used_idx := vd_used_idx s + 1\<rparr>)) (
     kret (Inl ()))))))))"

definition virtio_disk_intr :: "device_regs \<Rightarrow> ('a vdisk_scheme, unit) kf" where
  "virtio_disk_intr dev =
     kseq (acquire L_vdisk) (
     kbind (vread dev VIRTIO_MMIO_INTERRUPT_STATUS) (\<lambda>st.
     kseq (vwrite VIRTIO_MMIO_INTERRUPT_ACK (st AND 3)) (
     kseq (kloop (2 ^ 16) virtio_intr_round ()) (
     release L_vdisk))))"

end
