(* ===== verification/Xv6_Bio.thy ===== *)
theory Xv6_Bio
  imports Xv6_Virtio
begin

unbundle bit_operations_syntax

text \<open>
  The buffer cache (\<^verbatim>\<open>bio.c\<close>). The buffers are linked by the indices \<open>b_prev\<close> and
  \<open>b_next\<close> into a ring through the list head, whose index is \<open>NBUF\<close>.
\<close>

section \<open>bio.c\<close>

definition blink_front :: "nat \<Rightarrow> ('a bcache_scheme, unit) kf" where
  "blink_front b =
     kbind (bget_field NBUF b_next) (\<lambda>first. block [
       bset b (\<lambda>x. x\<lparr>b_next := first\<rparr>),
       bset b (\<lambda>x. x\<lparr>b_prev := NBUF\<rparr>)])"

definition binit_buf :: "nat \<Rightarrow> ('a bcache_scheme, unit) kf" where
  "binit_buf b = block [
     blink_front b,
     initsleeplock (SL_buf b) ''buffer'',
     kbind (bget_field NBUF b_next) (\<lambda>first. bset first (\<lambda>x. x\<lparr>b_prev := b\<rparr>)),
     bset NBUF (\<lambda>x. x\<lparr>b_next := b\<rparr>)]"

definition binit :: "('a bcache_scheme, unit) kf" where
  "binit = block [
     initlock L_bcache ''bcache'',
     bset NBUF (\<lambda>x. x\<lparr>b_prev := NBUF\<rparr>),
     bset NBUF (\<lambda>x. x\<lparr>b_next := NBUF\<rparr>),
     kfor [0..<NBUF] binit_buf]"

text \<open>
  The two scans of \<open>bget\<close> follow the links until they come back to the list head; a ring has
  at most \<open>NBUF\<close> buffers.
\<close>

definition bscan :: "(buf \<Rightarrow> nat) \<Rightarrow> (buf \<Rightarrow> bool) \<Rightarrow> ('a bcache_scheme, nat option) kf" where
  "bscan link test =
     kbind (bget_field NBUF link) (\<lambda>b0.
     kloop (NBUF + 1) (\<lambda>b.
       if b = NBUF then kret (Inr None) else
       kbind (bget_field b test) (\<lambda>hit.
       if hit then kret (Inr (Some b))
       else kbind (bget_field b link) (\<lambda>nxt. kret (Inl nxt)))) b0)"

definition bget :: "'a bcache_scheme env \<Rightarrow> u32 \<Rightarrow> u32 \<Rightarrow> ('a bcache_scheme, nat) kf" where
  "bget e dev blockno =
     kseq (acquire L_bcache) (
     kbind (bscan b_next (\<lambda>x. b_dev x = dev \<and> b_blockno x = blockno)) (\<lambda>r. case r of
       Some b \<Rightarrow>
         kseq (bset b (\<lambda>x. x\<lparr>b_refcnt := b_refcnt x + 1\<rparr>)) (
         kseq (release L_bcache) (
         kseq (acquiresleep e (SL_buf b)) (kret b)))
     | None \<Rightarrow>
         kbind (bscan b_prev (\<lambda>x. b_refcnt x = 0)) (\<lambda>r. case r of
           Some b \<Rightarrow>
             kseq (bset b (\<lambda>x. x\<lparr>b_dev := dev, b_blockno := blockno, b_valid := 0, b_refcnt := 1\<rparr>)) (
             kseq (release L_bcache) (
             kseq (acquiresleep e (SL_buf b)) (kret b)))
         | None \<Rightarrow> panic ''bget: no buffers'')))"

definition bread :: "'a vdisk_scheme env \<Rightarrow> u32 \<Rightarrow> u32 \<Rightarrow> ('a vdisk_scheme, nat) kf" where
  "bread e dev blockno =
     kbind (bget e dev blockno) (\<lambda>b.
     kbind (bget_field b b_valid) (\<lambda>v.
     kseq (kwhen (v = 0) (kseq (virtio_disk_rw e b False) (bset b (\<lambda>x. x\<lparr>b_valid := 1\<rparr>)))) (
     kret b)))"

definition bwrite :: "'a vdisk_scheme env \<Rightarrow> nat \<Rightarrow> ('a vdisk_scheme, unit) kf" where
  "bwrite e b =
     kbind (holdingsleep (SL_buf b)) (\<lambda>h.
     if \<not> h then panic ''bwrite'' else virtio_disk_rw e b True)"

text \<open>Taking a buffer out of the list and putting it behind the head.\<close>

definition bmove_front :: "nat \<Rightarrow> ('a bcache_scheme, unit) kf" where
  "bmove_front b =
     kbind (bget_field b (\<lambda>x. (b_prev x, b_next x))) (\<lambda>(prv, nxt). block [
       bset nxt (\<lambda>x. x\<lparr>b_prev := prv\<rparr>),
       kbind (bget_field b (\<lambda>x. (b_prev x, b_next x))) (\<lambda>(prv, nxt). bset prv (\<lambda>x. x\<lparr>b_next := nxt\<rparr>)),
       blink_front b,
       kbind (bget_field NBUF b_next) (\<lambda>first. bset first (\<lambda>x. x\<lparr>b_prev := b\<rparr>)),
       bset NBUF (\<lambda>x. x\<lparr>b_next := b\<rparr>)])"

definition brelse :: "nat \<Rightarrow> ('a bcache_scheme, unit) kf" where
  "brelse b =
     kbind (holdingsleep (SL_buf b)) (\<lambda>h.
     if \<not> h then panic ''brelse'' else
     kseq (releasesleep (SL_buf b)) (
     kseq (acquire L_bcache) (
     kseq (bset b (\<lambda>x. x\<lparr>b_refcnt := b_refcnt x - 1\<rparr>)) (
     kbind (bget_field b b_refcnt) (\<lambda>r.
     kseq (kwhen (r = 0) (bmove_front b)) (
     release L_bcache))))))"

definition bpin :: "nat \<Rightarrow> ('a bcache_scheme, unit) kf" where
  "bpin b = block [acquire L_bcache, bset b (\<lambda>x. x\<lparr>b_refcnt := b_refcnt x + 1\<rparr>), release L_bcache]"

definition bunpin :: "nat \<Rightarrow> ('a bcache_scheme, unit) kf" where
  "bunpin b = block [acquire L_bcache, bset b (\<lambda>x. x\<lparr>b_refcnt := b_refcnt x - 1\<rparr>), release L_bcache]"

end
