(* ===== verification/Xv6_Log.thy ===== *)
theory Xv6_Log
  imports Xv6_Bio
begin

unbundle bit_operations_syntax

text \<open>
  The log (\<^verbatim>\<open>log.c\<close>): a physical re-do log of disk blocks, with the header block as the
  commit record.
\<close>

definition LOGSIZE :: nat where "LOGSIZE = 30"
definition MAXOPBLOCKS :: nat where "MAXOPBLOCKS = 10"

record log = vdisk +
  log_start :: u32
  log_size :: u32
  log_outstanding :: int    \<comment> \<open>how many FS sys calls are executing\<close>
  log_committing :: int     \<comment> \<open>in \<open>commit()\<close>, please wait\<close>
  log_dev :: u32
  lh_n :: cint
  lh_block :: "nat \<Rightarrow> u32"

text \<open>The super block (\<^verbatim>\<open>fs.h\<close>).\<close>

record superblock =
  sb_magic :: u32
  sb_size :: u32
  sb_nblocks :: u32
  sb_ninodes :: u32
  sb_nlog :: u32
  sb_logstart :: u32
  sb_inodestart :: u32
  sb_bmapstart :: u32

section \<open>log.c\<close>

definition lh_count :: "'a log_scheme \<Rightarrow> nat" where
  "lh_count s = nat (sint (lh_n s))"

definition install_block :: "'a log_scheme env \<Rightarrow> bool \<Rightarrow> nat \<Rightarrow> ('a log_scheme, unit) kf" where
  "install_block e recovering tail =
     kbind (kgets (\<lambda>s. (log_dev s, log_start s))) (\<lambda>(dev, start).
     kbind (bread e dev (start + of_nat tail + 1)) (\<lambda>lbuf.
     kbind (kgets (\<lambda>s. lh_block s tail)) (\<lambda>bn.
     kbind (bread e dev bn) (\<lambda>dbuf.
     kbind (bget_field lbuf b_data) (\<lambda>d. block [
       bset dbuf (\<lambda>x. x\<lparr>b_data := d\<rparr>),
       bwrite e dbuf,
       kwhen (\<not> recovering) (bunpin dbuf),
       brelse lbuf,
       brelse dbuf])))))"

text \<open>The bound \<^verbatim>\<open>log.lh.n\<close> of the loop does not change while it runs.\<close>

definition install_trans :: "'a log_scheme env \<Rightarrow> bool \<Rightarrow> ('a log_scheme, unit) kf" where
  "install_trans e recovering =
     kbind (kgets lh_count) (\<lambda>n. kfor [0..<n] (install_block e recovering))"

text \<open>The header block: the count and the block numbers, 32-bit integers.\<close>

definition read_head :: "'a log_scheme env \<Rightarrow> ('a log_scheme, unit) kf" where
  "read_head e =
     kbind (kgets (\<lambda>s. (log_dev s, log_start s))) (\<lambda>(dev, start).
     kbind (bread e dev start) (\<lambda>b.
     kbind (bget_field b b_data) (\<lambda>d. block [
       kupd (\<lambda>s. s\<lparr>lh_n := get32 d 0\<rparr>),
       kbind (kgets lh_count) (\<lambda>n. kfor [0..<n] (\<lambda>i.
         kupd (\<lambda>s. s\<lparr>lh_block := (lh_block s)(i := get32 d (4 + 4 * i))\<rparr>))),
       brelse b])))"

definition write_head :: "'a log_scheme env \<Rightarrow> ('a log_scheme, unit) kf" where
  "write_head e =
     kbind (kgets (\<lambda>s. (log_dev s, log_start s))) (\<lambda>(dev, start).
     kbind (bread e dev start) (\<lambda>b. block [
       kbind (kgets lh_n) (\<lambda>n. bset b (\<lambda>x. x\<lparr>b_data := put32 0 n (b_data x)\<rparr>)),
       kbind (kgets lh_count) (\<lambda>n. kfor [0..<n] (\<lambda>i.
         kbind (kgets (\<lambda>s. lh_block s i)) (\<lambda>bn.
         bset b (\<lambda>x. x\<lparr>b_data := put32 (4 + 4 * i) bn (b_data x)\<rparr>)))),
       bwrite e b,
       brelse b]))"

definition recover_from_log :: "'a log_scheme env \<Rightarrow> ('a log_scheme, unit) kf" where
  "recover_from_log e = block [
     read_head e,
     install_trans e True,
     kupd (\<lambda>s. s\<lparr>lh_n := 0\<rparr>),
     write_head e]"

text \<open>\<^verbatim>\<open>sizeof(struct logheader)\<close> is 124 bytes, less than a block.\<close>

definition initlog :: "'a log_scheme env \<Rightarrow> u32 \<Rightarrow> superblock \<Rightarrow> ('a log_scheme, unit) kf" where
  "initlog e dev sb =
     (if BSIZE \<le> 4 + 4 * LOGSIZE then panic ''initlog: too big logheader'' else
      block [
        initlock L_log ''log'',
        kupd (\<lambda>s. s\<lparr>log_start := sb_logstart sb, log_size := sb_nlog sb, log_dev := dev\<rparr>),
        recover_from_log e])"

definition begin_op :: "'a log_scheme env \<Rightarrow> ('a log_scheme, unit) kf" where
  "begin_op e =
     kseq (acquire L_log) (
     kwaiting ChanLog (rounds e) (\<lambda>_.
       kbind (kgets (\<lambda>s. (log_committing s, sint (lh_n s), log_outstanding s))) (\<lambda>(committing, n, outstanding).
       if committing \<noteq> 0 then kseq (sleep e ChanLog L_log) (kret (Inl ()))
       else if n + (outstanding + 1) * int MAXOPBLOCKS > int LOGSIZE then
         kseq (sleep e ChanLog L_log) (kret (Inl ()))
       else
         kseq (kupd (\<lambda>s. s\<lparr>log_outstanding := log_outstanding s + 1\<rparr>)) (
         kseq (release L_log) (kret (Inr ()))))) ())"

definition log_block :: "'a log_scheme env \<Rightarrow> nat \<Rightarrow> ('a log_scheme, unit) kf" where
  "log_block e tail =
     kbind (kgets (\<lambda>s. (log_dev s, log_start s))) (\<lambda>(dev, start).
     kbind (bread e dev (start + of_nat tail + 1)) (\<lambda>to.
     kbind (kgets (\<lambda>s. lh_block s tail)) (\<lambda>bn.
     kbind (bread e dev bn) (\<lambda>from.
     kbind (bget_field from b_data) (\<lambda>d. block [
       bset to (\<lambda>x. x\<lparr>b_data := d\<rparr>),
       bwrite e to,
       brelse from,
       brelse to])))))"

definition write_log :: "'a log_scheme env \<Rightarrow> ('a log_scheme, unit) kf" where
  "write_log e = kbind (kgets lh_count) (\<lambda>n. kfor [0..<n] (log_block e))"

definition commit :: "'a log_scheme env \<Rightarrow> ('a log_scheme, unit) kf" where
  "commit e =
     kbind (kgets (\<lambda>s. sint (lh_n s))) (\<lambda>n.
     kwhen (0 < n) (block [
       write_log e,
       write_head e,
       install_trans e False,
       kupd (\<lambda>s. s\<lparr>lh_n := 0\<rparr>),
       write_head e]))"

definition end_op :: "'a log_scheme env \<Rightarrow> ('a log_scheme, unit) kf" where
  "end_op e =
     kseq (acquire L_log) (
     kseq (kupd (\<lambda>s. s\<lparr>log_outstanding := log_outstanding s - 1\<rparr>)) (
     kbind (kgets (\<lambda>s. (log_committing s, log_outstanding s))) (\<lambda>(committing, outstanding).
     if committing \<noteq> 0 then panic ''log.committing'' else
     let do_commit = (outstanding = 0) in block [
       if do_commit then kupd (\<lambda>s. s\<lparr>log_committing := 1\<rparr>) else wakeup (Some ChanLog),
       release L_log,
       kwhen do_commit (block [
         commit e,
         acquire L_log,
         kupd (\<lambda>s. s\<lparr>log_committing := 0\<rparr>),
         wakeup (Some ChanLog),
         release L_log])])))"

text \<open>The scan for a slot with the same block number (log absorption).\<close>

definition log_slot :: "'a log_scheme \<Rightarrow> u32 \<Rightarrow> nat" where
  "log_slot s bn = (case find (\<lambda>i. lh_block s i = bn) [0..<lh_count s] of None \<Rightarrow> lh_count s | Some i \<Rightarrow> i)"

definition log_write :: "nat \<Rightarrow> ('a log_scheme, unit) kf" where
  "log_write b =
     kseq (acquire L_log) (
     kbind (kgets (\<lambda>s. (sint (lh_n s), sint (log_size s), log_outstanding s))) (\<lambda>(n, sz, outstanding).
     if int LOGSIZE \<le> n \<or> sz - 1 \<le> n then panic ''too big a transaction''
     else if outstanding < 1 then panic ''log_write outside of trans'' else
     kbind (bget_field b b_blockno) (\<lambda>bn.
     kbind (kgets (\<lambda>s. log_slot s bn)) (\<lambda>i. block [
       kupd (\<lambda>s. s\<lparr>lh_block := (lh_block s)(i := bn)\<rparr>),
       kwhen (int i = n) (kseq (bpin b) (kupd (\<lambda>s. s\<lparr>lh_n := lh_n s + 1\<rparr>))),
       release L_log]))))"

end
