(* ===== verification/Xv6_Fs.thy ===== *)
theory Xv6_Fs
  imports Xv6_Log
begin

unbundle bit_operations_syntax

text \<open>
  The file system (\<^verbatim>\<open>fs.c\<close>, \<^verbatim>\<open>fs.h\<close>, \<^verbatim>\<open>file.h\<close>): block allocation, inodes, file
  content, directories and path names. A \<open>struct inode *\<close> is an index into the inode table.
  A file name or path is its bytes without the terminating zero.

  A kernel object that \<open>readi\<close> fills or \<open>writei\<close> copies from, when it is not a page of
  memory, is a byte list: \<open>readi\<close> with \<open>ToBuf\<close> returns the bytes it stored.
  The messages printed when blocks or inodes run out are not modelled.
\<close>

definition NINODE :: nat where "NINODE = 50"
definition NDIRECT :: nat where "NDIRECT = 12"
definition NINDIRECT :: nat where "NINDIRECT = BSIZE div 4"
definition MAXFILE :: nat where "MAXFILE = NDIRECT + NINDIRECT"
definition IPB :: nat where "IPB = BSIZE div 64"
definition BPB :: nat where "BPB = BSIZE * 8"
definition DIRSIZ :: nat where "DIRSIZ = 14"
definition FSMAGIC :: u32 where "FSMAGIC = 0x10203040"
definition ROOTINO :: u32 where "ROOTINO = 1"
definition ROOTDEV :: u32 where "ROOTDEV = 1"
definition T_DIR :: u16 where "T_DIR = 1"
definition T_FILE :: u16 where "T_FILE = 2"
definition T_DEVICE :: u16 where "T_DEVICE = 3"

record inode =
  i_dev :: u32
  i_inum :: u32
  i_ref :: int
  i_valid :: int
  i_type :: u16
  i_major :: u16
  i_minor :: u16
  i_nlink :: u16
  i_size :: u32
  i_addrs :: "nat \<Rightarrow> u32"

record itable = log +
  inodes :: "nat \<Rightarrow> inode"
  sb :: superblock

definition iget_field :: "nat \<Rightarrow> (inode \<Rightarrow> 'x) \<Rightarrow> ('a itable_scheme, 'x) kf" where
  "iget_field ip f = kgets (\<lambda>s. f (inodes s ip))"

definition iset :: "nat \<Rightarrow> (inode \<Rightarrow> inode) \<Rightarrow> ('a itable_scheme, unit) kf" where
  "iset ip f = kupd (\<lambda>s. s\<lparr>inodes := (inodes s)(ip := f (inodes s ip))\<rparr>)"

definition IBLOCK :: "u32 \<Rightarrow> superblock \<Rightarrow> u32" where
  "IBLOCK i sb0 = i div of_nat IPB + sb_inodestart sb0"

definition BBLOCK :: "u32 \<Rightarrow> superblock \<Rightarrow> u32" where
  "BBLOCK b sb0 = b div of_nat BPB + sb_bmapstart sb0"

section \<open>Super block\<close>

definition decode_sb :: "u8 list \<Rightarrow> superblock" where
  "decode_sb d = \<lparr>sb_magic = get32 d 0, sb_size = get32 d 4, sb_nblocks = get32 d 8, sb_ninodes = get32 d 12,
     sb_nlog = get32 d 16, sb_logstart = get32 d 20, sb_inodestart = get32 d 24, sb_bmapstart = get32 d 28\<rparr>"

definition readsb :: "'a itable_scheme env \<Rightarrow> u32 \<Rightarrow> ('a itable_scheme, unit) kf" where
  "readsb e dev =
     kbind (bread e dev 1) (\<lambda>bp.
     kbind (bget_field bp b_data) (\<lambda>d.
     kseq (kupd (\<lambda>s. s\<lparr>sb := decode_sb d\<rparr>)) (
     brelse bp)))"

definition fsinit :: "'a itable_scheme env \<Rightarrow> u32 \<Rightarrow> ('a itable_scheme, unit) kf" where
  "fsinit e dev =
     kseq (readsb e dev) (
     kbind (kgets sb) (\<lambda>b.
     if sb_magic b \<noteq> FSMAGIC then panic ''invalid file system'' else initlog e dev b))"

section \<open>Blocks\<close>

definition bzero :: "'a itable_scheme env \<Rightarrow> u32 \<Rightarrow> u32 \<Rightarrow> ('a itable_scheme, unit) kf" where
  "bzero e dev bno =
     kbind (bread e dev bno) (\<lambda>bp. block [
       bset bp (\<lambda>x. x\<lparr>b_data := replicate BSIZE 0\<rparr>),
       log_write bp,
       brelse bp])"

definition bit_mask :: "nat \<Rightarrow> u8" where
  "bit_mask bi = push_bit (bi mod 8) 1"

text \<open>The first free bit of a bitmap block among the first \<open>n\<close>.\<close>

definition free_bit :: "u8 list \<Rightarrow> nat \<Rightarrow> nat option" where
  "free_bit d n = find (\<lambda>bi. d ! (bi div 8) AND bit_mask bi = 0) [0..<n]"

definition balloc_round :: "'a itable_scheme env \<Rightarrow> u32 \<Rightarrow> superblock \<Rightarrow> nat \<Rightarrow> ('a itable_scheme, u32 option) kf" where
  "balloc_round e dev sb0 b =
     kbind (bread e dev (BBLOCK (of_nat b) sb0)) (\<lambda>bp.
     kbind (bget_field bp b_data) (\<lambda>d.
     case free_bit d (min BPB (unat (sb_size sb0) - b)) of
       Some bi \<Rightarrow>
         kseq (bset bp (\<lambda>x. x\<lparr>b_data := (b_data x)[bi div 8 := b_data x ! (bi div 8) OR bit_mask bi]\<rparr>)) (
         kseq (log_write bp) (
         kseq (brelse bp) (
         kseq (bzero e dev (of_nat (b + bi))) (
         kret (Some (of_nat (b + bi)))))))
     | None \<Rightarrow> kseq (brelse bp) (kret None)))"

definition balloc :: "'a itable_scheme env \<Rightarrow> u32 \<Rightarrow> ('a itable_scheme, u32) kf" where
  "balloc e dev =
     kbind (kgets sb) (\<lambda>sb0.
     kbind (kfind (map (\<lambda>k. k * BPB) [0..<(unat (sb_size sb0) + BPB - 1) div BPB]) (balloc_round e dev sb0)) (\<lambda>r.
     case r of Some b \<Rightarrow> kret b | None \<Rightarrow> kret 0))"

definition bfree :: "'a itable_scheme env \<Rightarrow> u32 \<Rightarrow> u32 \<Rightarrow> ('a itable_scheme, unit) kf" where
  "bfree e dev b =
     kbind (kgets sb) (\<lambda>sb0.
     kbind (bread e dev (BBLOCK b sb0)) (\<lambda>bp.
     kbind (bget_field bp b_data) (\<lambda>d.
     let bi = unat b mod BPB in
     if d ! (bi div 8) AND bit_mask bi = 0 then panic ''freeing free block'' else block [
       bset bp (\<lambda>x. x\<lparr>b_data := (b_data x)[bi div 8 := b_data x ! (bi div 8) AND NOT (bit_mask bi)]\<rparr>),
       log_write bp,
       brelse bp])))"

section \<open>Inodes\<close>

definition iinit :: "('a itable_scheme, unit) kf" where
  "iinit = kseq (initlock L_itable ''itable'') (kfor [0..<NINODE] (\<lambda>i. initsleeplock (SL_inode i) ''inode''))"

text \<open>A \<open>struct dinode\<close> at byte offset \<open>o\<close> of a block: 64 bytes.\<close>

definition dinode_off :: "u32 \<Rightarrow> nat" where
  "dinode_off inum = 64 * (unat inum mod IPB)"

definition encode_dinode :: "nat \<Rightarrow> inode \<Rightarrow> u8 list \<Rightarrow> u8 list" where
  "encode_dinode o' ip d =
     fold (\<lambda>k d. put32 (o' + 12 + 4 * k) (i_addrs ip k) d) [0..<NDIRECT + 1]
       (put32 (o' + 8) (i_size ip) (put16 (o' + 6) (i_nlink ip) (put16 (o' + 4) (i_minor ip)
       (put16 (o' + 2) (i_major ip) (put16 o' (i_type ip) d)))))"

definition decode_dinode :: "nat \<Rightarrow> u8 list \<Rightarrow> inode \<Rightarrow> inode" where
  "decode_dinode o' d ip = ip\<lparr>i_type := get16 d o', i_major := get16 d (o' + 2), i_minor := get16 d (o' + 4),
     i_nlink := get16 d (o' + 6), i_size := get32 d (o' + 8),
     i_addrs := (\<lambda>k. if k < NDIRECT + 1 then get32 d (o' + 12 + 4 * k) else i_addrs ip k)\<rparr>"

fun iget_scan :: "(nat \<Rightarrow> inode) \<Rightarrow> u32 \<Rightarrow> u32 \<Rightarrow> nat list \<Rightarrow> nat option \<Rightarrow> nat option \<times> nat option" where
  "iget_scan I dev inum [] slot = (None, slot)"
| "iget_scan I dev inum (ip # ips) slot =
     (if 0 < i_ref (I ip) \<and> i_dev (I ip) = dev \<and> i_inum (I ip) = inum then (Some ip, slot)
      else iget_scan I dev inum ips (if slot = None \<and> i_ref (I ip) = 0 then Some ip else slot))"

definition iget :: "u32 \<Rightarrow> u32 \<Rightarrow> ('a itable_scheme, nat) kf" where
  "iget dev inum =
     kseq (acquire L_itable) (
     kbind (kgets (\<lambda>s. iget_scan (inodes s) dev inum [0..<NINODE] None)) (\<lambda>r. case r of
       (Some ip, _) \<Rightarrow>
         kseq (iset ip (\<lambda>x. x\<lparr>i_ref := i_ref x + 1\<rparr>)) (
         kseq (release L_itable) (kret ip))
     | (None, None) \<Rightarrow> panic ''iget: no inodes''
     | (None, Some ip) \<Rightarrow>
         kseq (iset ip (\<lambda>x. x\<lparr>i_dev := dev, i_inum := inum, i_ref := 1, i_valid := 0\<rparr>)) (
         kseq (release L_itable) (kret ip))))"

definition ialloc :: "'a itable_scheme env \<Rightarrow> u32 \<Rightarrow> u16 \<Rightarrow> ('a itable_scheme, nat option) kf" where
  "ialloc e dev ty =
     kbind (kgets sb) (\<lambda>sb0.
     kfind [1..<unat (sb_ninodes sb0)] (\<lambda>inum.
       kbind (bread e dev (IBLOCK (of_nat inum) sb0)) (\<lambda>bp.
       kbind (bget_field bp b_data) (\<lambda>d.
       let o' = dinode_off (of_nat inum) in
       if get16 d o' = 0 then
         kseq (bset bp (\<lambda>x. x\<lparr>b_data := put16 o' ty (take o' (b_data x) @ replicate 64 0 @ drop (o' + 64) (b_data x))\<rparr>)) (
         kseq (log_write bp) (
         kseq (brelse bp) (
         kbind (iget dev (of_nat inum)) (\<lambda>ip. kret (Some ip)))))
       else kseq (brelse bp) (kret None)))))"

definition iupdate :: "'a itable_scheme env \<Rightarrow> nat \<Rightarrow> ('a itable_scheme, unit) kf" where
  "iupdate e ip =
     kbind (kgets (\<lambda>s. (sb s, inodes s ip))) (\<lambda>(sb0, i).
     kbind (bread e (i_dev i) (IBLOCK (i_inum i) sb0)) (\<lambda>bp. block [
       kbind (iget_field ip (\<lambda>x. x)) (\<lambda>i. bset bp (\<lambda>x. x\<lparr>b_data := encode_dinode (dinode_off (i_inum i)) i (b_data x)\<rparr>)),
       log_write bp,
       brelse bp]))"

definition idup :: "nat \<Rightarrow> ('a itable_scheme, nat) kf" where
  "idup ip =
     kseq (acquire L_itable) (
     kseq (iset ip (\<lambda>x. x\<lparr>i_ref := i_ref x + 1\<rparr>)) (
     kseq (release L_itable) (kret ip)))"

definition ilock :: "'a itable_scheme env \<Rightarrow> nat option \<Rightarrow> ('a itable_scheme, unit) kf" where
  "ilock e ipo =
     (case ipo of None \<Rightarrow> panic ''ilock'' | Some ip \<Rightarrow>
      kbind (iget_field ip i_ref) (\<lambda>ref.
      if ref < 1 then panic ''ilock'' else
      kseq (acquiresleep e (SL_inode ip)) (
      kbind (kgets (\<lambda>s. (sb s, inodes s ip))) (\<lambda>(sb0, i).
      kwhen (i_valid i = 0) (
        kbind (bread e (i_dev i) (IBLOCK (i_inum i) sb0)) (\<lambda>bp.
        kbind (bget_field bp b_data) (\<lambda>d. block [
          iset ip (decode_dinode (dinode_off (i_inum i)) d),
          brelse bp,
          iset ip (\<lambda>x. x\<lparr>i_valid := 1\<rparr>),
          kbind (iget_field ip i_type) (\<lambda>ty. kwhen (ty = 0) (panic ''ilock: no type''))])))))))"

definition iunlock :: "nat option \<Rightarrow> ('a itable_scheme, unit) kf" where
  "iunlock ipo =
     (case ipo of None \<Rightarrow> panic ''iunlock'' | Some ip \<Rightarrow>
      kbind (holdingsleep (SL_inode ip)) (\<lambda>h.
      kbind (iget_field ip i_ref) (\<lambda>ref.
      if \<not> h \<or> ref < 1 then panic ''iunlock'' else releasesleep (SL_inode ip))))"

section \<open>File content\<close>

text \<open>The block address of block \<open>bn\<close> of the file, allocated if necessary; 0 if there is no space.\<close>

definition balloc_direct :: "'a itable_scheme env \<Rightarrow> nat \<Rightarrow> nat \<Rightarrow> ('a itable_scheme, u32) kf" where
  "balloc_direct e ip k =
     kbind (iget_field ip (\<lambda>i. (i_dev i, i_addrs i k))) (\<lambda>(dev, addr).
     if addr \<noteq> 0 then kret addr else
     kbind (balloc e dev) (\<lambda>addr.
     if addr = 0 then kret 0 else
     kseq (iset ip (\<lambda>i. i\<lparr>i_addrs := (i_addrs i)(k := addr)\<rparr>)) (kret addr)))"

text \<open>Entry \<open>j\<close> of the indirect block \<open>addr\<close>.\<close>

definition bmap_indirect :: "'a itable_scheme env \<Rightarrow> u32 \<Rightarrow> u32 \<Rightarrow> nat \<Rightarrow> ('a itable_scheme, u32) kf" where
  "bmap_indirect e dev addr j =
     kbind (bread e dev addr) (\<lambda>bp.
     kbind (bget_field bp (\<lambda>x. get32 (b_data x) (4 * j))) (\<lambda>addr.
     kbind (if addr \<noteq> 0 then kret addr else
       kbind (balloc e dev) (\<lambda>addr.
       kseq (kwhen (addr \<noteq> 0) (
         kseq (bset bp (\<lambda>x. x\<lparr>b_data := put32 (4 * j) addr (b_data x)\<rparr>)) (
         log_write bp))) (
       kret addr))) (\<lambda>addr.
     kseq (brelse bp) (kret addr))))"

definition bmap :: "'a itable_scheme env \<Rightarrow> nat \<Rightarrow> nat \<Rightarrow> ('a itable_scheme, u32) kf" where
  "bmap e ip bn =
     (if bn < NDIRECT then balloc_direct e ip bn
      else if bn - NDIRECT < NINDIRECT then
        kbind (balloc_direct e ip NDIRECT) (\<lambda>addr.
        if addr = 0 then kret 0 else
        kbind (iget_field ip i_dev) (\<lambda>dev.
        bmap_indirect e dev addr (bn - NDIRECT)))
      else panic ''bmap: out of range'')"

definition itrunc :: "'a itable_scheme env \<Rightarrow> nat \<Rightarrow> ('a itable_scheme, unit) kf" where
  "itrunc e ip = block [
     kfor [0..<NDIRECT] (\<lambda>i.
       kbind (iget_field ip (\<lambda>x. (i_dev x, i_addrs x i))) (\<lambda>(dev, addr).
       kwhen (addr \<noteq> 0) (kseq (bfree e dev addr) (
         iset ip (\<lambda>x. x\<lparr>i_addrs := (i_addrs x)(i := 0)\<rparr>))))),
     kbind (iget_field ip (\<lambda>x. (i_dev x, i_addrs x NDIRECT))) (\<lambda>(dev, addr).
       kwhen (addr \<noteq> 0) (
         kbind (bread e dev addr) (\<lambda>bp. block [
           kfor [0..<NINDIRECT] (\<lambda>j.
             kbind (bget_field bp (\<lambda>x. get32 (b_data x) (4 * j))) (\<lambda>a.
             kwhen (a \<noteq> 0) (bfree e dev a))),
           brelse bp,
           bfree e dev addr,
           iset ip (\<lambda>x. x\<lparr>i_addrs := (i_addrs x)(NDIRECT := 0)\<rparr>)]))),
     iset ip (\<lambda>x. x\<lparr>i_size := 0\<rparr>),
     iupdate e ip]"

definition iput :: "'a itable_scheme env \<Rightarrow> nat \<Rightarrow> ('a itable_scheme, unit) kf" where
  "iput e ip =
     kseq (acquire L_itable) (
     kbind (iget_field ip (\<lambda>i. i_ref i = 1 \<and> i_valid i \<noteq> 0 \<and> i_nlink i = 0)) (\<lambda>last. block [
       kwhen last (block [
         acquiresleep e (SL_inode ip),
         release L_itable,
         itrunc e ip,
         iset ip (\<lambda>i. i\<lparr>i_type := 0\<rparr>),
         iupdate e ip,
         iset ip (\<lambda>i. i\<lparr>i_valid := 0\<rparr>),
         releasesleep (SL_inode ip),
         acquire L_itable]),
       iset ip (\<lambda>i. i\<lparr>i_ref := i_ref i - 1\<rparr>),
       release L_itable]))"

definition iunlockput :: "'a itable_scheme env \<Rightarrow> nat \<Rightarrow> ('a itable_scheme, unit) kf" where
  "iunlockput e ip = kseq (iunlock (Some ip)) (iput e ip)"

record fstat =
  st_dev :: u32
  st_ino :: u32
  st_type :: u16
  st_nlink :: u16
  st_size :: u64

definition stati :: "nat \<Rightarrow> ('a itable_scheme, fstat) kf" where
  "stati ip = iget_field ip (\<lambda>i. \<lparr>st_dev = i_dev i, st_ino = i_inum i, st_type = i_type i,
     st_nlink = i_nlink i, st_size = ucast (i_size i)\<rparr>)"

text \<open>Where \<open>readi\<close> stores and \<open>writei\<close> takes its data.\<close>

datatype copy_dst = ToUser u64 | ToMem u64 | ToBuf
datatype copy_src = FromUser u64 | FromMem u64 | FromBuf "u8 list"

fun copy_to :: "copy_dst \<Rightarrow> nat \<Rightarrow> u8 list \<Rightarrow> ('a itable_scheme, int) kf" where
  "copy_to (ToUser va) k bs = either_copyout True (va + of_nat k) bs"
| "copy_to (ToMem a) k bs = either_copyout False (a + of_nat k) bs"
| "copy_to ToBuf k bs = kbind myproc (\<lambda>_. kret 0)"

fun copy_from :: "copy_src \<Rightarrow> nat \<Rightarrow> nat \<Rightarrow> ('a itable_scheme, int \<times> u8 list) kf" where
  "copy_from (FromUser va) k m = either_copyin True (va + of_nat k) (of_nat m)"
| "copy_from (FromMem a) k m = either_copyin False (a + of_nat k) (of_nat m)"
| "copy_from (FromBuf bs) k m = kbind myproc (\<lambda>_. kret (0, take m (drop k bs)))"

text \<open>
  \<open>tot\<close> and \<open>off\<close> advance by at least one byte a round, so \<open>n + 1\<close> rounds are enough.
\<close>

definition readi_round :: "'a itable_scheme env \<Rightarrow> nat \<Rightarrow> u32 \<Rightarrow> copy_dst \<Rightarrow> nat \<Rightarrow> nat \<times> nat \<times> u8 list \<Rightarrow>
    ('a itable_scheme, (nat \<times> nat \<times> u8 list) + (int \<times> u8 list)) kf" where
  "readi_round e ip dev dst n = (\<lambda>(tot, off, out).
     if \<not> tot < n then kret (Inr (int tot, out)) else
     kbind (bmap e ip (off div BSIZE)) (\<lambda>addr.
     if addr = 0 then kret (Inr (int tot, out)) else
     kbind (bread e dev addr) (\<lambda>bp.
     kbind (bget_field bp b_data) (\<lambda>d.
     let m = min (n - tot) (BSIZE - off mod BSIZE);
         bs = take m (drop (off mod BSIZE) d) in
     kbind (copy_to dst tot bs) (\<lambda>r.
     if r = -1 then kseq (brelse bp) (kret (Inr (-1, out)))
     else kseq (brelse bp) (kret (Inl (tot + m, off + m, out @ bs))))))))"

definition readi :: "'a itable_scheme env \<Rightarrow> nat \<Rightarrow> copy_dst \<Rightarrow> u32 \<Rightarrow> u32 \<Rightarrow> ('a itable_scheme, int \<times> u8 list) kf" where
  "readi e ip dst off n =
     kbind (iget_field ip (\<lambda>i. (i_dev i, i_size i))) (\<lambda>(dev, sz).
     if sz < off \<or> off + n < off then kret (0, []) else
     let n = (if sz < off + n then sz - off else n) in
     kloop (unat n + 1) (readi_round e ip dev dst (unat n)) (0, unat off, []))"

definition writei_round :: "'a itable_scheme env \<Rightarrow> nat \<Rightarrow> u32 \<Rightarrow> copy_src \<Rightarrow> nat \<Rightarrow> nat \<times> nat \<Rightarrow>
    ('a itable_scheme, (nat \<times> nat) + (nat \<times> nat)) kf" where
  "writei_round e ip dev src n = (\<lambda>(tot, off).
     if \<not> tot < n then kret (Inr (tot, off)) else
     kbind (bmap e ip (off div BSIZE)) (\<lambda>addr.
     if addr = 0 then kret (Inr (tot, off)) else
     kbind (bread e dev addr) (\<lambda>bp.
     let m = min (n - tot) (BSIZE - off mod BSIZE) in
     kbind (copy_from src tot m) (\<lambda>(r, bs).
     kseq (bset bp (\<lambda>x. x\<lparr>b_data := take (off mod BSIZE) (b_data x) @ bs @ drop (off mod BSIZE + length bs) (b_data x)\<rparr>)) (
     if r = -1 then kseq (brelse bp) (kret (Inr (tot, off)))
     else kseq (log_write bp) (kseq (brelse bp) (kret (Inl (tot + m, off + m)))))))))"

definition writei :: "'a itable_scheme env \<Rightarrow> nat \<Rightarrow> copy_src \<Rightarrow> u32 \<Rightarrow> u32 \<Rightarrow> ('a itable_scheme, int) kf" where
  "writei e ip src off n =
     kbind (iget_field ip (\<lambda>i. (i_dev i, i_size i))) (\<lambda>(dev, sz).
     if sz < off \<or> off + n < off then kret (-1)
     else if MAXFILE * BSIZE < unat (off + n) then kret (-1) else
     kbind (kloop (unat n + 1) (writei_round e ip dev src (unat n)) (0, unat off)) (\<lambda>(tot, off').
     kseq (iset ip (\<lambda>i. if unat (i_size i) < off' then i\<lparr>i_size := of_nat off'\<rparr> else i)) (
     kseq (iupdate e ip) (
     kret (int tot)))))"

section \<open>Directories\<close>

definition namecmp :: "u8 list \<Rightarrow> u8 list \<Rightarrow> int" where
  "namecmp s t = strncmp (ptr s) (ptr t) DIRSIZ"

text \<open>A \<open>struct dirent\<close>: 2 bytes of inode number and the name, 16 bytes.\<close>

definition de_inum :: "u8 list \<Rightarrow> u16" where
  "de_inum de = get16 de 0"

definition de_name :: "u8 list \<Rightarrow> u8 list" where
  "de_name de = take DIRSIZ (drop 2 de)"

definition mk_dirent :: "u16 \<Rightarrow> u8 list \<Rightarrow> u8 list" where
  "mk_dirent inum name = put16 0 inum ([0, 0] @ strncpy (ptr name) DIRSIZ)"

text \<open>The entry and its offset. The loop advances by 16 below the size of the directory.\<close>

definition dirlookup :: "'a itable_scheme env \<Rightarrow> nat \<Rightarrow> u8 list \<Rightarrow> ('a itable_scheme, (nat \<times> u32) option) kf" where
  "dirlookup e dp name =
     kbind (iget_field dp (\<lambda>i. (i_type i, i_size i))) (\<lambda>(ty, sz).
     if ty \<noteq> T_DIR then panic ''dirlookup not DIR'' else
     kloop (2 ^ 28 + 1) (\<lambda>off.
       if \<not> off < sz then kret (Inr None) else
       kbind (readi e dp ToBuf off 16) (\<lambda>(r, de).
       if r \<noteq> 16 then panic ''dirlookup read''
       else if de_inum de = 0 then kret (Inl (off + 16))
       else if namecmp name (de_name de) = 0 then
         kbind (iget_field dp i_dev) (\<lambda>dev.
         kbind (iget dev (ucast (de_inum de))) (\<lambda>ip. kret (Inr (Some (ip, off)))))
       else kret (Inl (off + 16)))) 0)"

definition dirlink :: "'a itable_scheme env \<Rightarrow> nat \<Rightarrow> u8 list \<Rightarrow> u32 \<Rightarrow> ('a itable_scheme, int) kf" where
  "dirlink e dp name inum =
     kbind (dirlookup e dp name) (\<lambda>r. case r of
       Some (ip, _) \<Rightarrow> kseq (iput e ip) (kret (-1))
     | None \<Rightarrow>
         kbind (iget_field dp i_size) (\<lambda>sz.
         kbind (kloop (2 ^ 28 + 1) (\<lambda>off.
           if \<not> off < sz then kret (Inr off) else
           kbind (readi e dp ToBuf off 16) (\<lambda>(r, de).
           if r \<noteq> 16 then panic ''dirlink read''
           else if de_inum de = 0 then kret (Inr off) else kret (Inl (off + 16)))) 0) (\<lambda>off.
         kbind (writei e dp (FromBuf (mk_dirent (ucast inum) name)) off 16) (\<lambda>r.
         if r \<noteq> 16 then kret (-1) else kret 0))))"

section \<open>Paths\<close>

definition slash :: u8 where "slash = 47"

text \<open>\<open>Some (name, rest)\<close>, or \<open>None\<close> for the null pointer.\<close>

definition skipelem :: "u8 list \<Rightarrow> (u8 list \<times> u8 list) option" where
  "skipelem path =
     (let path = dropWhile (\<lambda>c. c = slash) path in
      if path = [] then None else
      let s = takeWhile (\<lambda>c. c \<noteq> slash) path;
          rest = dropWhile (\<lambda>c. c \<noteq> slash) path in
      Some (take DIRSIZ s, dropWhile (\<lambda>c. c = slash) rest))"

text \<open>The path gets shorter in every round.\<close>

definition namex :: "'a itable_scheme env \<Rightarrow> u8 list \<Rightarrow> bool \<Rightarrow> ('a itable_scheme, (nat \<times> u8 list) option) kf" where
  "namex e path want_parent =
     kbind (if path \<noteq> [] \<and> hd path = slash then iget ROOTDEV ROOTINO
       else kbind curproc (\<lambda>p. kbind (pget p p_cwd) (\<lambda>cwd.
         case cwd of None \<Rightarrow> panic ''kerneltrap'' | Some d \<Rightarrow> idup d))) (\<lambda>ip0.
     kloop (length path + 1) (\<lambda>(ip, path, name).
       case skipelem path of
         None \<Rightarrow> if want_parent then kseq (iput e ip) (kret (Inr None)) else kret (Inr (Some (ip, name)))
       | Some (name, rest) \<Rightarrow>
           kseq (ilock e (Some ip)) (
           kbind (iget_field ip i_type) (\<lambda>ty.
           if ty \<noteq> T_DIR then kseq (iunlockput e ip) (kret (Inr None))
           else if want_parent \<and> rest = [] then kseq (iunlock (Some ip)) (kret (Inr (Some (ip, name))))
           else kbind (dirlookup e ip name) (\<lambda>nxt. case nxt of
               None \<Rightarrow> kseq (iunlockput e ip) (kret (Inr None))
             | Some (nx, _) \<Rightarrow> kseq (iunlockput e ip) (kret (Inl (nx, rest, name))))))) (ip0, path, []))"

definition namei :: "'a itable_scheme env \<Rightarrow> u8 list \<Rightarrow> ('a itable_scheme, nat option) kf" where
  "namei e path = kbind (namex e path False) (\<lambda>r. kret (map_option fst r))"

definition nameiparent :: "'a itable_scheme env \<Rightarrow> u8 list \<Rightarrow> ('a itable_scheme, (nat \<times> u8 list) option) kf" where
  "nameiparent e path = namex e path True"

end
