(* ===== verification/Xv6_Console.thy ===== *)
theory Xv6_Console
  imports Xv6_Fs
begin

unbundle bit_operations_syntax

text \<open>
  The serial port and the console (\<^verbatim>\<open>uart.c\<close>, \<^verbatim>\<open>console.c\<close>, \<^verbatim>\<open>procdump\<close> of \<^verbatim>\<open>proc.c\<close>).
  The 16550 chip is not part of the repository: \<open>uart_dev\<close> gives the value that a register
  returns as a function of all accesses to the chip so far, which \<open>uart_io\<close> records, so it may
  be any chip with any input. A loop that polls the chip is given \<open>rounds e\<close> polls.
\<close>

section \<open>Serial port\<close>

definition RHR :: nat where "RHR = 0"
definition THR :: nat where "THR = 0"
definition IER :: nat where "IER = 1"
definition FCR :: nat where "FCR = 2"
definition ISR :: nat where "ISR = 2"
definition LCR :: nat where "LCR = 3"
definition LSR :: nat where "LSR = 5"
definition IER_RX_ENABLE :: u8 where "IER_RX_ENABLE = push_bit 0 1"
definition IER_TX_ENABLE :: u8 where "IER_TX_ENABLE = push_bit 1 1"
definition FCR_FIFO_ENABLE :: u8 where "FCR_FIFO_ENABLE = push_bit 0 1"
definition FCR_FIFO_CLEAR :: u8 where "FCR_FIFO_CLEAR = push_bit 1 3"
definition LCR_EIGHT_BITS :: u8 where "LCR_EIGHT_BITS = push_bit 0 3"
definition LCR_BAUD_LATCH :: u8 where "LCR_BAUD_LATCH = push_bit 7 1"
definition LSR_TX_IDLE :: u8 where "LSR_TX_IDLE = push_bit 5 1"
definition UART_TX_BUF_SIZE :: nat where "UART_TX_BUF_SIZE = 32"

datatype uart_access = RegRead nat | RegWrite nat u8

record uart = itable +
  uart_dev :: "uart_access list \<Rightarrow> nat \<Rightarrow> u8"
  uart_io :: "uart_access list"
  panicked :: int
  uart_tx_buf :: "nat \<Rightarrow> u8"
  uart_tx_w :: u64
  uart_tx_r :: u64

definition ReadReg :: "nat \<Rightarrow> ('a uart_scheme, u8) kf" where
  "ReadReg r = kbind (kgets (\<lambda>s. uart_dev s (uart_io s) r)) (\<lambda>v.
     kseq (kupd (\<lambda>s. s\<lparr>uart_io := uart_io s @ [RegRead r]\<rparr>)) (kret v))"

definition WriteReg :: "nat \<Rightarrow> u8 \<Rightarrow> ('a uart_scheme, unit) kf" where
  "WriteReg r v = kupd (\<lambda>s. s\<lparr>uart_io := uart_io s @ [RegWrite r v]\<rparr>)"

definition uartinit :: "('a uart_scheme, unit) kf" where
  "uartinit = block [
     WriteReg IER 0,
     WriteReg LCR LCR_BAUD_LATCH,
     WriteReg 0 3,
     WriteReg 1 0,
     WriteReg LCR LCR_EIGHT_BITS,
     WriteReg FCR (FCR_FIFO_ENABLE OR FCR_FIFO_CLEAR),
     WriteReg IER (IER_TX_ENABLE OR IER_RX_ENABLE),
     initlock L_uart ''uart'']"

text \<open>
  \<^verbatim>\<open>uart_tx_r\<close> comes one closer to \<^verbatim>\<open>uart_tx_w\<close> in every round, so their distance bounds the
  number of rounds.
\<close>

definition uartstart_round :: "('a uart_scheme, unit + unit) kf" where
  "uartstart_round =
     kbind (kgets (\<lambda>s. uart_tx_w s = uart_tx_r s)) (\<lambda>drained.
     if drained then kseq (ReadReg ISR) (kret (Inr ())) else
     kbind (ReadReg LSR) (\<lambda>lsr.
     if lsr AND LSR_TX_IDLE = 0 then kret (Inr ()) else
     kbind (kgets (\<lambda>s. uart_tx_buf s (unat (uart_tx_r s) mod UART_TX_BUF_SIZE))) (\<lambda>c.
     kseq (kupd (\<lambda>s. s\<lparr>uart_tx_r := uart_tx_r s + 1\<rparr>)) (
     kseq (wakeup (Some ChanUartR)) (
     kseq (WriteReg THR c) (
     kret (Inl ())))))))"

definition uartstart :: "('a uart_scheme, unit) kf" where
  "uartstart = kbind (kgets (\<lambda>s. unat (uart_tx_w s - uart_tx_r s))) (\<lambda>n.
     kloop (n + 1) (\<lambda>_. uartstart_round) ())"

definition uartputc :: "'a uart_scheme env \<Rightarrow> u8 \<Rightarrow> ('a uart_scheme, unit) kf" where
  "uartputc e c =
     kseq (acquire L_uart) (
     kbind (kgets panicked) (\<lambda>pn.
     if pn \<noteq> 0 then spin ''panicked'' else block [
       kwaiting ChanUartR (rounds e) (\<lambda>_.
         kbind (kgets (\<lambda>s. uart_tx_w s = uart_tx_r s + of_nat UART_TX_BUF_SIZE)) (\<lambda>full.
         if full then kseq (sleep e ChanUartR L_uart) (kret (Inl ())) else kret (Inr ()))) (),
       kupd (\<lambda>s. s\<lparr>uart_tx_buf := (uart_tx_buf s)(unat (uart_tx_w s) mod UART_TX_BUF_SIZE := c)\<rparr>),
       kupd (\<lambda>s. s\<lparr>uart_tx_w := uart_tx_w s + 1\<rparr>),
       uartstart,
       release L_uart]))"

definition uartputc_sync :: "'a uart_scheme env \<Rightarrow> u8 \<Rightarrow> ('a uart_scheme, unit) kf" where
  "uartputc_sync e c =
     kseq push_off (
     kbind (kgets panicked) (\<lambda>pn.
     if pn \<noteq> 0 then spin ''panicked'' else block [
       kloop (rounds e) (\<lambda>_. kbind (ReadReg LSR) (\<lambda>lsr.
         kret (if lsr AND LSR_TX_IDLE = 0 then Inl () else Inr ()))) (),
       WriteReg THR c,
       pop_off]))"

definition uartgetc :: "('a uart_scheme, int) kf" where
  "uartgetc =
     kbind (ReadReg LSR) (\<lambda>lsr.
     if lsr AND 1 \<noteq> 0 then kbind (ReadReg RHR) (\<lambda>c. kret (uint c)) else kret (-1))"

section \<open>Console\<close>

definition BACKSPACE :: int where "BACKSPACE = 0x100"
definition INPUT_BUF_SIZE :: nat where "INPUT_BUF_SIZE = 128"
definition CONSOLE :: nat where "CONSOLE = 1"
definition NDEV :: nat where "NDEV = 10"

text \<open>\<^verbatim>\<open>C(x)\<close> on character codes: the code of control-x.\<close>

definition Ctl :: "int \<Rightarrow> int" where "Ctl x = x - 64"

text \<open>The functions a device switch entry may point to.\<close>

datatype devfn = NullFn | ConsoleRead | ConsoleWrite

record cons = uart +
  cons_buf :: "nat \<Rightarrow> u8"
  cons_r :: u32
  cons_w :: u32
  cons_e :: u32
  devsw_read :: "nat \<Rightarrow> devfn"
  devsw_write :: "nat \<Rightarrow> devfn"

definition consputc :: "'a uart_scheme env \<Rightarrow> int \<Rightarrow> ('a uart_scheme, unit) kf" where
  "consputc e c =
     (if c = BACKSPACE then block [uartputc_sync e 8, uartputc_sync e 32, uartputc_sync e 8]
      else uartputc_sync e (of_int c))"

definition consolewrite :: "'a cons_scheme env \<Rightarrow> bool \<Rightarrow> u64 \<Rightarrow> int \<Rightarrow> ('a cons_scheme, int) kf" where
  "consolewrite e user_src src n =
     kloop (nat n + 1) (\<lambda>i.
       if \<not> i < n then kret (Inr i) else
       kbind (either_copyin user_src (src + of_int i) 1) (\<lambda>(r, c).
       if r = -1 then kret (Inr i) else
       kseq (uartputc e (c ! 0)) (kret (Inl (i + 1))))) 0"

text \<open>
  The result of waiting for input: \<open>True\<close> if the process has been killed, and then the
  lock has been released.
\<close>

definition cons_wait :: "'a cons_scheme env \<Rightarrow> ('a cons_scheme, bool) kf" where
  "cons_wait e = kwaiting ChanConsR (rounds e) (\<lambda>_.
     kbind (kgets (\<lambda>s. cons_r s = cons_w s)) (\<lambda>drained.
     if drained then
       kbind curproc (\<lambda>p.
       kbind (killed p) (\<lambda>k.
       if k \<noteq> 0 then kseq (release L_cons) (kret (Inr True))
       else kseq (sleep e ChanConsR L_cons) (kret (Inl ()))))
     else kret (Inr False))) ()"

definition consoleread :: "'a cons_scheme env \<Rightarrow> bool \<Rightarrow> u64 \<Rightarrow> int \<Rightarrow> ('a cons_scheme, int) kf" where
  "consoleread e user_dst dst target =
     kseq (acquire L_cons) (
     kbind (kloop (nat target + 1) (\<lambda>(dst, n).
       if \<not> 0 < n then kret (Inr (Some n)) else
       kbind (cons_wait e) (\<lambda>dead.
       if dead then kret (Inr None) else
       kbind (kgets (\<lambda>s. cons_buf s (unat (cons_r s) mod INPUT_BUF_SIZE))) (\<lambda>c.
       kseq (kupd (\<lambda>s. s\<lparr>cons_r := cons_r s + 1\<rparr>)) (
       if uint c = Ctl 68 then
         kseq (kwhen (n < target) (kupd (\<lambda>s. s\<lparr>cons_r := cons_r s - 1\<rparr>))) (kret (Inr (Some n)))
       else
       kbind (either_copyout user_dst dst [c]) (\<lambda>r.
       if r = -1 then kret (Inr (Some n))
       else if c = 10 then kret (Inr (Some (n - 1)))
       else kret (Inl (dst + 1, n - 1))))))) (dst, target)) (\<lambda>res.
     case res of None \<Rightarrow> kret (-1) | Some n \<Rightarrow> kseq (release L_cons) (kret (target - n))))"

text \<open>The lines that \<^verbatim>\<open>procdump\<close> prints.\<close>

definition procdump :: "('a procs_scheme, (cint \<times> string \<times> u8 list) list) kf" where
  "procdump = kgets (\<lambda>s. map (\<lambda>p. (p_pid (proc_tab s p),
       (case p_state (proc_tab s p) of UNUSED \<Rightarrow> ''unused'' | USED \<Rightarrow> ''used'' | SLEEPING \<Rightarrow> ''sleep ''
        | RUNNABLE \<Rightarrow> ''runble'' | RUNNING \<Rightarrow> ''run   '' | ZOMBIE \<Rightarrow> ''zombie''), p_name (proc_tab s p)))
     (filter (\<lambda>p. p_state (proc_tab s p) \<noteq> UNUSED) [0..<NPROC]))"

definition cons_erase :: "'a cons_scheme env \<Rightarrow> ('a cons_scheme, unit) kf" where
  "cons_erase e = kseq (kupd (\<lambda>s. s\<lparr>cons_e := cons_e s - 1\<rparr>)) (consputc e BACKSPACE)"

text \<open>The distance between the edit and the write index bounds the erasing of a line.\<close>

definition cons_kill_line :: "'a cons_scheme env \<Rightarrow> ('a cons_scheme, unit) kf" where
  "cons_kill_line e =
     kbind (kgets (\<lambda>s. unat (cons_e s - cons_w s))) (\<lambda>n.
     kloop (n + 1) (\<lambda>_.
       kbind (kgets (\<lambda>s. cons_e s \<noteq> cons_w s \<and> cons_buf s (unat (cons_e s - 1) mod INPUT_BUF_SIZE) \<noteq> 10)) (\<lambda>more.
       if more then kseq (cons_erase e) (kret (Inl ())) else kret (Inr ()))) ())"

definition cons_input :: "'a cons_scheme env \<Rightarrow> int \<Rightarrow> ('a cons_scheme, unit) kf" where
  "cons_input e c0 =
     kbind (kgets (\<lambda>s. c0 \<noteq> 0 \<and> unat (cons_e s - cons_r s) < INPUT_BUF_SIZE)) (\<lambda>ok.
     kwhen ok (
       let c = (if c0 = 13 then 10 else c0) in
       kseq (consputc e c) (
       kseq (kupd (\<lambda>s. s\<lparr>cons_buf := (cons_buf s)(unat (cons_e s) mod INPUT_BUF_SIZE := of_int c)\<rparr>)) (
       kseq (kupd (\<lambda>s. s\<lparr>cons_e := cons_e s + 1\<rparr>)) (
       kbind (kgets (\<lambda>s. c = 10 \<or> c = Ctl 68 \<or> unat (cons_e s - cons_r s) = INPUT_BUF_SIZE)) (\<lambda>line.
       kwhen line (
         kseq (kupd (\<lambda>s. s\<lparr>cons_w := cons_e s\<rparr>)) (
         wakeup (Some ChanConsR)))))))))"

definition consoleintr :: "'a cons_scheme env \<Rightarrow> int \<Rightarrow> ('a cons_scheme, unit) kf" where
  "consoleintr e c =
     kseq (acquire L_cons) (
     kseq (
       if c = Ctl 80 then kseq procdump (kret ())
       else if c = Ctl 85 then cons_kill_line e
       else if c = Ctl 72 \<or> c = 127 then
         kbind (kgets (\<lambda>s. cons_e s \<noteq> cons_w s)) (\<lambda>some. kwhen some (cons_erase e))
       else cons_input e c) (
     release L_cons))"

definition uartintr :: "'a cons_scheme env \<Rightarrow> ('a cons_scheme, unit) kf" where
  "uartintr e = block [
     kloop (rounds e) (\<lambda>_.
       kbind uartgetc (\<lambda>c.
       if c = -1 then kret (Inr ()) else kseq (consoleintr e c) (kret (Inl ())))) (),
     acquire L_uart,
     uartstart,
     release L_uart]"

definition consoleinit :: "('a cons_scheme, unit) kf" where
  "consoleinit = block [
     initlock L_cons ''cons'',
     uartinit,
     kupd (\<lambda>s. s\<lparr>devsw_read := (devsw_read s)(CONSOLE := ConsoleRead)\<rparr>),
     kupd (\<lambda>s. s\<lparr>devsw_write := (devsw_write s)(CONSOLE := ConsoleWrite)\<rparr>)]"

end
