(* ===== verification/Xv6_File.thy ===== *)
theory Xv6_File
  imports Xv6_Console
begin

unbundle bit_operations_syntax

text \<open>
  Open files and pipes (\<^verbatim>\<open>file.c\<close>, \<^verbatim>\<open>file.h\<close>, \<^verbatim>\<open>pipe.c\<close>). A \<open>struct file *\<close> is an index into
  the file table. A \<open>struct pipe\<close> is a page from \<open>kalloc\<close>; its fields are kept in \<open>pipes\<close> under
  the address of the page, apart from the bytes of memory.
\<close>

definition NFILE :: nat where "NFILE = 100"
definition PIPESIZE :: nat where "PIPESIZE = 512"

datatype filetype = FD_NONE | FD_PIPE | FD_INODE | FD_DEVICE

record file_s =
  f_type :: filetype
  f_ref :: int
  f_readable :: u8
  f_writable :: u8
  f_pipe :: u64
  f_ip :: "nat option"
  f_off :: u32
  f_major :: u16

record pipe =
  pi_data :: "nat \<Rightarrow> u8"
  pi_nread :: u32
  pi_nwrite :: u32
  pi_readopen :: int
  pi_writeopen :: int

record ftable = cons +
  files :: "nat \<Rightarrow> file_s"
  pipes :: "u64 \<Rightarrow> pipe"
  stat_pad :: "u8 list"   \<comment> \<open>the bytes of the stack in the padding of a \<open>struct stat\<close>\<close>

definition fget :: "nat \<Rightarrow> (file_s \<Rightarrow> 'x) \<Rightarrow> ('a ftable_scheme, 'x) kf" where
  "fget f g = kgets (\<lambda>s. g (files s f))"

definition fset :: "nat \<Rightarrow> (file_s \<Rightarrow> file_s) \<Rightarrow> ('a ftable_scheme, unit) kf" where
  "fset f g = kupd (\<lambda>s. s\<lparr>files := (files s)(f := g (files s f))\<rparr>)"

definition piget :: "u64 \<Rightarrow> (pipe \<Rightarrow> 'x) \<Rightarrow> ('a ftable_scheme, 'x) kf" where
  "piget pi g = kgets (\<lambda>s. g (pipes s pi))"

definition piset :: "u64 \<Rightarrow> (pipe \<Rightarrow> pipe) \<Rightarrow> ('a ftable_scheme, unit) kf" where
  "piset pi g = kupd (\<lambda>s. s\<lparr>pipes := (pipes s)(pi := g (pipes s pi))\<rparr>)"

text \<open>Using a \<open>struct proc *\<close> that may be null.\<close>

definition deref :: "nat option \<Rightarrow> ('s, nat) kf" where
  "deref p = (case p of None \<Rightarrow> panic ''kerneltrap'' | Some p \<Rightarrow> kret p)"

section \<open>Pipes\<close>

definition pipeclose :: "u64 \<Rightarrow> bool \<Rightarrow> ('a ftable_scheme, unit) kf" where
  "pipeclose pi writable =
     kseq (acquire (L_pipe pi)) (
     kseq (
       if writable then kseq (piset pi (\<lambda>x. x\<lparr>pi_writeopen := 0\<rparr>)) (wakeup (Some (ChanPipeR pi)))
       else kseq (piset pi (\<lambda>x. x\<lparr>pi_readopen := 0\<rparr>)) (wakeup (Some (ChanPipeW pi)))) (
     kbind (piget pi (\<lambda>x. pi_readopen x = 0 \<and> pi_writeopen x = 0)) (\<lambda>both.
     if both then kseq (release (L_pipe pi)) (kfree pi) else release (L_pipe pi))))"

text \<open>
  The part of a round of \<^verbatim>\<open>pipewrite\<close> before a byte is written, repeated while the pipe is full:
  \<open>False\<close> if the call returns \<open>-1\<close>, with the lock released.
\<close>

definition pipe_room :: "'a ftable_scheme env \<Rightarrow> u64 \<Rightarrow> nat option \<Rightarrow> ('a ftable_scheme, bool) kf" where
  "pipe_room e pi pr = kwaiting (ChanPipeW pi) (rounds e) (\<lambda>_.
     kbind (piget pi pi_readopen) (\<lambda>ro.
     kbind (if ro = 0 then kret 1 else kbind (deref pr) killed) (\<lambda>k.
     if k \<noteq> 0 then kseq (release (L_pipe pi)) (kret (Inr False)) else
     kbind (piget pi (\<lambda>x. pi_nwrite x = pi_nread x + of_nat PIPESIZE)) (\<lambda>full.
     if full then
       kseq (wakeup (Some (ChanPipeR pi))) (
       kseq (sleep e (ChanPipeW pi) (L_pipe pi)) (kret (Inl ())))
     else kret (Inr True))))) ()"

definition pipe_put :: "u64 \<Rightarrow> u8 \<Rightarrow> ('a ftable_scheme, unit) kf" where
  "pipe_put pi ch = piset pi (\<lambda>x. x\<lparr>pi_data := (pi_data x)(unat (pi_nwrite x) mod PIPESIZE := ch),
     pi_nwrite := pi_nwrite x + 1\<rparr>)"

definition pipewrite_round :: "'a ftable_scheme env \<Rightarrow> u64 \<Rightarrow> nat option \<Rightarrow> u64 \<Rightarrow> int \<Rightarrow> int \<Rightarrow> ('a ftable_scheme, int + int option) kf" where
  "pipewrite_round e pi pr addr n i =
     (if \<not> i < n then kret (Inr (Some i)) else
      kbind (pipe_room e pi pr) (\<lambda>ok.
      if \<not> ok then kret (Inr None) else
      kbind (deref pr) (\<lambda>p.
      kbind (pget p p_pagetable) (\<lambda>pt.
      kbind (copyin pt (addr + of_int i) 1) (\<lambda>(r, ch).
      if r = -1 then kret (Inr (Some i)) else
      kseq (pipe_put pi (ch ! 0)) (kret (Inl (i + 1))))))))"

definition pipewrite :: "'a ftable_scheme env \<Rightarrow> u64 \<Rightarrow> u64 \<Rightarrow> int \<Rightarrow> ('a ftable_scheme, int) kf" where
  "pipewrite e pi addr n =
     kbind myproc (\<lambda>pr.
     kseq (acquire (L_pipe pi)) (
     kbind (kloop (nat n + 1) (pipewrite_round e pi pr addr n) 0) (\<lambda>res. case res of
       None \<Rightarrow> kret (-1)
     | Some i \<Rightarrow>
         kseq (wakeup (Some (ChanPipeR pi))) (
         kseq (release (L_pipe pi)) (
         kret i)))))"

definition pipe_avail :: "'a ftable_scheme env \<Rightarrow> u64 \<Rightarrow> nat option \<Rightarrow> ('a ftable_scheme, bool) kf" where
  "pipe_avail e pi pr = kwaiting (ChanPipeR pi) (rounds e) (\<lambda>_.
     kbind (piget pi (\<lambda>x. pi_nread x = pi_nwrite x \<and> pi_writeopen x \<noteq> 0)) (\<lambda>drained.
     if \<not> drained then kret (Inr True) else
     kbind (deref pr) (\<lambda>p.
     kbind (killed p) (\<lambda>k.
     if k \<noteq> 0 then kseq (release (L_pipe pi)) (kret (Inr False))
     else kseq (sleep e (ChanPipeR pi) (L_pipe pi)) (kret (Inl ())))))) ()"

definition piperead_round :: "u64 \<Rightarrow> nat option \<Rightarrow> u64 \<Rightarrow> int \<Rightarrow> int \<Rightarrow> ('a ftable_scheme, int + int) kf" where
  "piperead_round pi pr addr n i =
     (if \<not> i < n then kret (Inr i) else
      kbind (piget pi (\<lambda>x. pi_nread x = pi_nwrite x)) (\<lambda>drained.
      if drained then kret (Inr i) else
      kbind (piget pi (\<lambda>x. pi_data x (unat (pi_nread x) mod PIPESIZE))) (\<lambda>ch.
      kseq (piset pi (\<lambda>x. x\<lparr>pi_nread := pi_nread x + 1\<rparr>)) (
      kbind (deref pr) (\<lambda>p.
      kbind (pget p p_pagetable) (\<lambda>pt.
      kbind (copyout pt (addr + of_int i) [ch]) (\<lambda>r.
      if r = -1 then kret (Inr i) else kret (Inl (i + 1)))))))))"

definition piperead :: "'a ftable_scheme env \<Rightarrow> u64 \<Rightarrow> u64 \<Rightarrow> int \<Rightarrow> ('a ftable_scheme, int) kf" where
  "piperead e pi addr n =
     kbind myproc (\<lambda>pr.
     kseq (acquire (L_pipe pi)) (
     kbind (pipe_avail e pi pr) (\<lambda>ok.
     if \<not> ok then kret (-1) else
     kbind (kloop (nat n + 1) (piperead_round pi pr addr n) 0) (\<lambda>i.
     kseq (wakeup (Some (ChanPipeW pi))) (
     kseq (release (L_pipe pi)) (
     kret i))))))"

section \<open>Open files\<close>

definition fileinit :: "('a ftable_scheme, unit) kf" where
  "fileinit = initlock L_ftable ''ftable''"

definition filealloc :: "('a ftable_scheme, nat option) kf" where
  "filealloc =
     kseq (acquire L_ftable) (
     kbind (kfind [0..<NFILE] (\<lambda>f.
       kbind (fget f f_ref) (\<lambda>ref.
       if ref = 0 then
         kseq (fset f (\<lambda>x. x\<lparr>f_ref := 1\<rparr>)) (
         kseq (release L_ftable) (kret (Some f)))
       else kret None))) (\<lambda>r. case r of
       Some f \<Rightarrow> kret (Some f)
     | None \<Rightarrow> kseq (release L_ftable) (kret None)))"

definition filedup :: "nat \<Rightarrow> ('a ftable_scheme, nat) kf" where
  "filedup f =
     kseq (acquire L_ftable) (
     kbind (fget f f_ref) (\<lambda>ref.
     if ref < 1 then panic ''filedup'' else
     kseq (fset f (\<lambda>x. x\<lparr>f_ref := f_ref x + 1\<rparr>)) (
     kseq (release L_ftable) (kret f))))"

definition fileclose :: "'a ftable_scheme env \<Rightarrow> nat \<Rightarrow> ('a ftable_scheme, unit) kf" where
  "fileclose e f =
     kseq (acquire L_ftable) (
     kbind (fget f f_ref) (\<lambda>ref.
     if ref < 1 then panic ''fileclose'' else
     kseq (fset f (\<lambda>x. x\<lparr>f_ref := f_ref x - 1\<rparr>)) (
     kbind (fget f (\<lambda>x. x)) (\<lambda>ff.
     if 0 < f_ref ff then release L_ftable else
     kseq (fset f (\<lambda>x. x\<lparr>f_ref := 0\<rparr>)) (
     kseq (fset f (\<lambda>x. x\<lparr>f_type := FD_NONE\<rparr>)) (
     kseq (release L_ftable) (
     case f_type ff of
       FD_NONE \<Rightarrow> kret ()
     | FD_PIPE \<Rightarrow> pipeclose (f_pipe ff) (f_writable ff \<noteq> 0)
     | _ \<Rightarrow> block [
         begin_op e,
         kbind (deref (f_ip ff)) (iput e),
         end_op e])))))))"

text \<open>The bytes of a \<open>struct stat\<close>: four bytes of padding lie before the size.\<close>

definition encode_stat :: "u8 list \<Rightarrow> fstat \<Rightarrow> u8 list" where
  "encode_stat pad st =
     bytes32 (st_dev st) @ bytes32 (st_ino st) @ take 2 (bytes32 (ucast (st_type st))) @
     take 2 (bytes32 (ucast (st_nlink st))) @ take 4 pad @
     bytes32 (ucast (st_size st)) @ bytes32 (ucast (drop_bit 32 (st_size st)))"

definition filestat :: "'a ftable_scheme env \<Rightarrow> nat \<Rightarrow> u64 \<Rightarrow> ('a ftable_scheme, int) kf" where
  "filestat e f addr =
     kbind myproc (\<lambda>me.
     kbind (fget f (\<lambda>x. (f_type x, f_ip x))) (\<lambda>(ty, ipo).
     if ty = FD_INODE \<or> ty = FD_DEVICE then
       kseq (ilock e ipo) (
       kbind (deref ipo) (\<lambda>ip.
       kbind (stati ip) (\<lambda>st.
       kseq (iunlock ipo) (
       kbind (kgets stat_pad) (\<lambda>pad.
       kbind (deref me) (\<lambda>p.
       kbind (pget p p_pagetable) (\<lambda>pt.
       kbind (copyout pt addr (encode_stat pad st)) (\<lambda>r.
       if r < 0 then kret (-1) else kret 0))))))))
     else kret (-1)))"

definition dev_missing :: "u16 \<Rightarrow> (nat \<Rightarrow> devfn) \<Rightarrow> bool" where
  "dev_missing major sw \<longleftrightarrow> sint major < 0 \<or> int NDEV \<le> sint major \<or> sw (unat major) = NullFn"

fun devcall :: "devfn \<Rightarrow> 'a cons_scheme env \<Rightarrow> bool \<Rightarrow> u64 \<Rightarrow> int \<Rightarrow> ('a cons_scheme, int) kf" where
  "devcall NullFn e u addr n = panic ''kerneltrap''"
| "devcall ConsoleRead e u addr n = consoleread e u addr n"
| "devcall ConsoleWrite e u addr n = consolewrite e u addr n"

definition fileread :: "'a ftable_scheme env \<Rightarrow> nat \<Rightarrow> u64 \<Rightarrow> int \<Rightarrow> ('a ftable_scheme, int) kf" where
  "fileread e f addr n =
     kbind (fget f (\<lambda>x. x)) (\<lambda>ff.
     if f_readable ff = 0 then kret (-1) else
     case f_type ff of
       FD_PIPE \<Rightarrow> piperead e (f_pipe ff) addr n
     | FD_DEVICE \<Rightarrow>
         kbind (kgets devsw_read) (\<lambda>sw.
         if dev_missing (f_major ff) sw then kret (-1)
         else devcall (sw (unat (f_major ff))) e True addr n)
     | FD_INODE \<Rightarrow>
         kseq (ilock e (f_ip ff)) (
         kbind (deref (f_ip ff)) (\<lambda>ip.
         kbind (fget f f_off) (\<lambda>off.
         kbind (readi e ip (ToUser addr) off (of_int n)) (\<lambda>(r, _).
         kseq (kwhen (0 < r) (fset f (\<lambda>x. x\<lparr>f_off := f_off x + of_int r\<rparr>))) (
         kseq (iunlock (f_ip ff)) (kret r))))))
     | FD_NONE \<Rightarrow> panic ''fileread'')"

text \<open>The largest number of bytes that one transaction writes.\<close>

definition filewrite_max :: int where
  "filewrite_max = ((int MAXOPBLOCKS - 1 - 1 - 2) div 2) * int BSIZE"

definition filewrite_round :: "'a ftable_scheme env \<Rightarrow> nat \<Rightarrow> u64 \<Rightarrow> int \<Rightarrow> int \<Rightarrow> ('a ftable_scheme, int + int) kf" where
  "filewrite_round e f addr n i =
     (if \<not> i < n then kret (Inr i) else
      let n1 = min (n - i) filewrite_max in
      kseq (begin_op e) (
      kbind (fget f f_ip) (\<lambda>ipo.
      kseq (ilock e ipo) (
      kbind (deref ipo) (\<lambda>ip.
      kbind (fget f f_off) (\<lambda>off.
      kbind (writei e ip (FromUser (addr + of_int i)) off (of_int n1)) (\<lambda>r.
      kseq (kwhen (0 < r) (fset f (\<lambda>x. x\<lparr>f_off := f_off x + of_int r\<rparr>))) (
      kseq (iunlock ipo) (
      kseq (end_op e) (
      if r \<noteq> n1 then kret (Inr i) else kret (Inl (i + r))))))))))))"

definition filewrite :: "'a ftable_scheme env \<Rightarrow> nat \<Rightarrow> u64 \<Rightarrow> int \<Rightarrow> ('a ftable_scheme, int) kf" where
  "filewrite e f addr n =
     kbind (fget f (\<lambda>x. x)) (\<lambda>ff.
     if f_writable ff = 0 then kret (-1) else
     case f_type ff of
       FD_PIPE \<Rightarrow> pipewrite e (f_pipe ff) addr n
     | FD_DEVICE \<Rightarrow>
         kbind (kgets devsw_write) (\<lambda>sw.
         if dev_missing (f_major ff) sw then kret (-1)
         else devcall (sw (unat (f_major ff))) e True addr n)
     | FD_INODE \<Rightarrow>
         kbind (kloop (nat n + 1) (filewrite_round e f addr n) 0) (\<lambda>i.
         kret (if i = n then n else -1))
     | FD_NONE \<Rightarrow> panic ''filewrite'')"

section \<open>Making a pipe\<close>

text \<open>The label \<open>bad\<close> of \<^verbatim>\<open>pipealloc\<close>, reached before a page has been allocated.\<close>

definition pipealloc_bad :: "'a ftable_scheme env \<Rightarrow> nat option \<Rightarrow> nat option \<Rightarrow> ('a ftable_scheme, (nat \<times> nat) option) kf" where
  "pipealloc_bad e f0 f1 =
     kseq (case f0 of None \<Rightarrow> kret () | Some f \<Rightarrow> fileclose e f) (
     kseq (case f1 of None \<Rightarrow> kret () | Some f \<Rightarrow> fileclose e f) (
     kret None))"

text \<open>\<open>Some (f0, f1)\<close> for result 0, \<open>None\<close> for \<open>-1\<close>.\<close>

definition pipealloc :: "'a ftable_scheme env \<Rightarrow> ('a ftable_scheme, (nat \<times> nat) option) kf" where
  "pipealloc e =
     kbind filealloc (\<lambda>r0. case r0 of
       None \<Rightarrow> pipealloc_bad e None None
     | Some f0 \<Rightarrow>
     kbind filealloc (\<lambda>r1. case r1 of
       None \<Rightarrow> pipealloc_bad e (Some f0) None
     | Some f1 \<Rightarrow>
     kbind kalloc (\<lambda>pi.
     if pi = 0 then pipealloc_bad e (Some f0) (Some f1) else
     kseq (block [
       piset pi (\<lambda>x. x\<lparr>pi_readopen := 1, pi_writeopen := 1, pi_nwrite := 0, pi_nread := 0\<rparr>),
       initlock (L_pipe pi) ''pipe'',
       fset f0 (\<lambda>x. x\<lparr>f_type := FD_PIPE, f_readable := 1, f_writable := 0, f_pipe := pi\<rparr>),
       fset f1 (\<lambda>x. x\<lparr>f_type := FD_PIPE, f_readable := 0, f_writable := 1, f_pipe := pi\<rparr>)]) (
     kret (Some (f0, f1))))))"

end
