(* ===== verification/Xv6_Exec.thy ===== *)
theory Xv6_Exec
  imports Xv6_File
begin

unbundle bit_operations_syntax

text \<open>
  The trap frame (\<^verbatim>\<open>proc.h\<close>), replacing the image of a process (\<^verbatim>\<open>exec.c\<close>, \<^verbatim>\<open>elf.h\<close>) and the
  rest of the life cycle of a process (\<open>userinit\<close>, \<open>fork\<close>, \<open>exit\<close> of \<^verbatim>\<open>proc.c\<close>). A trap frame is
  a page of memory; its registers are read and written by their offset.
\<close>

section \<open>Trap frames\<close>

definition TF_kernel_satp :: u64 where "TF_kernel_satp = 0"
definition TF_kernel_sp :: u64 where "TF_kernel_sp = 8"
definition TF_kernel_trap :: u64 where "TF_kernel_trap = 16"
definition TF_epc :: u64 where "TF_epc = 24"
definition TF_kernel_hartid :: u64 where "TF_kernel_hartid = 32"
definition TF_sp :: u64 where "TF_sp = 48"
definition TF_a :: "nat \<Rightarrow> u64" where "TF_a i = 112 + 8 * of_nat i"
definition TF_size :: nat where "TF_size = 288"

definition tf_get :: "nat \<Rightarrow> u64 \<Rightarrow> ('a procs_scheme, u64) kf" where
  "tf_get p r = kbind (pget p p_trapframe) (\<lambda>tf. kload64 (tf + r))"

definition tf_set :: "nat \<Rightarrow> u64 \<Rightarrow> u64 \<Rightarrow> ('a procs_scheme, unit) kf" where
  "tf_set p r v = kbind (pget p p_trapframe) (\<lambda>tf. kstore64 (tf + r) v)"

text \<open>\<^verbatim>\<open>safestrcpy(p->name, ...)\<close>: the bytes behind the copied ones stay.\<close>

definition set_name :: "nat \<Rightarrow> bytes \<Rightarrow> ('a procs_scheme, unit) kf" where
  "set_name p t = pset p (\<lambda>q. let bs = safestrcpy t 16 in q\<lparr>p_name := bs @ drop (length bs) (p_name q)\<rparr>)"

section \<open>Executable files\<close>

definition ELF_MAGIC :: u32 where "ELF_MAGIC = 0x464C457F"
definition ELF_PROG_LOAD :: u32 where "ELF_PROG_LOAD = 1"
definition MAXARG :: nat where "MAXARG = 32"
definition USERSTACK :: u64 where "USERSTACK = 1"

definition get64 :: "u8 list \<Rightarrow> nat \<Rightarrow> u64" where
  "get64 bs o' = ucast (get32 bs o') OR push_bit 32 (ucast (get32 bs (o' + 4)))"

record elfhdr =
  e_magic :: u32
  e_entry :: u64
  e_phoff :: u64
  e_phnum :: u16

definition decode_elfhdr :: "u8 list \<Rightarrow> elfhdr" where
  "decode_elfhdr d = \<lparr>e_magic = get32 d 0, e_entry = get64 d 24, e_phoff = get64 d 32, e_phnum = get16 d 56\<rparr>"

record proghdr =
  ph_type :: u32
  ph_flags :: u32
  ph_off :: u64
  ph_vaddr :: u64
  ph_filesz :: u64
  ph_memsz :: u64

definition decode_proghdr :: "u8 list \<Rightarrow> proghdr" where
  "decode_proghdr d = \<lparr>ph_type = get32 d 0, ph_flags = get32 d 4, ph_off = get64 d 8, ph_vaddr = get64 d 16,
     ph_filesz = get64 d 32, ph_memsz = get64 d 40\<rparr>"

definition flags2perm :: "u32 \<Rightarrow> u64" where
  "flags2perm flags =
     (let perm = (if flags AND 1 \<noteq> 0 then PTE_X else 0) in
      if flags AND 2 \<noteq> 0 then perm OR PTE_W else perm)"

text \<open>The loop passes one page a round; a 32-bit size has at most \<open>2 ^ 20\<close> pages.\<close>

definition loadseg :: "'a itable_scheme env \<Rightarrow> u64 \<Rightarrow> u64 \<Rightarrow> nat \<Rightarrow> u32 \<Rightarrow> u32 \<Rightarrow> ('a itable_scheme, int) kf" where
  "loadseg e pagetable va ip offset sz =
     kloop (2 ^ 20 + 1) (\<lambda>i.
       if \<not> i < sz then kret (Inr 0) else
       kbind (walkaddr pagetable (va + ucast i)) (\<lambda>pa.
       if pa = 0 then panic ''loadseg: address should exist'' else
       let n = (if sz - i < 4096 then sz - i else 4096) in
       kbind (readi e ip (ToMem pa) (offset + i) n) (\<lambda>(r, _).
       if r \<noteq> uint n then kret (Inr (-1)) else kret (Inl (i + 4096))))) 0"

text \<open>
  Loading the segments: \<open>Inr sz\<close> when all are loaded, \<open>Inl sz\<close> for \<^verbatim>\<open>goto bad\<close> with the
  size reached so far.
\<close>

definition load_segment :: "'a itable_scheme env \<Rightarrow> u64 \<Rightarrow> nat \<Rightarrow> proghdr \<Rightarrow> u64 \<Rightarrow> ('a itable_scheme, u64 + u64) kf" where
  "load_segment e pagetable ip ph sz =
     (if ph_type ph \<noteq> ELF_PROG_LOAD then kret (Inr sz)
      else if ph_memsz ph < ph_filesz ph then kret (Inl sz)
      else if ph_vaddr ph + ph_memsz ph < ph_vaddr ph then kret (Inl sz)
      else if ph_vaddr ph mod PGSIZE \<noteq> 0 then kret (Inl sz) else
      kbind (uvmalloc pagetable sz (ph_vaddr ph + ph_memsz ph) (flags2perm (ph_flags ph))) (\<lambda>sz1.
      if sz1 = 0 then kret (Inl sz) else
      kbind (loadseg e pagetable (ph_vaddr ph) ip (ucast (ph_off ph)) (ucast (ph_filesz ph))) (\<lambda>r.
      if r < 0 then kret (Inl sz1) else kret (Inr sz1))))"

fun load_program :: "'a itable_scheme env \<Rightarrow> u64 \<Rightarrow> nat \<Rightarrow> nat \<Rightarrow> u32 \<Rightarrow> u64 \<Rightarrow> ('a itable_scheme, u64 + u64) kf" where
  "load_program e pagetable ip 0 off sz = kret (Inr sz)"
| "load_program e pagetable ip (Suc n) off sz =
     kbind (readi e ip ToBuf off 56) (\<lambda>(r, d).
     if r \<noteq> 56 then kret (Inl sz) else
     kbind (load_segment e pagetable ip (decode_proghdr d) sz) (\<lambda>res. case res of
       Inl sz \<Rightarrow> kret (Inl sz)
     | Inr sz \<Rightarrow> load_program e pagetable ip n (off + 56) sz))"

definition kstrlen :: "u64 \<Rightarrow> ('a kmem_scheme, nat) kf" where
  "kstrlen a = kbind (kgets mem) (\<lambda>m. case strlen (\<lambda>i. m (a + of_nat i)) of
     None \<Rightarrow> spin ''strlen'' | Some n \<Rightarrow> kret n)"

text \<open>
  Pushing the argument strings: \<open>Some (argc, sp, ustack)\<close>, or \<open>None\<close> for \<^verbatim>\<open>goto bad\<close>. The
  loop leaves at the latest when \<open>argc\<close> is \<^verbatim>\<open>MAXARG\<close>.
\<close>

definition push_args :: "u64 \<Rightarrow> u64 \<Rightarrow> (nat \<Rightarrow> u64) \<Rightarrow> u64 \<Rightarrow> ('a kmem_scheme, (nat \<times> u64 \<times> u64 list) option) kf" where
  "push_args pagetable stackbase argv sp =
     kloop (MAXARG + 1) (\<lambda>(argc, sp, ustack).
       if argv argc = 0 then kret (Inr (Some (argc, sp, ustack)))
       else if MAXARG \<le> argc then kret (Inr None) else
       kbind (kstrlen (argv argc)) (\<lambda>len.
       let sp = sp - (of_nat len + 1); sp = sp - sp mod 16 in
       if sp < stackbase then kret (Inr None) else
       kbind (kgets (\<lambda>s. load_bytes (mem s) (argv argc) (len + 1))) (\<lambda>bs.
       kbind (copyout pagetable sp bs) (\<lambda>r.
       if r < 0 then kret (Inr None) else kret (Inl (argc + 1, sp, ustack @ [sp])))))) (0, sp, [])"

definition bytes64 :: "u64 \<Rightarrow> u8 list" where
  "bytes64 w = bytes32 (ucast w) @ bytes32 (ucast (drop_bit 32 w))"

text \<open>The path after its last slash.\<close>

definition last_elem :: "u8 list \<Rightarrow> u8 list" where
  "last_elem path = rev (takeWhile (\<lambda>c. c \<noteq> slash) (rev path))"

definition exec_bad :: "'a itable_scheme env \<Rightarrow> u64 \<Rightarrow> u64 \<Rightarrow> nat option \<Rightarrow> ('a itable_scheme, int) kf" where
  "exec_bad e pagetable sz ipo =
     kseq (kwhen (pagetable \<noteq> 0) (proc_freepagetable pagetable sz)) (
     kseq (case ipo of None \<Rightarrow> kret () | Some ip \<Rightarrow> kseq (iunlockput e ip) (end_op e)) (
     kret (-1)))"

text \<open>The second half of \<open>exec\<close>, once the program is in memory: the stack and the commit.\<close>

definition exec_commit :: "'a itable_scheme env \<Rightarrow> u8 list \<Rightarrow> (nat \<Rightarrow> u64) \<Rightarrow> u64 \<Rightarrow> u64 \<Rightarrow> u64 \<Rightarrow> ('a itable_scheme, int) kf" where
  "exec_commit e path argv pagetable entry sz =
     kbind curproc (\<lambda>p.
     kbind (pget p p_sz) (\<lambda>oldsz.
     let sz = PGROUNDUP sz in
     kbind (uvmalloc pagetable sz (sz + (USERSTACK + 1) * PGSIZE) PTE_W) (\<lambda>sz1.
     if sz1 = 0 then exec_bad e pagetable sz None else
     kseq (uvmclear pagetable (sz1 - (USERSTACK + 1) * PGSIZE)) (
     let stackbase = sz1 - USERSTACK * PGSIZE in
     kbind (push_args pagetable stackbase argv sz1) (\<lambda>res. case res of
       None \<Rightarrow> exec_bad e pagetable sz1 None
     | Some (argc, sp, ustack) \<Rightarrow>
     let sp = sp - of_nat (argc + 1) * 8; sp = sp - sp mod 16 in
     if sp < stackbase then exec_bad e pagetable sz1 None else
     kbind (copyout pagetable sp (concat (map bytes64 (ustack @ [0])))) (\<lambda>r.
     if r < 0 then exec_bad e pagetable sz1 None else
     kseq (tf_set p (TF_a 1) sp) (
     kseq (set_name p (ptr (last_elem path))) (
     kbind (pget p p_pagetable) (\<lambda>oldpagetable.
     kseq (pset p (\<lambda>q. q\<lparr>p_pagetable := pagetable\<rparr>)) (
     kseq (pset p (\<lambda>q. q\<lparr>p_sz := sz1\<rparr>)) (
     kseq (tf_set p TF_epc entry) (
     kseq (tf_set p TF_sp sp) (
     kseq (proc_freepagetable oldpagetable oldsz) (
     kret (int argc)))))))))))))))"

definition exec :: "'a itable_scheme env \<Rightarrow> u8 list \<Rightarrow> (nat \<Rightarrow> u64) \<Rightarrow> ('a itable_scheme, int) kf" where
  "exec e path argv =
     kbind myproc (\<lambda>me.
     kseq (begin_op e) (
     kbind (namei e path) (\<lambda>ipo. case ipo of
       None \<Rightarrow> kseq (end_op e) (kret (-1))
     | Some ip \<Rightarrow>
     kseq (ilock e (Some ip)) (
     kbind (readi e ip ToBuf 0 64) (\<lambda>(r, d).
     if r \<noteq> 64 then exec_bad e 0 0 (Some ip) else
     let elf = decode_elfhdr d in
     if e_magic elf \<noteq> ELF_MAGIC then exec_bad e 0 0 (Some ip) else
     kbind (deref me) (\<lambda>p.
     kbind (proc_pagetable p) (\<lambda>pagetable.
     if pagetable = 0 then exec_bad e 0 0 (Some ip) else
     kbind (load_program e pagetable ip (unat (e_phnum elf)) (ucast (e_phoff elf)) 0) (\<lambda>res. case res of
       Inl sz \<Rightarrow> exec_bad e pagetable sz (Some ip)
     | Inr sz \<Rightarrow>
         kseq (iunlockput e ip) (
         kseq (end_op e) (
         exec_commit e path argv pagetable (e_entry elf) sz))))))))))"

section \<open>Creating and ending processes\<close>

definition initcode :: "u8 list" where
  "initcode = [
     0x17, 0x05, 0x00, 0x00, 0x13, 0x05, 0x45, 0x02,
     0x97, 0x05, 0x00, 0x00, 0x93, 0x85, 0x35, 0x02,
     0x93, 0x08, 0x70, 0x00, 0x73, 0x00, 0x00, 0x00,
     0x93, 0x08, 0x20, 0x00, 0x73, 0x00, 0x00, 0x00,
     0xef, 0xf0, 0x9f, 0xff, 0x2f, 0x69, 0x6e, 0x69,
     0x74, 0x00, 0x00, 0x24, 0x00, 0x00, 0x00, 0x00,
     0x00, 0x00, 0x00, 0x00]"

definition ascii :: "string \<Rightarrow> u8 list" where
  "ascii s = map (\<lambda>c. of_nat (of_char c)) s"

definition userinit :: "'a itable_scheme env \<Rightarrow> ('a itable_scheme, unit) kf" where
  "userinit e =
     kbind allocproc (\<lambda>po.
     kseq (kupd (\<lambda>s. s\<lparr>initproc := po\<rparr>)) (
     kbind (deref po) (\<lambda>p.
     kbind (pget p p_pagetable) (\<lambda>pt. block [
       uvmfirst pt initcode,
       pset p (\<lambda>q. q\<lparr>p_sz := PGSIZE\<rparr>),
       tf_set p TF_epc 0,
       tf_set p TF_sp PGSIZE,
       set_name p (ptr (ascii ''initcode'')),
       kbind (namei e [slash]) (\<lambda>ip. pset p (\<lambda>q. q\<lparr>p_cwd := ip\<rparr>)),
       pset p (\<lambda>q. q\<lparr>p_state := RUNNABLE\<rparr>),
       release (L_proc p)]))))"

definition fork_file :: "nat \<Rightarrow> nat \<Rightarrow> nat \<Rightarrow> ('a ftable_scheme, unit) kf" where
  "fork_file p np i =
     kbind (pget p (\<lambda>q. p_ofile q i)) (\<lambda>fo. case fo of
       None \<Rightarrow> kret ()
     | Some f \<Rightarrow> kbind (filedup f) (\<lambda>f'. pset np (\<lambda>q. q\<lparr>p_ofile := (p_ofile q)(i := Some f')\<rparr>)))"

definition fork :: "('a ftable_scheme, int) kf" where
  "fork =
     kbind curproc (\<lambda>p.
     kbind allocproc (\<lambda>npo. case npo of
       None \<Rightarrow> kret (-1)
     | Some np \<Rightarrow>
     kbind (pget p (\<lambda>q. (p_pagetable q, p_sz q))) (\<lambda>(pt, sz).
     kbind (pget np p_pagetable) (\<lambda>npt.
     kbind (uvmcopy pt npt sz) (\<lambda>r.
     if r < 0 then kseq (freeproc np) (kseq (release (L_proc np)) (kret (-1))) else
     kseq (pset np (\<lambda>q. q\<lparr>p_sz := sz\<rparr>)) (
     kbind (pget p p_trapframe) (\<lambda>tf.
     kbind (pget np p_trapframe) (\<lambda>ntf.
     kbind (kgets (\<lambda>s. load_bytes (mem s) tf TF_size)) (\<lambda>regs.
     kseq (kstore_bytes ntf regs) (
     kseq (tf_set np (TF_a 0) 0) (
     kseq (kfor [0..<NOFILE] (fork_file p np)) (
     kbind (pget p p_cwd) (\<lambda>cwd.
     kbind (deref cwd) (\<lambda>c.
     kbind (idup c) (\<lambda>c'.
     kseq (pset np (\<lambda>q. q\<lparr>p_cwd := Some c'\<rparr>)) (
     kbind (pget p p_name) (\<lambda>name.
     kseq (set_name np (ptr name)) (
     kbind (pget np p_pid) (\<lambda>pid.
     kseq (block [
       release (L_proc np),
       acquire L_wait,
       pset np (\<lambda>q. q\<lparr>p_parent := Some p\<rparr>),
       release L_wait,
       acquire (L_proc np),
       pset np (\<lambda>q. q\<lparr>p_state := RUNNABLE\<rparr>),
       release (L_proc np)]) (
     kret (sint pid)))))))))))))))))))))"

definition exit_close :: "'a ftable_scheme env \<Rightarrow> nat \<Rightarrow> nat \<Rightarrow> ('a ftable_scheme, unit) kf" where
  "exit_close e p fd =
     kbind (pget p (\<lambda>q. p_ofile q fd)) (\<lambda>fo. case fo of
       None \<Rightarrow> kret ()
     | Some f \<Rightarrow> kseq (fileclose e f) (pset p (\<lambda>q. q\<lparr>p_ofile := (p_ofile q)(fd := None)\<rparr>)))"

text \<open>
  \<open>exit\<close> up to the switch to the scheduler, which it does with the lock of the process held, and
  the whole function: \<open>sw\<close> is what happens until this thread runs again, which must not be.
\<close>

definition exit_zombie :: "'a ftable_scheme env \<Rightarrow> cint \<Rightarrow> ('a ftable_scheme, unit) kf" where
  "exit_zombie e status =
     kbind myproc (\<lambda>me.
     kbind (kgets initproc) (\<lambda>ini.
     if me = ini then panic ''init exiting'' else
     kbind (deref me) (\<lambda>p. block [
       kfor [0..<NOFILE] (exit_close e p),
       begin_op e,
       kbind (pget p p_cwd) (\<lambda>cwd. kbind (deref cwd) (iput e)),
       end_op e,
       pset p (\<lambda>q. q\<lparr>p_cwd := None\<rparr>),
       acquire L_wait,
       reparent p,
       kbind (pget p p_parent) (\<lambda>pp. wakeup (map_option ChanProc pp)),
       acquire (L_proc p),
       pset p (\<lambda>q. q\<lparr>p_xstate := status\<rparr>),
       pset p (\<lambda>q. q\<lparr>p_state := ZOMBIE\<rparr>),
       release L_wait])))"

definition exit :: "'a ftable_scheme env \<Rightarrow> ('a ftable_scheme, unit) kf \<Rightarrow> cint \<Rightarrow> ('a ftable_scheme, 'r) kf" where
  "exit e sw status = kseq (exit_zombie e status) (kseq (sched sw) (panic ''zombie exit''))"

end
