(* ===== verification/Xv6_Syscall.thy ===== *)
theory Xv6_Syscall
  imports Xv6_Exec
begin

unbundle bit_operations_syntax

text \<open>
  System calls: fetching arguments and dispatching (\<^verbatim>\<open>syscall.c\<close>, \<^verbatim>\<open>syscall.h\<close>), the calls on
  processes (\<^verbatim>\<open>sysproc.c\<close>) and on files (\<^verbatim>\<open>sysfile.c\<close>, \<^verbatim>\<open>fcntl.h\<close>). The result of a call is the
  64-bit value stored in \<^verbatim>\<open>a0\<close>; -1 is all ones. The message about an unknown call is not modelled.
\<close>

section \<open>Arguments\<close>

definition fetchaddr :: "u64 \<Rightarrow> ('a procs_scheme, u64 option) kf" where
  "fetchaddr addr =
     kbind curproc (\<lambda>p.
     kbind (pget p (\<lambda>q. (p_sz q, p_pagetable q))) (\<lambda>(sz, pt).
     if sz \<le> addr \<or> sz < addr + 8 then kret None else
     kbind (copyin pt addr 8) (\<lambda>(r, bs).
     if r \<noteq> 0 then kret None else kret (Some (get64 bs 0)))))"

text \<open>The result and the bytes stored in the buffer.\<close>

definition fetchstr :: "u64 \<Rightarrow> nat \<Rightarrow> ('a procs_scheme, int \<times> u8 list) kf" where
  "fetchstr addr mx =
     kbind curproc (\<lambda>p.
     kbind (pget p p_pagetable) (\<lambda>pt.
     kbind (copyinstr pt addr (of_nat mx)) (\<lambda>(r, bs).
     if r < 0 then kret (-1, bs)
     else kret (int (length (takeWhile (\<lambda>c. c \<noteq> 0) bs)), bs))))"

definition argraw :: "nat \<Rightarrow> ('a procs_scheme, u64) kf" where
  "argraw n = kbind myproc (\<lambda>me.
     if n < 6 then kbind (case me of None \<Rightarrow> panic ''kerneltrap'' | Some p \<Rightarrow> kret p) (\<lambda>p. tf_get p (TF_a n))
     else panic ''argraw'')"

definition argint :: "nat \<Rightarrow> ('a procs_scheme, cint) kf" where
  "argint n = kbind (argraw n) (\<lambda>v. kret (ucast v))"

definition argaddr :: "nat \<Rightarrow> ('a procs_scheme, u64) kf" where
  "argaddr n = argraw n"

text \<open>The string without its zero, or \<open>None\<close> for a negative result.\<close>

definition argstr :: "nat \<Rightarrow> nat \<Rightarrow> ('a procs_scheme, u8 list option) kf" where
  "argstr n mx =
     kbind (argaddr n) (\<lambda>addr.
     kbind (fetchstr addr mx) (\<lambda>(r, bs).
     kret (if r < 0 then None else Some (take (nat r) bs))))"

section \<open>Calls on processes\<close>

definition sys_exit :: "'a ftable_scheme env \<Rightarrow> ('a ftable_scheme, unit) kf \<Rightarrow> ('a ftable_scheme, u64) kf" where
  "sys_exit e sw = kbind (argint 0) (\<lambda>n. exit e sw n)"

definition sys_getpid :: "('a procs_scheme, u64) kf" where
  "sys_getpid = kbind curproc (\<lambda>p. kbind (pget p p_pid) (\<lambda>pid. kret (scast pid)))"

definition sys_fork :: "('a ftable_scheme, u64) kf" where
  "sys_fork = kbind fork (\<lambda>r. kret (of_int r))"

definition sys_wait :: "'a procs_scheme env \<Rightarrow> ('a procs_scheme, u64) kf" where
  "sys_wait e = kbind (argaddr 0) (\<lambda>p. kbind (wait e p) (\<lambda>r. kret (of_int r)))"

definition sys_sbrk :: "('a procs_scheme, u64) kf" where
  "sys_sbrk =
     kbind (argint 0) (\<lambda>n.
     kbind curproc (\<lambda>p.
     kbind (pget p p_sz) (\<lambda>addr.
     kbind (growproc n) (\<lambda>r.
     if r < 0 then kret (-1) else kret addr))))"

definition sys_sleep :: "'a procs_scheme env \<Rightarrow> ('a procs_scheme, u64) kf" where
  "sys_sleep e =
     kbind (argint 0) (\<lambda>n.
     let n = (if sint n < 0 then 0 else n) in
     kseq (acquire L_ticks) (
     kbind (kgets ticks) (\<lambda>ticks0.
     kwaiting ChanTicks (rounds e) (\<lambda>_.
       kbind (kgets (\<lambda>s. ticks s - ticks0 < n)) (\<lambda>early.
       if \<not> early then kseq (release L_ticks) (kret (Inr 0)) else
       kbind curproc (\<lambda>p.
       kbind (killed p) (\<lambda>k.
       if k \<noteq> 0 then kseq (release L_ticks) (kret (Inr (-1)))
       else kseq (sleep e ChanTicks L_ticks) (kret (Inl ())))))) ())))"

definition sys_kill :: "('a procs_scheme, u64) kf" where
  "sys_kill = kbind (argint 0) (\<lambda>pid. kbind (kill pid) (\<lambda>r. kret (of_int r)))"

definition sys_uptime :: "('a procs_scheme, u64) kf" where
  "sys_uptime =
     kseq (acquire L_ticks) (
     kbind (kgets ticks) (\<lambda>xticks.
     kseq (release L_ticks) (kret (ucast xticks))))"

definition sys_settickets :: "('a procs_scheme, u64) kf" where
  "sys_settickets =
     kbind (argint 0) (\<lambda>n.
     if sint n < 1 then kret (-1) else kseq (settickets n) (kret 0))"

definition sys_setsched :: "('a procs_scheme, u64) kf" where
  "sys_setsched =
     kbind (argint 0) (\<lambda>mode.
     if sint mode \<noteq> 0 \<and> sint mode \<noteq> 1 then kret (-1)
     else kseq (kupd (\<lambda>s. s\<lparr>scheduler_mode := sint mode\<rparr>)) (kret 0))"

section \<open>Calls on open files\<close>

definition MAXPATH :: nat where "MAXPATH = 128"
definition O_RDONLY :: cint where "O_RDONLY = 0"
definition O_WRONLY :: cint where "O_WRONLY = 1"
definition O_RDWR :: cint where "O_RDWR = 2"
definition O_CREATE :: cint where "O_CREATE = 0x200"
definition O_TRUNC :: cint where "O_TRUNC = 0x400"

text \<open>The descriptor and the file, or \<open>None\<close> for \<open>-1\<close>.\<close>

definition argfd :: "nat \<Rightarrow> ('a procs_scheme, (nat \<times> nat) option) kf" where
  "argfd n =
     kbind (argint n) (\<lambda>fd.
     if sint fd < 0 \<or> int NOFILE \<le> sint fd then kret None else
     kbind curproc (\<lambda>p.
     kbind (pget p (\<lambda>q. p_ofile q (unat fd))) (\<lambda>f.
     kret (map_option (\<lambda>f. (unat fd, f)) f))))"

definition fdalloc :: "nat \<Rightarrow> ('a procs_scheme, nat option) kf" where
  "fdalloc f =
     kbind curproc (\<lambda>p.
     kfind [0..<NOFILE] (\<lambda>fd.
       kbind (pget p (\<lambda>q. p_ofile q fd)) (\<lambda>used.
       if used = None then kseq (pset p (\<lambda>q. q\<lparr>p_ofile := (p_ofile q)(fd := Some f)\<rparr>)) (kret (Some fd))
       else kret None)))"

definition sys_dup :: "('a ftable_scheme, u64) kf" where
  "sys_dup =
     kbind (argfd 0) (\<lambda>r. case r of None \<Rightarrow> kret (-1) | Some (_, f) \<Rightarrow>
     kbind (fdalloc f) (\<lambda>r. case r of None \<Rightarrow> kret (-1) | Some fd \<Rightarrow>
     kseq (filedup f) (kret (of_nat fd))))"

definition sys_read :: "'a ftable_scheme env \<Rightarrow> ('a ftable_scheme, u64) kf" where
  "sys_read e =
     kbind (argaddr 1) (\<lambda>p.
     kbind (argint 2) (\<lambda>n.
     kbind (argfd 0) (\<lambda>r. case r of None \<Rightarrow> kret (-1) | Some (_, f) \<Rightarrow>
     kbind (fileread e f p (sint n)) (\<lambda>r. kret (of_int r)))))"

definition sys_write :: "'a ftable_scheme env \<Rightarrow> ('a ftable_scheme, u64) kf" where
  "sys_write e =
     kbind (argaddr 1) (\<lambda>p.
     kbind (argint 2) (\<lambda>n.
     kbind (argfd 0) (\<lambda>r. case r of None \<Rightarrow> kret (-1) | Some (_, f) \<Rightarrow>
     kbind (filewrite e f p (sint n)) (\<lambda>r. kret (of_int r)))))"

definition sys_close :: "'a ftable_scheme env \<Rightarrow> ('a ftable_scheme, u64) kf" where
  "sys_close e =
     kbind (argfd 0) (\<lambda>r. case r of None \<Rightarrow> kret (-1) | Some (fd, f) \<Rightarrow>
     kbind curproc (\<lambda>p.
     kseq (pset p (\<lambda>q. q\<lparr>p_ofile := (p_ofile q)(fd := None)\<rparr>)) (
     kseq (fileclose e f) (kret 0))))"

definition sys_fstat :: "'a ftable_scheme env \<Rightarrow> ('a ftable_scheme, u64) kf" where
  "sys_fstat e =
     kbind (argaddr 1) (\<lambda>st.
     kbind (argfd 0) (\<lambda>r. case r of None \<Rightarrow> kret (-1) | Some (_, f) \<Rightarrow>
     kbind (filestat e f st) (\<lambda>r. kret (of_int r))))"

section \<open>Calls on directories\<close>

text \<open>The label \<open>bad\<close> of \<open>sys_link\<close>.\<close>

definition link_bad :: "'a itable_scheme env \<Rightarrow> nat \<Rightarrow> ('a itable_scheme, u64) kf" where
  "link_bad e ip = kseq (block [
     ilock e (Some ip),
     iset ip (\<lambda>i. i\<lparr>i_nlink := i_nlink i - 1\<rparr>),
     iupdate e ip,
     iunlockput e ip,
     end_op e]) (kret (-1))"

definition sys_link :: "'a itable_scheme env \<Rightarrow> ('a itable_scheme, u64) kf" where
  "sys_link e =
     kbind (argstr 0 MAXPATH) (\<lambda>oldp. case oldp of None \<Rightarrow> kret (-1) | Some old \<Rightarrow>
     kbind (argstr 1 MAXPATH) (\<lambda>newp. case newp of None \<Rightarrow> kret (-1) | Some new \<Rightarrow>
     kseq (begin_op e) (
     kbind (namei e old) (\<lambda>ipo. case ipo of None \<Rightarrow> kseq (end_op e) (kret (-1)) | Some ip \<Rightarrow>
     kseq (ilock e (Some ip)) (
     kbind (iget_field ip i_type) (\<lambda>ty.
     if ty = T_DIR then kseq (iunlockput e ip) (kseq (end_op e) (kret (-1))) else
     kseq (iset ip (\<lambda>i. i\<lparr>i_nlink := i_nlink i + 1\<rparr>)) (
     kseq (iupdate e ip) (
     kseq (iunlock (Some ip)) (
     kbind (nameiparent e new) (\<lambda>dpo. case dpo of None \<Rightarrow> link_bad e ip | Some (dp, name) \<Rightarrow>
     kseq (ilock e (Some dp)) (
     kbind (kgets (\<lambda>s. (i_dev (inodes s dp) = i_dev (inodes s ip), i_inum (inodes s ip)))) (\<lambda>(same, inum).
     kbind (if \<not> same then kret (-1) else dirlink e dp name inum) (\<lambda>r.
     if r < 0 then kseq (iunlockput e dp) (link_bad e ip) else
     kseq (iunlockput e dp) (
     kseq (iput e ip) (
     kseq (end_op e) (kret 0))))))))))))))))"

definition isdirempty :: "'a itable_scheme env \<Rightarrow> nat \<Rightarrow> ('a itable_scheme, bool) kf" where
  "isdirempty e dp =
     kbind (iget_field dp i_size) (\<lambda>sz.
     kloop (2 ^ 28 + 1) (\<lambda>off.
       if \<not> off < sz then kret (Inr True) else
       kbind (readi e dp ToBuf off 16) (\<lambda>(r, de).
       if r \<noteq> 16 then panic ''isdirempty: readi''
       else if de_inum de \<noteq> 0 then kret (Inr False) else kret (Inl (off + 16)))) 32)"

definition unlink_bad :: "'a itable_scheme env \<Rightarrow> nat \<Rightarrow> ('a itable_scheme, u64) kf" where
  "unlink_bad e dp = kseq (iunlockput e dp) (kseq (end_op e) (kret (-1)))"

definition sys_unlink :: "'a itable_scheme env \<Rightarrow> ('a itable_scheme, u64) kf" where
  "sys_unlink e =
     kbind (argstr 0 MAXPATH) (\<lambda>po. case po of None \<Rightarrow> kret (-1) | Some path \<Rightarrow>
     kseq (begin_op e) (
     kbind (nameiparent e path) (\<lambda>dpo. case dpo of None \<Rightarrow> kseq (end_op e) (kret (-1)) | Some (dp, name) \<Rightarrow>
     kseq (ilock e (Some dp)) (
     if namecmp name (ascii ''.'') = 0 \<or> namecmp name (ascii ''..'') = 0 then unlink_bad e dp else
     kbind (dirlookup e dp name) (\<lambda>found. case found of None \<Rightarrow> unlink_bad e dp | Some (ip, off) \<Rightarrow>
     kseq (ilock e (Some ip)) (
     kbind (iget_field ip (\<lambda>i. (i_nlink i, i_type i))) (\<lambda>(nlink, ty).
     if sint nlink < 1 then panic ''unlink: nlink < 1'' else
     kbind (if ty = T_DIR then isdirempty e ip else kret True) (\<lambda>removable.
     if \<not> removable then kseq (iunlockput e ip) (unlink_bad e dp) else
     kbind (writei e dp (FromBuf (replicate 16 0)) off 16) (\<lambda>r.
     if r \<noteq> 16 then panic ''unlink: writei'' else
     kseq (block [
       kwhen (ty = T_DIR) (kseq (iset dp (\<lambda>i. i\<lparr>i_nlink := i_nlink i - 1\<rparr>)) (iupdate e dp)),
       iunlockput e dp,
       iset ip (\<lambda>i. i\<lparr>i_nlink := i_nlink i - 1\<rparr>),
       iupdate e ip,
       iunlockput e ip,
       end_op e]) (kret 0))))))))))"

text \<open>Failure after the inode has been allocated.\<close>

definition create_fail :: "'a itable_scheme env \<Rightarrow> nat \<Rightarrow> nat \<Rightarrow> ('a itable_scheme, nat option) kf" where
  "create_fail e ip dp = kseq (block [
     iset ip (\<lambda>i. i\<lparr>i_nlink := 0\<rparr>),
     iupdate e ip,
     iunlockput e ip,
     iunlockput e dp]) (kret None)"

text \<open>The \<open>.\<close> and \<open>..\<close> entries of a new directory; negative if one cannot be made.\<close>

definition link_dots :: "'a itable_scheme env \<Rightarrow> nat \<Rightarrow> nat \<Rightarrow> ('a itable_scheme, int) kf" where
  "link_dots e ip dp =
     kbind (kgets (\<lambda>s. (i_inum (inodes s ip), i_inum (inodes s dp)))) (\<lambda>(inum, pinum).
     kbind (dirlink e ip (ascii ''.'') inum) (\<lambda>r.
     if r < 0 then kret r else dirlink e ip (ascii ''..'') pinum))"

definition create :: "'a itable_scheme env \<Rightarrow> u8 list \<Rightarrow> u16 \<Rightarrow> u16 \<Rightarrow> u16 \<Rightarrow> ('a itable_scheme, nat option) kf" where
  "create e path ty major minor =
     kbind (nameiparent e path) (\<lambda>dpo. case dpo of None \<Rightarrow> kret None | Some (dp, name) \<Rightarrow>
     kseq (ilock e (Some dp)) (
     kbind (dirlookup e dp name) (\<lambda>found. case found of
       Some (ip, _) \<Rightarrow>
         kseq (iunlockput e dp) (
         kseq (ilock e (Some ip)) (
         kbind (iget_field ip i_type) (\<lambda>ity.
         if ty = T_FILE \<and> (ity = T_FILE \<or> ity = T_DEVICE) then kret (Some ip)
         else kseq (iunlockput e ip) (kret None))))
     | None \<Rightarrow>
     kbind (iget_field dp i_dev) (\<lambda>dev.
     kbind (ialloc e dev ty) (\<lambda>ipo. case ipo of None \<Rightarrow> kseq (iunlockput e dp) (kret None) | Some ip \<Rightarrow>
     kseq (block [
       ilock e (Some ip),
       iset ip (\<lambda>i. i\<lparr>i_major := major\<rparr>),
       iset ip (\<lambda>i. i\<lparr>i_minor := minor\<rparr>),
       iset ip (\<lambda>i. i\<lparr>i_nlink := 1\<rparr>),
       iupdate e ip]) (
     kbind (if ty = T_DIR then link_dots e ip dp else kret 0) (\<lambda>r.
     if r < 0 then create_fail e ip dp else
     kbind (iget_field ip i_inum) (\<lambda>inum.
     kbind (dirlink e dp name inum) (\<lambda>r.
     if r < 0 then create_fail e ip dp else
     kseq (kwhen (ty = T_DIR) (kseq (iset dp (\<lambda>i. i\<lparr>i_nlink := i_nlink i + 1\<rparr>)) (iupdate e dp))) (
     kseq (iunlockput e dp) (
     kret (Some ip))))))))))))"

section \<open>Opening files\<close>

definition open_fail :: "'a itable_scheme env \<Rightarrow> nat \<Rightarrow> ('a itable_scheme, u64) kf" where
  "open_fail e ip = kseq (iunlockput e ip) (kseq (end_op e) (kret (-1)))"

text \<open>Finding or creating the inode, which is returned locked.\<close>

definition open_inode :: "'a itable_scheme env \<Rightarrow> u8 list \<Rightarrow> cint \<Rightarrow> ('a itable_scheme, nat option) kf" where
  "open_inode e path omode =
     (if omode AND O_CREATE \<noteq> 0 then
        kbind (create e path T_FILE 0 0) (\<lambda>ipo. case ipo of
          None \<Rightarrow> kseq (end_op e) (kret None)
        | Some ip \<Rightarrow> kret (Some ip))
      else
        kbind (namei e path) (\<lambda>ipo. case ipo of None \<Rightarrow> kseq (end_op e) (kret None) | Some ip \<Rightarrow>
        kseq (ilock e (Some ip)) (
        kbind (iget_field ip i_type) (\<lambda>ty.
        if ty = T_DIR \<and> omode \<noteq> O_RDONLY then kseq (iunlockput e ip) (kseq (end_op e) (kret None))
        else kret (Some ip)))))"

definition c_bool :: "bool \<Rightarrow> u8" where
  "c_bool b = (if b then 1 else 0)"

definition sys_open :: "'a ftable_scheme env \<Rightarrow> ('a ftable_scheme, u64) kf" where
  "sys_open e =
     kbind (argint 1) (\<lambda>omode.
     kbind (argstr 0 MAXPATH) (\<lambda>po. case po of None \<Rightarrow> kret (-1) | Some path \<Rightarrow>
     kseq (begin_op e) (
     kbind (open_inode e path omode) (\<lambda>ipo. case ipo of None \<Rightarrow> kret (-1) | Some ip \<Rightarrow>
     kbind (iget_field ip (\<lambda>i. (i_type i, i_major i))) (\<lambda>(ty, major).
     if ty = T_DEVICE \<and> (sint major < 0 \<or> int NDEV \<le> sint major) then open_fail e ip else
     kbind filealloc (\<lambda>fo. case fo of None \<Rightarrow> open_fail e ip | Some f \<Rightarrow>
     kbind (fdalloc f) (\<lambda>fdo. case fdo of None \<Rightarrow> kseq (fileclose e f) (open_fail e ip) | Some fd \<Rightarrow>
     kseq (block [
       (if ty = T_DEVICE then
          kseq (fset f (\<lambda>x. x\<lparr>f_type := FD_DEVICE\<rparr>)) (fset f (\<lambda>x. x\<lparr>f_major := major\<rparr>))
        else kseq (fset f (\<lambda>x. x\<lparr>f_type := FD_INODE\<rparr>)) (fset f (\<lambda>x. x\<lparr>f_off := 0\<rparr>))),
       fset f (\<lambda>x. x\<lparr>f_ip := Some ip\<rparr>),
       fset f (\<lambda>x. x\<lparr>f_readable := c_bool (omode AND O_WRONLY = 0)\<rparr>),
       fset f (\<lambda>x. x\<lparr>f_writable := c_bool (omode AND O_WRONLY \<noteq> 0 \<or> omode AND O_RDWR \<noteq> 0)\<rparr>),
       kwhen (omode AND O_TRUNC \<noteq> 0 \<and> ty = T_FILE) (itrunc e ip),
       iunlock (Some ip),
       end_op e]) (kret (of_nat fd)))))))))"

text \<open>\<open>sys_mkdir\<close> and \<open>sys_mknod\<close> fetch the path inside the transaction.\<close>

definition make_node :: "'a itable_scheme env \<Rightarrow> u16 \<Rightarrow> u16 \<Rightarrow> u16 \<Rightarrow> ('a itable_scheme, u64) kf" where
  "make_node e ty major minor =
     kbind (argstr 0 MAXPATH) (\<lambda>po. case po of None \<Rightarrow> kseq (end_op e) (kret (-1)) | Some path \<Rightarrow>
     kbind (create e path ty major minor) (\<lambda>ipo. case ipo of
       None \<Rightarrow> kseq (end_op e) (kret (-1))
     | Some ip \<Rightarrow> kseq (iunlockput e ip) (kseq (end_op e) (kret 0))))"

definition sys_mkdir :: "'a itable_scheme env \<Rightarrow> ('a itable_scheme, u64) kf" where
  "sys_mkdir e = kseq (begin_op e) (make_node e T_DIR 0 0)"

definition sys_mknod :: "'a itable_scheme env \<Rightarrow> ('a itable_scheme, u64) kf" where
  "sys_mknod e =
     kseq (begin_op e) (
     kbind (argint 1) (\<lambda>major.
     kbind (argint 2) (\<lambda>minor.
     make_node e T_DEVICE (ucast major) (ucast minor))))"

definition sys_chdir :: "'a itable_scheme env \<Rightarrow> ('a itable_scheme, u64) kf" where
  "sys_chdir e =
     kbind myproc (\<lambda>me.
     kseq (begin_op e) (
     kbind (argstr 0 MAXPATH) (\<lambda>po. case po of None \<Rightarrow> kseq (end_op e) (kret (-1)) | Some path \<Rightarrow>
     kbind (namei e path) (\<lambda>ipo. case ipo of None \<Rightarrow> kseq (end_op e) (kret (-1)) | Some ip \<Rightarrow>
     kseq (ilock e (Some ip)) (
     kbind (iget_field ip i_type) (\<lambda>ty.
     if ty \<noteq> T_DIR then kseq (iunlockput e ip) (kseq (end_op e) (kret (-1))) else
     kseq (iunlock (Some ip)) (
     kbind (deref me) (\<lambda>p.
     kbind (pget p p_cwd) (\<lambda>cwd.
     kbind (deref cwd) (\<lambda>c.
     kseq (iput e c) (
     kseq (end_op e) (
     kseq (pset p (\<lambda>q. q\<lparr>p_cwd := Some ip\<rparr>)) (
     kret 0)))))))))))))"

section \<open>Executing programs and making pipes\<close>

text \<open>
  The argument vector is the list of the pages allocated for it. \<open>True\<close> if the whole vector was
  fetched. The loop leaves at the latest when \<open>i\<close> is \<^verbatim>\<open>NELEM(argv)\<close>.
\<close>

definition fetch_args :: "u64 \<Rightarrow> ('a procs_scheme, bool \<times> u64 list) kf" where
  "fetch_args uargv =
     kloop (MAXARG + 1) (\<lambda>argv.
       if MAXARG \<le> length argv then kret (Inr (False, argv)) else
       kbind (fetchaddr (uargv + 8 * of_nat (length argv))) (\<lambda>r. case r of
         None \<Rightarrow> kret (Inr (False, argv))
       | Some uarg \<Rightarrow>
       if uarg = 0 then kret (Inr (True, argv)) else
       kbind kalloc (\<lambda>pg.
       if pg = 0 then kret (Inr (False, argv)) else
       kbind (fetchstr uarg 4096) (\<lambda>(r, bs).
       kseq (kstore_bytes pg bs) (
       if r < 0 then kret (Inr (False, argv @ [pg])) else kret (Inl (argv @ [pg]))))))) []"

definition sys_exec :: "'a itable_scheme env \<Rightarrow> ('a itable_scheme, u64) kf" where
  "sys_exec e =
     kbind (argaddr 1) (\<lambda>uargv.
     kbind (argstr 0 MAXPATH) (\<lambda>po. case po of None \<Rightarrow> kret (-1) | Some path \<Rightarrow>
     kbind (fetch_args uargv) (\<lambda>(ok, argv).
     kbind (if ok then exec e path (\<lambda>i. if i < length argv then argv ! i else 0) else kret (-1)) (\<lambda>ret.
     kseq (kfor argv kfree) (
     kret (of_int ret))))))"

definition sys_pipe :: "'a ftable_scheme env \<Rightarrow> ('a ftable_scheme, u64) kf" where
  "sys_pipe e =
     kbind myproc (\<lambda>me.
     kbind (argaddr 0) (\<lambda>fdarray.
     kbind (pipealloc e) (\<lambda>r. case r of None \<Rightarrow> kret (-1) | Some (rfile, wfile) \<Rightarrow>
     kbind (deref me) (\<lambda>p.
     let drop_fd = \<lambda>fd. pset p (\<lambda>q. q\<lparr>p_ofile := (p_ofile q)(fd := None)\<rparr>);
         close_both = kseq (fileclose e rfile) (kseq (fileclose e wfile) (kret (-1))) in
     kbind (fdalloc rfile) (\<lambda>r0. case r0 of None \<Rightarrow> close_both | Some fd0 \<Rightarrow>
     kbind (fdalloc wfile) (\<lambda>r1. case r1 of None \<Rightarrow> kseq (drop_fd fd0) close_both | Some fd1 \<Rightarrow>
     kbind (pget p p_pagetable) (\<lambda>pt.
     kbind (copyout pt fdarray (bytes32 (of_nat fd0))) (\<lambda>r.
     kbind (if r < 0 then kret r else copyout pt (fdarray + 4) (bytes32 (of_nat fd1))) (\<lambda>r.
     if r < 0 then kseq (drop_fd fd0) (kseq (drop_fd fd1) close_both) else kret 0)))))))))"

section \<open>Dispatch\<close>

definition syscalls :: "'a ftable_scheme env \<Rightarrow> ('a ftable_scheme, unit) kf \<Rightarrow> int \<Rightarrow> ('a ftable_scheme, u64) kf option" where
  "syscalls e sw num =
     (if num = 1 then Some sys_fork
      else if num = 2 then Some (sys_exit e sw)
      else if num = 3 then Some (sys_wait e)
      else if num = 4 then Some (sys_pipe e)
      else if num = 5 then Some (sys_read e)
      else if num = 6 then Some sys_kill
      else if num = 7 then Some (sys_exec e)
      else if num = 8 then Some (sys_fstat e)
      else if num = 9 then Some (sys_chdir e)
      else if num = 10 then Some sys_dup
      else if num = 11 then Some sys_getpid
      else if num = 12 then Some sys_sbrk
      else if num = 13 then Some (sys_sleep e)
      else if num = 14 then Some sys_uptime
      else if num = 15 then Some (sys_open e)
      else if num = 16 then Some (sys_write e)
      else if num = 17 then Some (sys_mknod e)
      else if num = 18 then Some (sys_unlink e)
      else if num = 19 then Some (sys_link e)
      else if num = 20 then Some (sys_mkdir e)
      else if num = 21 then Some (sys_close e)
      else if num = 22 then Some sys_settickets
      else if num = 23 then Some sys_setsched
      else None)"

definition syscall :: "'a ftable_scheme env \<Rightarrow> ('a ftable_scheme, unit) kf \<Rightarrow> ('a ftable_scheme, unit) kf" where
  "syscall e sw =
     kbind curproc (\<lambda>p.
     kbind (tf_get p (TF_a 7)) (\<lambda>a7.
     case syscalls e sw (sint (ucast a7 :: cint)) of
       Some f \<Rightarrow> kbind f (\<lambda>r. tf_set p (TF_a 0) r)
     | None \<Rightarrow> tf_set p (TF_a 0) (-1)))"

end
