(* ===== verification/Xv6_Trap.thy ===== *)
theory Xv6_Trap
  imports Xv6_Syscall
begin

unbundle bit_operations_syntax

text \<open>
  Traps, interrupts and booting (\<^verbatim>\<open>trap.c\<close>, \<^verbatim>\<open>plic.c\<close>, \<^verbatim>\<open>start.c\<close>, \<^verbatim>\<open>main.c\<close>, \<open>forkret\<close> of \<^verbatim>\<open>proc.c\<close>, the
  control registers of \<^verbatim>\<open>riscv.h\<close>). Each hart has its own control registers. The interrupt
  controller is outside the repository: \<open>plic_dev\<close> gives the value of a register as a function of
  the accesses so far. The assembly code that a function ends in (\<^verbatim>\<open>userret\<close>, \<^verbatim>\<open>mret\<close>) is not modelled:
  \<open>usertrapret\<close> returns the address it jumps to and the argument in \<^verbatim>\<open>a0\<close>.
\<close>

section \<open>Control registers\<close>

record csrs =
  c_stvec :: u64
  c_sepc :: u64
  c_scause :: u64
  c_stval :: u64
  c_stimecmp :: u64
  c_time :: u64
  c_sie :: u64
  c_mstatus :: u64
  c_mepc :: u64
  c_medeleg :: u64
  c_mideleg :: u64
  c_mie :: u64
  c_menvcfg :: u64
  c_mcounteren :: u64
  c_pmpaddr0 :: u64
  c_pmpcfg0 :: u64

datatype plic_access = PlicRead u64 | PlicWrite u64 u32

record trap = ftable +
  csr :: "nat \<Rightarrow> csrs"
  mhartid :: nat
  plic_dev :: "plic_access list \<Rightarrow> u64 \<Rightarrow> u32"
  plic_io :: "plic_access list"
  first :: int             \<comment> \<open>the static variable of \<open>forkret\<close>\<close>
  started :: int
  kernelvec :: u64
  uservec :: u64
  userret :: u64
  usertrap_addr :: u64
  main_addr :: u64

definition r_csr :: "(csrs \<Rightarrow> u64) \<Rightarrow> ('a trap_scheme, u64) kf" where
  "r_csr r = kgets (\<lambda>s. r (csr s (tp s)))"

definition w_csr :: "(csrs \<Rightarrow> csrs) \<Rightarrow> ('a trap_scheme, unit) kf" where
  "w_csr f = kupd (\<lambda>s. s\<lparr>csr := (csr s)(tp s := f (csr s (tp s)))\<rparr>)"

definition r_sstatus :: "('a mach_scheme, u64) kf" where
  "r_sstatus = kgets (\<lambda>s. sstatus s (tp s))"

definition w_sstatus :: "u64 \<Rightarrow> ('a mach_scheme, unit) kf" where
  "w_sstatus x = kupd (\<lambda>s. s\<lparr>sstatus := (sstatus s)(tp s := x)\<rparr>)"

definition w_stvec :: "u64 \<Rightarrow> ('a trap_scheme, unit) kf" where
  "w_stvec x = w_csr (\<lambda>c. c\<lparr>c_stvec := x\<rparr>)"

definition w_sepc :: "u64 \<Rightarrow> ('a trap_scheme, unit) kf" where
  "w_sepc x = w_csr (\<lambda>c. c\<lparr>c_sepc := x\<rparr>)"

definition w_stimecmp :: "u64 \<Rightarrow> ('a trap_scheme, unit) kf" where
  "w_stimecmp x = w_csr (\<lambda>c. c\<lparr>c_stimecmp := x\<rparr>)"

section \<open>Interrupt controller\<close>

definition UART0_IRQ :: nat where "UART0_IRQ = 10"
definition VIRTIO0_IRQ :: nat where "VIRTIO0_IRQ = 1"
definition PLIC_SENABLE :: "nat \<Rightarrow> u64" where "PLIC_SENABLE hart = PLIC + 0x2080 + of_nat hart * 0x100"
definition PLIC_SPRIORITY :: "nat \<Rightarrow> u64" where "PLIC_SPRIORITY hart = PLIC + 0x201000 + of_nat hart * 0x2000"
definition PLIC_SCLAIM :: "nat \<Rightarrow> u64" where "PLIC_SCLAIM hart = PLIC + 0x201004 + of_nat hart * 0x2000"

definition plic_read :: "u64 \<Rightarrow> ('a trap_scheme, u32) kf" where
  "plic_read r = kbind (kgets (\<lambda>s. plic_dev s (plic_io s) r)) (\<lambda>v.
     kseq (kupd (\<lambda>s. s\<lparr>plic_io := plic_io s @ [PlicRead r]\<rparr>)) (kret v))"

definition plic_write :: "u64 \<Rightarrow> u32 \<Rightarrow> ('a trap_scheme, unit) kf" where
  "plic_write r v = kupd (\<lambda>s. s\<lparr>plic_io := plic_io s @ [PlicWrite r v]\<rparr>)"

definition plicinit :: "('a trap_scheme, unit) kf" where
  "plicinit = block [
     plic_write (PLIC + of_nat UART0_IRQ * 4) 1,
     plic_write (PLIC + of_nat VIRTIO0_IRQ * 4) 1]"

definition plicinithart :: "('a trap_scheme, unit) kf" where
  "plicinithart = kbind cpuid (\<lambda>hart. block [
     plic_write (PLIC_SENABLE hart) (push_bit UART0_IRQ 1 OR push_bit VIRTIO0_IRQ 1),
     plic_write (PLIC_SPRIORITY hart) 0])"

definition plic_claim :: "('a trap_scheme, u32) kf" where
  "plic_claim = kbind cpuid (\<lambda>hart. plic_read (PLIC_SCLAIM hart))"

definition plic_complete :: "u32 \<Rightarrow> ('a trap_scheme, unit) kf" where
  "plic_complete irq = kbind cpuid (\<lambda>hart. plic_write (PLIC_SCLAIM hart) irq)"

section \<open>Traps\<close>

definition trapinit :: "('a mach_scheme, unit) kf" where
  "trapinit = initlock L_ticks ''time''"

definition trapinithart :: "('a trap_scheme, unit) kf" where
  "trapinithart = kbind (kgets kernelvec) w_stvec"

definition clockintr :: "('a trap_scheme, unit) kf" where
  "clockintr = block [
     kbind cpuid (\<lambda>hart. kwhen (hart = 0) (block [
       acquire L_ticks,
       kupd (\<lambda>s. s\<lparr>ticks := ticks s + 1\<rparr>),
       wakeup (Some ChanTicks),
       release L_ticks])),
     kbind (r_csr c_time) (\<lambda>t. w_stimecmp (t + 1000000))]"

definition devintr :: "'a trap_scheme env \<Rightarrow> device_regs \<Rightarrow> ('a trap_scheme, int) kf" where
  "devintr e vdev =
     kbind (r_csr c_scause) (\<lambda>scause.
     if scause = 0x8000000000000009 then
       kbind plic_claim (\<lambda>irq.
       kseq (if unat irq = UART0_IRQ then uartintr e
             else if unat irq = VIRTIO0_IRQ then virtio_disk_intr vdev else kret ()) (
       kseq (kwhen (irq \<noteq> 0) (plic_complete irq)) (
       kret 1)))
     else if scause = 0x8000000000000005 then kseq clockintr (kret 2)
     else kret 0)"

definition usertrapret :: "('a trap_scheme, u64 \<times> u64) kf" where
  "usertrapret =
     kbind curproc (\<lambda>p.
     kseq intr_off (
     kbind (kgets (\<lambda>s. TRAMPOLINE + (uservec s - trampoline s))) (\<lambda>tuv.
     kseq (w_stvec tuv) (
     kbind (kgets (\<lambda>s. satp s (tp s))) (\<lambda>ksatp.
     kseq (tf_set p TF_kernel_satp ksatp) (
     kbind (pget p p_kstack) (\<lambda>kstack.
     kseq (tf_set p TF_kernel_sp (kstack + PGSIZE)) (
     kbind (kgets usertrap_addr) (\<lambda>ut.
     kseq (tf_set p TF_kernel_trap ut) (
     kbind cpuid (\<lambda>hart.
     kseq (tf_set p TF_kernel_hartid (of_nat hart)) (
     kbind r_sstatus (\<lambda>x.
     kseq (w_sstatus ((x AND NOT SSTATUS_SPP) OR SSTATUS_SPIE)) (
     kbind (tf_get p TF_epc) (\<lambda>epc.
     kseq (w_sepc epc) (
     kbind (pget p p_pagetable) (\<lambda>pt.
     kgets (\<lambda>s. (TRAMPOLINE + (userret s - trampoline s), MAKE_SATP pt)))))))))))))))))))"

text \<open>What \<open>usertrap\<close> does with the cause of the trap: the device number, as \<^verbatim>\<open>which_dev\<close>.\<close>

definition usertrap_cause :: "'a trap_scheme env \<Rightarrow> device_regs \<Rightarrow> ('a trap_scheme, unit) kf \<Rightarrow> nat \<Rightarrow> ('a trap_scheme, int) kf" where
  "usertrap_cause e vdev sw p =
     kbind (r_csr c_scause) (\<lambda>scause.
     if scause = 8 then
       kbind (killed p) (\<lambda>k.
       kseq (kwhen (k \<noteq> 0) (exit e sw (-1))) (
       kbind (tf_get p TF_epc) (\<lambda>epc.
       kseq (tf_set p TF_epc (epc + 4)) (
       kseq intr_on (
       kseq (syscall e sw) (
       kret 0))))))
     else
       kbind (devintr e vdev) (\<lambda>which_dev.
       kseq (kwhen (which_dev = 0) (setkilled p)) (
       kret which_dev)))"

definition usertrap :: "'a trap_scheme env \<Rightarrow> device_regs \<Rightarrow> ('a trap_scheme, unit) kf \<Rightarrow> ('a trap_scheme, u64 \<times> u64) kf" where
  "usertrap e vdev sw =
     kbind r_sstatus (\<lambda>x.
     if x AND SSTATUS_SPP \<noteq> 0 then panic ''usertrap: not from user mode'' else
     kseq trapinithart (
     kbind curproc (\<lambda>p.
     kbind (r_csr c_sepc) (\<lambda>sepc.
     kseq (tf_set p TF_epc sepc) (
     kbind (usertrap_cause e vdev sw p) (\<lambda>which_dev.
     kbind (killed p) (\<lambda>k.
     kseq (kwhen (k \<noteq> 0) (exit e sw (-1))) (
     kseq (kwhen (which_dev = 2) (yield sw)) (
     usertrapret)))))))))"

definition kerneltrap_proc :: "'a trap_scheme env \<Rightarrow> device_regs \<Rightarrow> ('a trap_scheme, unit) kf \<Rightarrow> ('a trap_scheme, unit) kf" where
  "kerneltrap_proc e vdev sw =
     kbind (r_csr c_sepc) (\<lambda>sepc.
     kbind r_sstatus (\<lambda>x.
     if x AND SSTATUS_SPP = 0 then panic ''kerneltrap: not from supervisor mode'' else
     kbind intr_get (\<lambda>on.
     if on \<noteq> 0 then panic ''kerneltrap: interrupts enabled'' else
     kbind (devintr e vdev) (\<lambda>which_dev.
     if which_dev = 0 then panic ''kerneltrap'' else
     kseq (kwhen (which_dev = 2) (kbind myproc (\<lambda>me. kwhen (me \<noteq> None) (yield sw)))) (
     kseq (w_sepc sepc) (
     w_sstatus x))))))"

definition forkret :: "'a trap_scheme env \<Rightarrow> ('a trap_scheme, u64 \<times> u64) kf" where
  "forkret e =
     kbind curproc (\<lambda>p.
     kseq (release (L_proc p)) (
     kbind (kgets first) (\<lambda>f.
     kseq (kwhen (f \<noteq> 0) (kseq (fsinit e ROOTDEV) (kupd (\<lambda>s. s\<lparr>first := 0\<rparr>)))) (
     usertrapret))))"

section \<open>Booting\<close>

definition MSTATUS_MPP_MASK :: u64 where "MSTATUS_MPP_MASK = push_bit 11 3"
definition MSTATUS_MPP_S :: u64 where "MSTATUS_MPP_S = push_bit 11 1"
definition SIE_SEIE :: u64 where "SIE_SEIE = push_bit 9 1"
definition SIE_STIE :: u64 where "SIE_STIE = push_bit 5 1"
definition SIE_SSIE :: u64 where "SIE_SSIE = push_bit 1 1"
definition MIE_STIE :: u64 where "MIE_STIE = push_bit 5 1"

text \<open>Machine-mode code runs before \<^verbatim>\<open>tp\<close> is set; its registers are those of hart \<^verbatim>\<open>mhartid\<close>.\<close>

definition m_csr :: "(csrs \<Rightarrow> csrs) \<Rightarrow> ('a trap_scheme, unit) kf" where
  "m_csr f = kupd (\<lambda>s. s\<lparr>csr := (csr s)(mhartid s := f (csr s (mhartid s)))\<rparr>)"

definition timerinit :: "('a trap_scheme, unit) kf" where
  "timerinit = block [
     m_csr (\<lambda>c. c\<lparr>c_mie := c_mie c OR MIE_STIE\<rparr>),
     m_csr (\<lambda>c. c\<lparr>c_menvcfg := c_menvcfg c OR push_bit 63 1\<rparr>),
     m_csr (\<lambda>c. c\<lparr>c_mcounteren := c_mcounteren c OR 2\<rparr>),
     m_csr (\<lambda>c. c\<lparr>c_stimecmp := c_time c + 1000000\<rparr>)]"

definition start :: "('a trap_scheme, unit) kf" where
  "start = block [
     m_csr (\<lambda>c. c\<lparr>c_mstatus := (c_mstatus c AND NOT MSTATUS_MPP_MASK) OR MSTATUS_MPP_S\<rparr>),
     kbind (kgets main_addr) (\<lambda>a. m_csr (\<lambda>c. c\<lparr>c_mepc := a\<rparr>)),
     kupd (\<lambda>s. s\<lparr>satp := (satp s)(mhartid s := 0)\<rparr>),
     m_csr (\<lambda>c. c\<lparr>c_medeleg := 0xffff\<rparr>),
     m_csr (\<lambda>c. c\<lparr>c_mideleg := 0xffff\<rparr>),
     m_csr (\<lambda>c. c\<lparr>c_sie := c_sie c OR SIE_SEIE OR SIE_STIE OR SIE_SSIE\<rparr>),
     m_csr (\<lambda>c. c\<lparr>c_pmpaddr0 := 0x3fffffffffffff\<rparr>),
     m_csr (\<lambda>c. c\<lparr>c_pmpcfg0 := 0xf\<rparr>),
     timerinit,
     kupd (\<lambda>s. s\<lparr>tp := mhartid s\<rparr>)]"

text \<open>\<open>main\<close> up to the call of the scheduler, without the console messages.\<close>

definition main_init :: "'a trap_scheme env \<Rightarrow> device_regs \<Rightarrow> ('a trap_scheme, unit) kf" where
  "main_init e vdev =
     kbind cpuid (\<lambda>hart.
     if hart = 0 then block [
       consoleinit,
       kinit,
       kvminit,
       kvminithart,
       procinit,
       trapinit,
       trapinithart,
       plicinit,
       plicinithart,
       binit,
       iinit,
       fileinit,
       virtio_disk_init vdev,
       userinit e,
       kupd (\<lambda>s. s\<lparr>started := 1\<rparr>)]
     else block [
       kloop (rounds e) (\<lambda>_. kgets (\<lambda>s. if started s = 0 then Inl () else Inr ())) (),
       kvminithart,
       trapinithart,
       plicinithart])"

definition main :: "'a trap_scheme env \<Rightarrow> device_regs \<Rightarrow> (nat \<Rightarrow> ('a trap_scheme, unit) kf) \<Rightarrow> nat \<Rightarrow> ('a trap_scheme, unit) kf" where
  "main e vdev run n = kseq (main_init e vdev) (scheduler run n)"

end
