(* ===== verification/Xv6_Pagetable.thy ===== *)
theory Xv6_Pagetable
  imports Xv6_Vm
begin

unbundle bit_operations_syntax

text \<open>
  What the page-table functions of \<^verbatim>\<open>vm.c\<close> compute. The tree of page-table pages that the memory
  holds below a root is described by the pages it occupies (\<open>tpages\<close>) and by its well-formedness
  (\<open>twf\<close>: the pages of different subtrees are different); \<open>vmap\<close> reads off the entry of each virtual
  address. \<open>walk\<close> then grows the tree without changing any entry, and \<open>mappages\<close> changes exactly the
  entries of its range. On top of that, what the copies between kernel and user memory transfer.
\<close>

section \<open>Entries of a page\<close>

definition ent :: "memory \<Rightarrow> u64 \<Rightarrow> nat \<Rightarrow> u64" where
  "ent m pg i = load64 m (pg + 8 * of_nat i)"

abbreviation px :: "nat \<Rightarrow> u64 \<Rightarrow> nat" where
  "px l va \<equiv> unat (PX l va)"

definition valid :: "u64 \<Rightarrow> bool" where
  "valid pte \<longleftrightarrow> pte AND PTE_V \<noteq> 0"

definition same_page :: "memory \<Rightarrow> memory \<Rightarrow> u64 \<Rightarrow> bool" where
  "same_page m m' pg \<longleftrightarrow> (\<forall>b. unat b div 4096 = unat pg div 4096 \<longrightarrow> m' b = m b)"

lemma pte_addr_px: "pte_addr pg l va = pg + 8 * of_nat (px l va)"
  by (simp add: pte_addr_def)

lemma ent_offset: "(8 * of_nat i :: u64) + of_nat k = of_nat (8 * i + k)"
  by simp

lemma load64_ent_cong:
  assumes "pg_aligned pg" "i < 512" "same_page m m' pg"
  shows "ent m' pg i = ent m pg i"
  unfolding ent_def
proof (rule load64_cong)
  fix k :: nat assume "k < 8"
  then have "8 * i + k < 4096" using assms(2) by simp
  then have "unat (pg + of_nat (8 * i + k)) div 4096 = unat pg div 4096"
    by (rule page_offset [OF assms(1)])
  then show "m' (pg + 8 * of_nat i + of_nat k) = m (pg + 8 * of_nat i + of_nat k)"
    using assms(3) by (simp add: same_page_def add.assoc ent_offset del: of_nat_add of_nat_mult)
qed

lemma unat_add_of_nat: "unat a + k < 18446744073709551616 \<Longrightarrow> unat (a + of_nat k :: u64) = unat a + k"
  by (subst unat_add_u64) (simp_all add: unat_of_nat_u64)

lemma page_end:
  assumes "pg_aligned pg"
  shows "unat pg + 4096 \<le> 18446744073709551616"
proof -
  from assms obtain k where k: "unat pg = 4096 * k" by (auto simp: pg_aligned_iff dvd_def)
  with u64_bound [of pg] have "k < 4503599627370496" by linarith
  with k show ?thesis by linarith
qed

lemma ent_in_page:
  assumes "pg_aligned pg" "i < 512"
  shows "unat (pg + 8 * of_nat i) = unat pg + 8 * i"
proof -
  have "unat pg + 4096 \<le> 18446744073709551616" using assms(1) by (rule page_end)
  then show ?thesis
    using assms(2) by (subst unat_add_u64; subst unat_mult_u64) (simp_all add: unat_of_nat_u64)
qed

lemma ent_store64:
  assumes "pg_aligned pg" "i < 512" "j < 512"
  shows "ent (store64 m (pg + 8 * of_nat i) v) pg j = (if i = j then v else ent m pg j)"
proof (cases "i = j")
  case False
  have "store64 m (pg + 8 * of_nat i) v (pg + 8 * of_nat j + of_nat k) = m (pg + 8 * of_nat j + of_nat k)" if "k < 8" for k
  proof -
    have "\<not> unat ((pg + 8 * of_nat j + of_nat k) - (pg + 8 * of_nat i)) < 8"
    proof
      assume l: "unat ((pg + 8 * of_nat j + of_nat k) - (pg + 8 * of_nat i)) < 8"
      have e: "(pg + 8 * of_nat j + of_nat k) - (pg + 8 * of_nat i) = (of_nat (8 * j + k) - of_nat (8 * i) :: u64)"
        by simp
      from l have "unat (of_nat (8 * j + k) - of_nat (8 * i) :: u64) < 8" unfolding e .
      moreover have "unat (of_nat (8 * j + k) :: u64) = 8 * j + k" "unat (of_nat (8 * i) :: u64) = 8 * i"
        using assms that by (simp_all only: unat_of_nat_u64)
      ultimately show False
        using False that assms by (auto simp: unat_sub_if_size word_size split: if_splits)
    qed
    then show ?thesis by (simp add: store64_at)
  qed
  with False show ?thesis unfolding ent_def by (auto intro: load64_cong)
qed (simp add: ent_def)

lemma store64_in_page:
  assumes "pg_aligned pg" "i < 512" "unat b div 4096 \<noteq> unat pg div 4096"
  shows "store64 m (pg + 8 * of_nat i) v b = m b"
proof -
  have "\<not> unat (b - (pg + 8 * of_nat i)) < 8"
  proof
    assume l: "unat (b - (pg + 8 * of_nat i)) < 8"
    define k where "k = unat (b - (pg + 8 * of_nat i))"
    have "b = pg + 8 * of_nat i + of_nat k" by (simp add: k_def)
    then have "b = pg + of_nat (8 * i + k)" by simp
    moreover have "8 * i + k < 4096" using l assms(2) by (simp add: k_def)
    ultimately show False using page_offset [OF assms(1), of "8 * i + k"] assms(3) by simp
  qed
  then show ?thesis by (simp add: store64_at)
qed

section \<open>Trees of page-table pages\<close>

fun tpages :: "memory \<Rightarrow> nat \<Rightarrow> u64 \<Rightarrow> u64 set" where
  "tpages m 0 pg = {pg}"
| "tpages m (Suc l) pg =
     insert pg (\<Union>i\<in>{..<512}. if valid (ent m pg i) then tpages m l (PTE2PA (ent m pg i)) else {})"

fun twf :: "memory \<Rightarrow> nat \<Rightarrow> u64 \<Rightarrow> bool" where
  "twf m 0 pg \<longleftrightarrow> pg_aligned pg \<and> pg \<noteq> 0"
| "twf m (Suc l) pg \<longleftrightarrow> pg_aligned pg \<and> pg \<noteq> 0 \<and>
     (\<forall>i<512. valid (ent m pg i) \<longrightarrow>
        twf m l (PTE2PA (ent m pg i)) \<and> pg \<notin> tpages m l (PTE2PA (ent m pg i)) \<and>
        (\<forall>j<512. j \<noteq> i \<longrightarrow> valid (ent m pg j) \<longrightarrow>
           tpages m l (PTE2PA (ent m pg i)) \<inter> tpages m l (PTE2PA (ent m pg j)) = {}))"

text \<open>The address of the last-level entry for an address, and the entry itself; 0 if there is none.\<close>

fun leaf_addr :: "memory \<Rightarrow> nat \<Rightarrow> u64 \<Rightarrow> u64 \<Rightarrow> u64 option" where
  "leaf_addr m 0 pg va = Some (pte_addr pg 0 va)"
| "leaf_addr m (Suc l) pg va =
     (if valid (ent m pg (px (Suc l) va)) then leaf_addr m l (PTE2PA (ent m pg (px (Suc l) va))) va else None)"

definition leaf :: "memory \<Rightarrow> nat \<Rightarrow> u64 \<Rightarrow> u64 \<Rightarrow> u64" where
  "leaf m l pg va = (case leaf_addr m l pg va of None \<Rightarrow> 0 | Some a \<Rightarrow> load64 m a)"

definition vmap :: "memory \<Rightarrow> u64 \<Rightarrow> u64 \<Rightarrow> u64" where
  "vmap m pt va = leaf m 2 pt va"

lemma leaf_0: "leaf m 0 pg va = ent m pg (px 0 va)"
  by (simp add: leaf_def ent_def pte_addr_px)

lemma leaf_Suc: "leaf m (Suc l) pg va =
    (if valid (ent m pg (px (Suc l) va)) then leaf m l (PTE2PA (ent m pg (px (Suc l) va))) va else 0)"
  by (simp add: leaf_def)

lemma twf_root: "twf m l pg \<Longrightarrow> pg_aligned pg \<and> pg \<noteq> 0"
  by (cases l) auto

lemma root_tpages [simp]: "pg \<in> tpages m l pg"
  by (cases l) auto

lemma twf_aligned: "twf m l pg \<Longrightarrow> x \<in> tpages m l pg \<Longrightarrow> pg_aligned x \<and> x \<noteq> 0"
  by (induction l arbitrary: pg) (auto split: if_splits)

lemma tpages_Suc_iff:
  "x \<in> tpages m (Suc l) pg \<longleftrightarrow> x = pg \<or> (\<exists>i<512. valid (ent m pg i) \<and> x \<in> tpages m l (PTE2PA (ent m pg i)))"
  by (auto split: if_splits)

lemma twf_disjoint:
  "twf m (Suc l) pg \<Longrightarrow> i < 512 \<Longrightarrow> j < 512 \<Longrightarrow> i \<noteq> j \<Longrightarrow> valid (ent m pg i) \<Longrightarrow> valid (ent m pg j) \<Longrightarrow>
   x \<in> tpages m l (PTE2PA (ent m pg i)) \<Longrightarrow> x \<notin> tpages m l (PTE2PA (ent m pg j))"
  by auto

lemma twf_child:
  "twf m (Suc l) pg \<Longrightarrow> i < 512 \<Longrightarrow> valid (ent m pg i) \<Longrightarrow>
   twf m l (PTE2PA (ent m pg i)) \<and> pg \<notin> tpages m l (PTE2PA (ent m pg i))"
  by auto

lemma px_less [simp]: "px l va < 512"
  by (rule PX_less)

lemma tpages_Suc_cong:
  assumes "\<And>i. i < 512 \<Longrightarrow> ent m' pg i = ent m pg i"
    and "\<And>i. i < 512 \<Longrightarrow> valid (ent m pg i) \<Longrightarrow> tpages m' l (PTE2PA (ent m pg i)) = tpages m l (PTE2PA (ent m pg i))"
  shows "tpages m' (Suc l) pg = tpages m (Suc l) pg"
  unfolding tpages.simps by (intro arg_cong [where f = "insert pg"] SUP_cong) (auto simp: assms)

text \<open>A tree depends only on the pages it occupies.\<close>

lemma tree_frame:
  assumes "twf m l pg" "\<And>x. x \<in> tpages m l pg \<Longrightarrow> same_page m m' x"
  shows "tpages m' l pg = tpages m l pg \<and> twf m' l pg \<and> leaf_addr m' l pg va = leaf_addr m l pg va
    \<and> leaf m' l pg va = leaf m l pg va"
  using assms
proof (induction l arbitrary: pg)
  case 0
  then show ?case by (simp add: leaf_0 load64_ent_cong)
next
  case (Suc l)
  have e: "ent m' pg i = ent m pg i" if "i < 512" for i
    using Suc.prems that by (intro load64_ent_cong) auto
  have c: "tpages m' l (PTE2PA (ent m pg i)) = tpages m l (PTE2PA (ent m pg i)) \<and> twf m' l (PTE2PA (ent m pg i)) \<and>
      leaf_addr m' l (PTE2PA (ent m pg i)) va = leaf_addr m l (PTE2PA (ent m pg i)) va \<and>
      leaf m' l (PTE2PA (ent m pg i)) va = leaf m l (PTE2PA (ent m pg i)) va"
    if "i < 512" "valid (ent m pg i)" for i
    using Suc.prems that by (intro Suc.IH) (auto intro!: Suc.prems(2))
  have "tpages m' (Suc l) pg = tpages m (Suc l) pg" by (rule tpages_Suc_cong) (simp_all add: e c)
  moreover have "twf m' (Suc l) pg" using Suc.prems(1) by (simp add: e c)
  moreover have "leaf_addr m' (Suc l) pg va = leaf_addr m (Suc l) pg va" by (simp add: e c)
  moreover have "leaf m' (Suc l) pg va = leaf m (Suc l) pg va" by (simp add: leaf_Suc e c)
  ultimately show ?case by simp
qed

text \<open>A page of zeros is an empty tree.\<close>

lemma tree_zero:
  assumes "pg_aligned pg" "pg \<noteq> 0" "\<And>i. i < 512 \<Longrightarrow> ent m pg i = 0"
  shows "tpages m l pg = {pg} \<and> twf m l pg \<and> leaf m l pg va = 0"
  using assms by (cases l) (auto simp: leaf_0 leaf_Suc valid_def)

lemma leaf_addr_page:
  assumes "twf m l pg" "leaf_addr m l pg va = Some a"
  shows "\<exists>x\<in>tpages m l pg. a = x + 8 * of_nat (px 0 va) \<and> pg_aligned x \<and> x \<noteq> 0"
  using assms
proof (induction l arbitrary: pg)
  case (Suc l)
  let ?i = "px (Suc l) va"
  have v: "valid (ent m pg ?i)" and c: "leaf_addr m l (PTE2PA (ent m pg ?i)) va = Some a"
    using Suc.prems(2) by (simp_all split: if_splits)
  moreover have "twf m l (PTE2PA (ent m pg ?i))" using Suc.prems(1) v by simp
  ultimately obtain x where "x \<in> tpages m l (PTE2PA (ent m pg ?i))" "a = x + 8 * of_nat (px 0 va)" "pg_aligned x" "x \<noteq> 0"
    using Suc.IH by blast
  moreover have "x \<in> tpages m (Suc l) pg" using calculation(1) v by (auto intro!: bexI [of _ ?i])
  ultimately show ?case by blast
qed (auto simp: pte_addr_px)

text \<open>Replacing the last-level entry of an address changes the entries of no other page.\<close>

lemma tree_set_leaf:
  assumes "twf m l pg" "leaf_addr m l pg va = Some a"
  shows "tpages (store64 m a v) l pg = tpages m l pg \<and> twf (store64 m a v) l pg \<and>
    (\<forall>x. pg_aligned x \<longrightarrow> x \<notin> tpages m l pg \<longrightarrow> same_page m (store64 m a v) x) \<and>
    leaf (store64 m a v) l pg vb =
      (if \<forall>k\<le>l. px k vb = px k va then v else leaf m l pg vb)"
  using assms
proof (induction l arbitrary: pg)
  case 0
  obtain i where i: "px 0 va = i" "i < 512" using px_less [of 0 va] by blast
  then have a: "a = pg + 8 * of_nat i" using 0 by (simp add: pte_addr_px)
  have "same_page m (store64 m a v) x" if "pg_aligned x" "x \<noteq> pg" for x
    unfolding same_page_def a using 0 i that by (auto simp: store64_in_page aligned_page_eq)
  moreover have "ent (store64 m a v) pg j = (if i = j then v else ent m pg j)" if "j < 512" for j
    unfolding a using 0 i that by (intro ent_store64) auto
  ultimately show ?case using 0 i by (auto simp: leaf_0)
next
  case (Suc l)
  let ?m = "store64 m a v" and ?i = "px (Suc l) va"
  let ?c = "PTE2PA (ent m pg ?i)"
  have al: "pg_aligned pg" using Suc.prems(1) by simp
  have v: "valid (ent m pg ?i)" and la: "leaf_addr m l ?c va = Some a"
    using Suc.prems(2) by (simp_all split: if_splits)
  have wf: "twf m l ?c" "pg \<notin> tpages m l ?c" using Suc.prems(1) v by auto
  note IH = Suc.IH [OF wf(1) la]
  have "same_page m ?m pg" using IH al wf(2) by blast
  then have e: "ent ?m pg j = ent m pg j" if "j < 512" for j
    using al that by (intro load64_ent_cong)
  have o: "tpages ?m l d = tpages m l d \<and> twf ?m l d \<and> leaf_addr ?m l d vb = leaf_addr m l d vb \<and> leaf ?m l d vb = leaf m l d vb"
    if "j < 512" "j \<noteq> ?i" "valid (ent m pg j)" "d = PTE2PA (ent m pg j)" for j d
  proof (rule tree_frame)
    show wd: "twf m l d" using twf_child [OF Suc.prems(1)] that by simp
    fix x assume x: "x \<in> tpages m l d"
    have "x \<notin> tpages m l ?c"
      using twf_disjoint [OF Suc.prems(1) that(1) px_less that(2,3) v] x that(4) by simp
    then show "same_page m ?m x" using IH twf_aligned [OF wd x] by simp
  qed
  have pages: "tpages ?m l (PTE2PA (ent m pg j)) = tpages m l (PTE2PA (ent m pg j))"
    "twf ?m l (PTE2PA (ent m pg j))" if "j < 512" "valid (ent m pg j)" for j
    using IH o [of j] that by (cases "j = ?i"; simp)+
  have "tpages ?m (Suc l) pg = tpages m (Suc l) pg"
    by (rule tpages_Suc_cong) (simp_all add: e pages)
  moreover have "twf ?m (Suc l) pg" using Suc.prems(1) by (simp add: e pages)
  moreover have "same_page m ?m x" if "pg_aligned x" "x \<notin> tpages m (Suc l) pg" for x
    using IH that v by (auto split: if_splits)
  moreover have "leaf ?m (Suc l) pg vb = (if \<forall>k\<le>Suc l. px k vb = px k va then v else leaf m (Suc l) pg vb)"
  proof (cases "px (Suc l) vb = ?i")
    case True
    then show ?thesis using IH v by (auto simp: leaf_Suc e le_Suc_eq)
  next
    case False
    then show ?thesis using o [of "px (Suc l) vb"] by (auto simp: leaf_Suc e)
  qed
  ultimately show ?case by blast
qed

section \<open>Walking a tree\<close>

lemma walk_loop_lookup:
  "walk_loop l pg va False s = Inr (case leaf_addr (mem s) l pg va of None \<Rightarrow> 0 | Some a \<Rightarrow> a, s)"
  by (induction l arbitrary: pg) (simp_all add: k_simps kload64_def ent_def pte_addr_px valid_def del: of_nat_unat)

text \<open>A state with a page table in it, and the list of free pages; and a later one in which the tree has grown.\<close>

definition pt_state :: "'a kmem_scheme \<Rightarrow> u64 list \<Rightarrow> nat \<Rightarrow> u64 \<Rightarrow> bool" where
  "pt_state s fl l pg \<longleftrightarrow> kmem_rep s fl \<and> avail L_kmem s \<and> twf (mem s) l pg \<and> tpages (mem s) l pg \<inter> set fl = {}"

definition grows :: "'a kmem_scheme \<Rightarrow> u64 list \<Rightarrow> nat \<Rightarrow> u64 \<Rightarrow> 'a kmem_scheme \<Rightarrow> u64 list \<Rightarrow> bool" where
  "grows s fl l pg t rest \<longleftrightarrow> (\<exists>used. fl = used @ rest \<and> pt_state t rest l pg \<and> kend t = kend s \<and>
     tpages (mem t) l pg = tpages (mem s) l pg \<union> set used \<and>
     (\<forall>x. pg_aligned x \<longrightarrow> x \<notin> tpages (mem s) l pg \<union> set used \<longrightarrow> same_page (mem s) (mem t) x) \<and>
     (\<forall>va. leaf (mem t) l pg va = leaf (mem s) l pg va))"

lemma same_page_refl [simp]: "same_page m m x"
  by (simp add: same_page_def)

lemma same_page_trans: "same_page m1 m2 x \<Longrightarrow> same_page m2 m3 x \<Longrightarrow> same_page m1 m3 x"
  by (simp add: same_page_def)

lemma grows_refl: "pt_state s fl l pg \<Longrightarrow> grows s fl l pg s fl"
  by (auto simp: grows_def)

lemma grows_trans:
  assumes "grows s fl l pg t fl'" "grows t fl' l pg u fl''"
  shows "grows s fl l pg u fl''"
proof -
  from assms(1) obtain us where u: "fl = us @ fl'" "kend t = kend s"
    "tpages (mem t) l pg = tpages (mem s) l pg \<union> set us"
    "\<And>x. pg_aligned x \<Longrightarrow> x \<notin> tpages (mem s) l pg \<union> set us \<Longrightarrow> same_page (mem s) (mem t) x"
    "\<And>va. leaf (mem t) l pg va = leaf (mem s) l pg va"
    unfolding grows_def by blast
  from assms(2) obtain us' where u': "fl' = us' @ fl''" "pt_state u fl'' l pg" "kend u = kend t"
    "tpages (mem u) l pg = tpages (mem t) l pg \<union> set us'"
    "\<And>x. pg_aligned x \<Longrightarrow> x \<notin> tpages (mem t) l pg \<union> set us' \<Longrightarrow> same_page (mem t) (mem u) x"
    "\<And>va. leaf (mem u) l pg va = leaf (mem t) l pg va"
    unfolding grows_def by blast
  have "same_page (mem s) (mem u) x" if "pg_aligned x" "x \<notin> tpages (mem s) l pg \<union> set (us @ us')" for x
    using u(3) that by (intro same_page_trans [OF u(4) u'(5)]) simp_all
  moreover have "tpages (mem u) l pg = tpages (mem s) l pg \<union> set (us @ us')" using u(3) u'(4) by (simp add: Un_assoc)
  ultimately show ?thesis
    using u(1,2,5) u'(1,2,3,6) unfolding grows_def by (intro exI [of _ "us @ us'"]) simp
qed

text \<open>Growing a subtree grows the tree.\<close>

lemma grows_child:
  assumes "pt_state s fl (Suc l) pg" and i: "i < 512" "valid (ent (mem s) pg i)"
    and "grows s fl l (PTE2PA (ent (mem s) pg i)) t rest"
  shows "grows s fl (Suc l) pg t rest \<and> (\<forall>j<512. ent (mem t) pg j = ent (mem s) pg j)"
proof -
  let ?c = "\<lambda>j. PTE2PA (ent (mem s) pg j)"
  from assms(4) obtain us where us: "fl = us @ rest" "pt_state t rest l (?c i)" "kend t = kend s"
    "tpages (mem t) l (?c i) = tpages (mem s) l (?c i) \<union> set us"
    "\<And>x. pg_aligned x \<Longrightarrow> x \<notin> tpages (mem s) l (?c i) \<union> set us \<Longrightarrow> same_page (mem s) (mem t) x"
    "\<And>va. leaf (mem t) l (?c i) va = leaf (mem s) l (?c i) va"
    unfolding grows_def by blast
  from assms(1) have wf: "twf (mem s) (Suc l) pg" and fl: "tpages (mem s) (Suc l) pg \<inter> set fl = {}"
    by (auto simp: pt_state_def)
  have sub: "tpages (mem s) l (?c j) \<subseteq> tpages (mem s) (Suc l) pg" if "j < 512" "valid (ent (mem s) pg j)" for j
    unfolding subset_iff tpages_Suc_iff using that by blast
  have al: "pg_aligned pg" "pg \<notin> set fl" using wf fl by auto
  have "same_page (mem s) (mem t) pg"
    using twf_child [OF wf i] al us(1) by (intro us(5)) auto
  then have e: "ent (mem t) pg j = ent (mem s) pg j" if "j < 512" for j
    using al(1) that by (intro load64_ent_cong)
  have o: "tpages (mem t) l (?c j) = tpages (mem s) l (?c j) \<and> twf (mem t) l (?c j) \<and>
      leaf_addr (mem t) l (?c j) va = leaf_addr (mem s) l (?c j) va \<and> leaf (mem t) l (?c j) va = leaf (mem s) l (?c j) va"
    if j: "j < 512" "j \<noteq> i" "valid (ent (mem s) pg j)" for j va
  proof (rule tree_frame)
    show wj: "twf (mem s) l (?c j)" using twf_child [OF wf j(1,3)] by simp
    fix x assume x: "x \<in> tpages (mem s) l (?c j)"
    then have "x \<notin> tpages (mem s) l (?c i)" using twf_disjoint [OF wf j(1) i(1) j(2,3) i(2)] by simp
    moreover have "x \<notin> set us" using sub [OF j(1,3)] x fl us(1) by auto
    ultimately show "same_page (mem s) (mem t) x" using twf_aligned [OF wj x] by (intro us(5)) auto
  qed
  have wt: "twf (mem t) l (?c i)" using us(2) by (simp add: pt_state_def)
  have tp: "x \<in> tpages (mem t) l (?c j) \<longleftrightarrow> x \<in> tpages (mem s) l (?c j) \<or> j = i \<and> x \<in> set us"
    if "j < 512" "valid (ent (mem s) pg j)" for j x
    using us(4) o [of j] that by (cases "j = i") simp_all
  have "x \<in> tpages (mem t) (Suc l) pg \<longleftrightarrow> x \<in> tpages (mem s) (Suc l) pg \<or> x \<in> set us" for x
    unfolding tpages_Suc_iff using i by (simp add: e tp cong: conj_cong) blast
  then have "tpages (mem t) (Suc l) pg = tpages (mem s) (Suc l) pg \<union> set us" by blast
  moreover have "twf (mem t) (Suc l) pg"
  proof -
    have "twf (mem t) l (?c j) \<and> pg \<notin> tpages (mem t) l (?c j) \<and>
        (\<forall>k<512. k \<noteq> j \<longrightarrow> valid (ent (mem s) pg k) \<longrightarrow> tpages (mem t) l (?c j) \<inter> tpages (mem t) l (?c k) = {})"
      if j: "j < 512" "valid (ent (mem s) pg j)" for j
    proof (intro conjI allI impI)
      show "twf (mem t) l (?c j)" using wt o j by (cases "j = i") auto
      show "pg \<notin> tpages (mem t) l (?c j)" using tp [OF j] twf_child [OF wf j] al us(1) by simp
      fix k assume k: "k < 512" "k \<noteq> j" "valid (ent (mem s) pg k)"
      have "x \<notin> set us" if "x \<in> tpages (mem s) l (?c k')" "k' < 512" "valid (ent (mem s) pg k')" for x k'
        using sub [OF that(2,3)] that(1) fl us(1) by auto
      then show "tpages (mem t) l (?c j) \<inter> tpages (mem t) l (?c k) = {}"
        using tp [OF j] tp [OF k(1,3)] twf_disjoint [OF wf j(1) k(1) _ j(2) k(3)] j k by blast
    qed
    with wf show ?thesis by (simp add: e)
  qed
  moreover have "leaf (mem t) (Suc l) pg va = leaf (mem s) (Suc l) pg va" for va
    using us(6) o [of "px (Suc l) va"] by (cases "px (Suc l) va = i") (auto simp: leaf_Suc e)
  moreover have "same_page (mem s) (mem t) x"
    if "pg_aligned x" "x \<notin> tpages (mem s) (Suc l) pg \<union> set us" for x
    using us(5) that sub [OF i] by blast
  moreover have "tpages (mem t) (Suc l) pg \<inter> set rest = {}"
    using calculation(1) fl us(1) assms(1) by (auto simp: pt_state_def kmem_rep_def)
  ultimately show ?thesis
    using us(1-3) e unfolding grows_def pt_state_def by (intro conjI exI [of _ us]) simp_all
qed

text \<open>A fresh page of zeros, linked into a free entry.\<close>

lemma ent_zeroed:
  assumes "pg_aligned x" "i < 512" "\<And>b. unat b div 4096 = unat x div 4096 \<Longrightarrow> m b = 0"
  shows "ent m x i = 0"
proof -
  have "ent m x i = ent (\<lambda>_. 0) x i"
    using assms by (intro load64_ent_cong) (auto simp: same_page_def)
  also have "\<dots> = 0" by (simp add: ent_def load64_def upt_conv_Cons)
  finally show ?thesis .
qed

lemma valid_link: "valid (PA2PTE x OR PTE_V)"
proof -
  have "bit ((PA2PTE x OR PTE_V) AND PTE_V) 0" by (simp add: PTE_V_def bit_simps)
  then show ?thesis unfolding valid_def by auto
qed

lemma page_ok_link: "page_ok e x \<Longrightarrow> PTE2PA (PA2PTE x OR PTE_V) = x"
  by (rule PTE2PA_roundtrip)
    (auto simp: page_ok_def PTE_V_def PHYSTOP_val word_less_nat_alt)

lemma grows_link:
  assumes st: "pt_state s (x # xs) (Suc l) pg" and i: "i < 512" "\<not> valid (ent (mem s) pg i)"
    and s1: "kmem_rep s1 xs" "avail L_kmem s1" "kend s1 = kend s" "page_ok (kend s) x" "same_outside (mem s) (mem s1) x"
    and t: "t = s1\<lparr>mem := store64 (memset (mem s1) x 0 4096) (pg + 8 * of_nat i) (PA2PTE x OR PTE_V)\<rparr>"
  shows "grows s (x # xs) (Suc l) pg t xs \<and> ent (mem t) pg i = PA2PTE x OR PTE_V"
proof -
  let ?m = "mem s" and ?z = "memset (mem s1) x 0 4096"
  let ?v = "PA2PTE x OR PTE_V"
  have mt: "mem t = store64 ?z (pg + 8 * of_nat i) ?v" by (simp add: t)
  from st have wf: "twf ?m (Suc l) pg" and fl: "tpages ?m (Suc l) pg \<inter> set (x # xs) = {}" and dx: "x \<notin> set xs"
    by (auto simp: pt_state_def kmem_rep_def)
  have al: "pg_aligned pg" "pg_aligned x" "x \<noteq> 0" "pg \<noteq> x" "pg \<notin> set xs"
    using wf fl s1(4) by (auto simp: page_ok_def)
  have z: "same_page ?m ?z y" if "pg_aligned y" "y \<noteq> x" for y
    using that al(2) s1(5) aligned_page_eq [of y x]
    by (auto simp: same_page_def same_outside_def memset_other_page)
  have zt: "same_page ?z (mem t) y" if "pg_aligned y" "y \<noteq> pg" for y
    using that al(1) i(1) aligned_page_eq [of y pg] by (auto simp: same_page_def mt store64_in_page)
  have same: "same_page ?m (mem t) y" if "pg_aligned y" "y \<noteq> x" "y \<noteq> pg" for y
    using z zt that same_page_trans by blast
  have "ent ?z pg j = ent ?m pg j" if "j < 512" for j
    using load64_ent_cong [OF al(1) that z] al by blast
  then have e: "ent (mem t) pg j = (if i = j then ?v else ent ?m pg j)" if "j < 512" for j
    using ent_store64 [OF al(1) i(1) that, of ?z ?v] that by (simp add: mt)
  have "ent (mem t) x j = 0" if "j < 512" for j
  proof -
    have "ent ?z x j = 0"
      using al(2) that by (rule ent_zeroed) (simp add: memset_at in_page_iff al(2))
    moreover have "ent (mem t) x j = ent ?z x j"
      using al by (intro load64_ent_cong [OF al(2) that zt]) auto
    ultimately show ?thesis by simp
  qed
  then have new: "tpages (mem t) l x = {x}" "twf (mem t) l x" "leaf (mem t) l x va = 0" for va
    using tree_zero [OF al(2,3)] by blast+
  let ?c = "\<lambda>j. PTE2PA (ent ?m pg j)"
  have sub: "y \<in> tpages ?m (Suc l) pg" if "y \<in> tpages ?m l (?c j)" "j < 512" "valid (ent ?m pg j)" for y j
    unfolding tpages_Suc_iff using that by blast
  have o: "tpages (mem t) l (?c j) = tpages ?m l (?c j) \<and> twf (mem t) l (?c j) \<and>
      leaf_addr (mem t) l (?c j) va = leaf_addr ?m l (?c j) va \<and> leaf (mem t) l (?c j) va = leaf ?m l (?c j) va"
    if j: "j < 512" "valid (ent ?m pg j)" for j va
  proof (rule tree_frame)
    show wj: "twf ?m l (?c j)" using twf_child [OF wf j] by simp
    fix y assume y: "y \<in> tpages ?m l (?c j)"
    then have "y \<noteq> pg" "y \<noteq> x" using twf_child [OF wf j] sub [OF y j] fl by auto
    then show "same_page ?m (mem t) y" using twf_aligned [OF wj y] by (intro same) auto
  qed
  have lk: "PTE2PA ?v = x" "valid ?v" using page_ok_link [OF s1(4)] valid_link by simp_all
  have "y \<in> tpages (mem t) (Suc l) pg \<longleftrightarrow> y \<in> tpages ?m (Suc l) pg \<or> y = x" for y
    unfolding tpages_Suc_iff using i new(1) lk o e by (auto split: if_splits)
  then have pages: "tpages (mem t) (Suc l) pg = tpages ?m (Suc l) pg \<union> set [x]" by auto
  have "twf (mem t) (Suc l) pg"
  proof -
    have "twf (mem t) l (PTE2PA (ent (mem t) pg j)) \<and> pg \<notin> tpages (mem t) l (PTE2PA (ent (mem t) pg j)) \<and>
        (\<forall>k<512. k \<noteq> j \<longrightarrow> valid (ent (mem t) pg k) \<longrightarrow>
          tpages (mem t) l (PTE2PA (ent (mem t) pg j)) \<inter> tpages (mem t) l (PTE2PA (ent (mem t) pg k)) = {})"
      if j: "j < 512" "valid (ent (mem t) pg j)" for j
    proof -
      have T: "tpages (mem t) l (PTE2PA (ent (mem t) pg k)) = (if k = i then {x} else tpages ?m l (?c k)) \<and>
          twf (mem t) l (PTE2PA (ent (mem t) pg k)) \<and> (k \<noteq> i \<longrightarrow> valid (ent ?m pg k))"
        if "k < 512" "valid (ent (mem t) pg k)" for k
      proof (cases "k = i")
        case True
        then show ?thesis using e [OF i(1)] new lk by simp
      next
        case False
        then show ?thesis using e [OF that(1)] o [OF that(1)] that(2) by simp
      qed
      have "x \<notin> tpages ?m l (?c k)" if "k < 512" "valid (ent ?m pg k)" for k
        using sub that fl by auto
      then have "tpages (mem t) l (PTE2PA (ent (mem t) pg j)) \<inter> tpages (mem t) l (PTE2PA (ent (mem t) pg k)) = {}"
        if "k < 512" "k \<noteq> j" "valid (ent (mem t) pg k)" for k
        using T [OF j] T [OF that(1,3)] twf_disjoint [OF wf j(1) that(1) that(2) [symmetric]] j(1) that(1,2)
        by (cases "j = i"; cases "k = i"; simp add: disjoint_iff)
      then show ?thesis using T [OF j] twf_child [OF wf j(1)] al(4) by simp
    qed
    with al wf show ?thesis by simp
  qed
  moreover have "leaf (mem t) (Suc l) pg va = leaf ?m (Suc l) pg va" for va
    using new lk o [of "px (Suc l) va"] i by (cases "px (Suc l) va = i") (simp_all add: leaf_Suc e)
  moreover have "kmem_rep t xs"
  proof -
    have "kmem_rep (s1\<lparr>mem := ?z\<rparr>) xs"
      by (rule kmem_rep_write [OF s1(1) al(2) dx]) (rule memset_other_page [OF al(2)])
    from kmem_rep_write [OF this al(1,5), of "mem t"] store64_in_page [OF al(1) i(1)]
    show ?thesis by (simp add: t)
  qed
  moreover have "same_page ?m (mem t) y" if "pg_aligned y" "y \<notin> tpages ?m (Suc l) pg \<union> set [x]" for y
    using that by (intro same) (auto simp: tpages_Suc_iff)
  moreover have "tpages (mem t) (Suc l) pg \<inter> set xs = {}" using pages fl dx by auto
  moreover have "avail L_kmem t" "kend t = kend s" using s1 by (simp_all add: t)
  ultimately show ?thesis
    using pages e [OF i(1)] unfolding grows_def pt_state_def
    by (intro conjI exI [of _ "[x]"]) (simp_all del: tpages.simps twf.simps)
qed

lemma pte_addr_nonzero: "pg_aligned pg \<Longrightarrow> pg \<noteq> 0 \<Longrightarrow> pte_addr pg l va \<noteq> 0"
  using ent_in_page [of pg "px l va"] by (auto simp: pte_addr_px simp flip: unat_eq_0)

lemma walk_loop_alloc:
  "pt_state s fl l pg \<Longrightarrow> \<exists>a t rest. walk_loop l pg va True s = Inr (a, t) \<and> grows s fl l pg t rest \<and>
     (if a = 0 then rest = [] else leaf_addr (mem t) l pg va = Some a)"
proof (induction l arbitrary: s fl pg)
  case 0
  then have "pg_aligned pg" "pg \<noteq> 0" by (simp_all add: pt_state_def)
  with 0 show ?case by (simp add: k_simps grows_refl pte_addr_nonzero exI [of _ s] exI [of _ fl])
next
  case (Suc l)
  let ?i = "px (Suc l) va"
  have down: "\<exists>a t rest. walk_loop l (PTE2PA (ent (mem s) pg ?i)) va True s = Inr (a, t) \<and> grows s fl (Suc l) pg t rest \<and>
      (if a = 0 then rest = [] else leaf_addr (mem t) (Suc l) pg va = Some a)"
    if st: "pt_state s fl (Suc l) pg" and v: "valid (ent (mem s) pg ?i)" for s :: "'a kmem_scheme" and fl
  proof -
    let ?c = "PTE2PA (ent (mem s) pg ?i)"
    have "y \<in> tpages (mem s) (Suc l) pg" if "y \<in> tpages (mem s) l ?c" for y
      unfolding tpages_Suc_iff using that v by (blast intro: px_less)
    then have "pt_state s fl l ?c"
      using st twf_child [OF _ px_less v] unfolding pt_state_def by blast
    from Suc.IH [OF this] obtain a t rest where r: "walk_loop l ?c va True s = Inr (a, t)" "grows s fl l ?c t rest"
      "if a = 0 then rest = [] else leaf_addr (mem t) l ?c va = Some a" by blast
    with grows_child [OF st px_less v r(2)] v show ?thesis
      by (intro exI [of _ a] exI [of _ t] exI [of _ rest]) simp
  qed
  have ld: "load64 (mem s) (pte_addr pg (Suc l) va) = ent (mem s) pg ?i" by (simp add: ent_def pte_addr_px)
  show ?case
  proof (cases "valid (ent (mem s) pg ?i)")
    case True
    with down [OF Suc.prems] show ?thesis by (simp add: k_simps kload64_def ld valid_def)
  next
    case False
    have free: "kmem_rep s fl" "avail L_kmem s" using Suc.prems by (simp_all add: pt_state_def)
    show ?thesis
    proof (cases fl)
      case Nil
      then have "kalloc s = Inr (0, noted s)" using free by (simp add: kalloc_run kmem_rep_Nil)
      moreover have "pt_state (noted s) [] (Suc l) pg" using Suc.prems Nil by (simp add: pt_state_def kmem_rep_def)
      then have "grows s fl (Suc l) pg (noted s) []"
        unfolding grows_def using Nil by (intro exI [of _ "[]"]) simp
      ultimately show ?thesis using False
        by (intro exI [of _ 0] exI [of _ "noted s"] exI [of _ "[]"]) (simp add: k_simps kload64_def ld valid_def)
    next
      case (Cons x xs)
      then obtain s1 where s1: "kalloc s = Inr (x, s1)" "kmem_rep s1 xs" "avail L_kmem s1" "page_ok (kend s) x"
        "same_outside (mem s) (mem s1) x" "kend s1 = kend s"
        using kalloc_rep [of s x xs] free by metis
      let ?t = "s1\<lparr>mem := store64 (memset (mem s1) x 0 4096) (pg + 8 * of_nat ?i) (PA2PTE x OR PTE_V)\<rparr>"
      have g: "grows s fl (Suc l) pg ?t xs" "ent (mem ?t) pg ?i = PA2PTE x OR PTE_V"
        using grows_link [OF Suc.prems [unfolded Cons] px_less False s1(2,3,6,4,5) refl] Cons by simp_all
      then have "pt_state ?t xs (Suc l) pg" by (auto simp: grows_def)
      from down [OF this] g(2) page_ok_link [OF s1(4)] valid_link
      obtain a u rest where u: "walk_loop l x va True ?t = Inr (a, u)" "grows ?t xs (Suc l) pg u rest"
        "if a = 0 then rest = [] else leaf_addr (mem u) (Suc l) pg va = Some a" by auto
      have "x \<noteq> 0" using s1(4) by (simp add: page_ok_def)
      then have "walk_loop (Suc l) pg va True s = walk_loop l x va True ?t"
        using s1(1) False by (simp add: k_simps kload64_def kmemset_def kstore64_def ld valid_def) (simp add: pte_addr_def)
      with u grows_trans [OF g(1) u(2)] show ?thesis by metis
    qed
  qed
qed

section \<open>Mapping pages\<close>

lemma px_page_iff:
  assumes "va < MAXVA" "vb < MAXVA"
  shows "(\<forall>k\<le>2. px k vb = px k va) \<longleftrightarrow> unat vb div 4096 = unat va div 4096"
proof
  assume "\<forall>k\<le>2. px k vb = px k va"
  then have "px 0 vb = px 0 va" "px 1 vb = px 1 va" "px 2 vb = px 2 va" by simp_all
  then have "unat vb - unat vb mod 4096 = unat va - unat va mod 4096"
    using va_split [OF assms(1)] va_split [OF assms(2)] by linarith
  then show "unat vb div 4096 = unat va div 4096"
    by (metis minus_mod_eq_div_mult nonzero_mult_div_cancel_right zero_neq_numeral)
next
  assume e: "unat vb div 4096 = unat va div 4096"
  have "unat x div 2 ^ PXSHIFT k = unat x div 4096 div 2 ^ (9 * k)" for x :: u64 and k
    by (simp add: PXSHIFT_def power_add div_mult2_eq)
  with e show "\<forall>k\<le>2. px k vb = px k va" by (simp add: unat_PX)
qed

definition extends :: "'a kmem_scheme \<Rightarrow> u64 list \<Rightarrow> u64 \<Rightarrow> 'a kmem_scheme \<Rightarrow> u64 list \<Rightarrow> bool" where
  "extends s fl pt t rest \<longleftrightarrow> (\<exists>used. fl = used @ rest \<and> pt_state t rest 2 pt \<and> kend t = kend s \<and>
     tpages (mem t) 2 pt = tpages (mem s) 2 pt \<union> set used \<and>
     (\<forall>x. pg_aligned x \<longrightarrow> x \<notin> tpages (mem s) 2 pt \<union> set used \<longrightarrow> same_page (mem s) (mem t) x))"

lemma grows_extends: "grows s fl 2 pt t rest \<Longrightarrow> extends s fl pt t rest"
  unfolding grows_def extends_def by blast

lemma extends_trans:
  assumes "extends s fl pt t fl'" "extends t fl' pt u fl''"
  shows "extends s fl pt u fl''"
proof -
  from assms(1) obtain us where u: "fl = us @ fl'" "kend t = kend s"
    "tpages (mem t) 2 pt = tpages (mem s) 2 pt \<union> set us"
    "\<And>x. pg_aligned x \<Longrightarrow> x \<notin> tpages (mem s) 2 pt \<union> set us \<Longrightarrow> same_page (mem s) (mem t) x"
    unfolding extends_def by blast
  from assms(2) obtain us' where u': "fl' = us' @ fl''" "pt_state u fl'' 2 pt" "kend u = kend t"
    "tpages (mem u) 2 pt = tpages (mem t) 2 pt \<union> set us'"
    "\<And>x. pg_aligned x \<Longrightarrow> x \<notin> tpages (mem t) 2 pt \<union> set us' \<Longrightarrow> same_page (mem t) (mem u) x"
    unfolding extends_def by blast
  have "same_page (mem s) (mem u) x" if "pg_aligned x" "x \<notin> tpages (mem s) 2 pt \<union> set (us @ us')" for x
    using u(3) that by (intro same_page_trans [OF u(4) u'(5)]) simp_all
  moreover have "tpages (mem u) 2 pt = tpages (mem s) 2 pt \<union> set (us @ us')" using u(3) u'(4) by (simp add: Un_assoc)
  ultimately show ?thesis
    using u(1,2) u'(1,2,3) unfolding extends_def by (intro exI [of _ "us @ us'"]) simp
qed

lemma walk_in_range: "va < MAXVA \<Longrightarrow> walk pt va al = walk_loop 2 pt va al"
  by (auto simp: walk_def dest: leD)

lemma walk_alloc:
  assumes "pt_state s fl 2 pt" "va < MAXVA"
  shows "\<exists>a t rest. walk pt va True s = Inr (a, t) \<and> grows s fl 2 pt t rest \<and>
    (if a = 0 then rest = [] else leaf_addr (mem t) 2 pt va = Some a)"
  unfolding walk_in_range [OF assms(2)] by (rule walk_loop_alloc [OF assms(1)])

lemma walk_lookup:
  "va < MAXVA \<Longrightarrow> walk pt va False s = Inr (case leaf_addr (mem s) 2 pt va of None \<Rightarrow> 0 | Some a \<Rightarrow> a, s)"
  by (simp add: walk_in_range walk_loop_lookup)

text \<open>One round of \<open>mappages\<close>.\<close>

lemma set_leaf_state:
  assumes st: "pt_state t rest 2 pt" and la: "leaf_addr (mem t) 2 pt va = Some a" and va: "va < MAXVA"
  shows "extends t rest pt (t\<lparr>mem := store64 (mem t) a v\<rparr>) rest \<and>
    (\<forall>vb<MAXVA. vmap (store64 (mem t) a v) pt vb = (if unat vb div 4096 = unat va div 4096 then v else vmap (mem t) pt vb))"
proof -
  have wf: "twf (mem t) 2 pt" and fr: "kmem_rep t rest" "avail L_kmem t" "tpages (mem t) 2 pt \<inter> set rest = {}"
    using st by (simp_all add: pt_state_def)
  note sl = tree_set_leaf [OF wf la, of v]
  obtain x where x: "x \<in> tpages (mem t) 2 pt" "a = x + 8 * of_nat (px 0 va)" "pg_aligned x"
    using leaf_addr_page [OF wf la] by blast
  have "kmem_rep (t\<lparr>mem := store64 (mem t) a v\<rparr>) rest"
  proof (rule kmem_rep_write [OF fr(1) x(3)])
    show "x \<notin> set rest" using x(1) fr(3) by blast
    show "store64 (mem t) a v b = mem t b" if "unat b div 4096 \<noteq> unat x div 4096" for b
      unfolding x(2) by (rule store64_in_page [OF x(3) px_less that])
  qed
  then have "pt_state (t\<lparr>mem := store64 (mem t) a v\<rparr>) rest 2 pt"
    using sl fr unfolding pt_state_def by (simp del: tpages.simps twf.simps)
  then have "extends t rest pt (t\<lparr>mem := store64 (mem t) a v\<rparr>) rest"
    using sl unfolding extends_def by (intro exI [of _ "[]"]) simp
  moreover have "vmap (store64 (mem t) a v) pt vb = (if unat vb div 4096 = unat va div 4096 then v else vmap (mem t) pt vb)"
    if "vb < MAXVA" for vb
    using sl [of vb] px_page_iff [OF va that] by (simp add: vmap_def)
  ultimately show ?thesis by blast
qed

lemma mappages_step:
  assumes st: "pt_state s fl 2 pt" and va: "va < MAXVA" and nv: "\<not> valid (vmap (mem s) pt va)"
  shows "\<exists>t rest. extends s fl pt t rest \<and>
    (mappages_round pt lv perm (va, pa) s = Inr (Inr (-1), t) \<and> rest = [] \<and> (\<forall>vb. vmap (mem t) pt vb = vmap (mem s) pt vb) \<or>
     mappages_round pt lv perm (va, pa) s = Inr (if va = lv then Inr 0 else Inl (va + PGSIZE, pa + PGSIZE), t) \<and>
     (\<forall>vb<MAXVA. vmap (mem t) pt vb =
        (if unat vb div 4096 = unat va div 4096 then PA2PTE pa OR perm OR PTE_V else vmap (mem s) pt vb)))"
proof -
  obtain a u rest where u: "walk pt va True s = Inr (a, u)" "grows s fl 2 pt u rest"
    "if a = 0 then rest = [] else leaf_addr (mem u) 2 pt va = Some a" using walk_alloc [OF st va] by blast
  have same: "vmap (mem u) pt vb = vmap (mem s) pt vb" for vb using u(2) by (auto simp: grows_def vmap_def)
  show ?thesis
  proof (cases "a = 0")
    case True
    then have "mappages_round pt lv perm (va, pa) s = Inr (Inr (-1), u)"
      using u(1) by (simp add: mappages_round_def k_simps)
    with True u(3) same grows_extends [OF u(2)] show ?thesis by auto
  next
    case False
    let ?v = "PA2PTE pa OR perm OR PTE_V"
    have la: "leaf_addr (mem u) 2 pt va = Some a" and pu: "pt_state u rest 2 pt"
      using u(2,3) False by (auto simp: grows_def)
    then have "load64 (mem u) a = vmap (mem s) pt va" using same [of va] by (simp add: vmap_def leaf_def)
    with nv have "load64 (mem u) a AND PTE_V = 0" by (simp add: valid_def)
    then have "mappages_round pt lv perm (va, pa) s =
        Inr (if va = lv then Inr 0 else Inl (va + PGSIZE, pa + PGSIZE), u\<lparr>mem := store64 (mem u) a ?v\<rparr>)"
      using u(1) False by (simp add: mappages_round_def k_simps kload64_def kstore64_def)
    moreover note set_leaf_state [OF pu la va, of ?v] extends_trans [OF grows_extends [OF u(2)]]
    ultimately show ?thesis using same by (intro exI [of _ "u\<lparr>mem := store64 (mem u) a ?v\<rparr>"] exI [of _ rest]) auto
  qed
qed

lemma div_page_iff: "(x::nat) div 4096 = k \<longleftrightarrow> 4096 * k \<le> x \<and> x < 4096 * k + 4096"
  by auto

text \<open>The entries that mapping \<open>n\<close> pages from \<open>va\<close> to \<open>pa\<close> gives.\<close>

definition mapped :: "memory \<Rightarrow> u64 \<Rightarrow> u64 \<Rightarrow> u64 \<Rightarrow> nat \<Rightarrow> u64 \<Rightarrow> u64 \<Rightarrow> u64" where
  "mapped m pt va pa n perm vb =
     (if unat va \<le> unat vb \<and> unat vb < unat va + 4096 * n
      then PA2PTE (pa + of_nat (4096 * ((unat vb - unat va) div 4096))) OR perm OR PTE_V
      else vmap m pt vb)"

lemma mapped_Suc:
  assumes "unat va mod 4096 = 0" "unat va + 4096 * Suc n \<le> 274877906944"
    and m': "\<And>vb. vb < MAXVA \<Longrightarrow> vmap m' pt vb =
      (if unat vb div 4096 = unat va div 4096 then PA2PTE pa OR perm OR PTE_V else vmap m pt vb)"
    and vb: "vb < MAXVA"
  shows "mapped m' pt (va + PGSIZE) (pa + PGSIZE) n perm vb = mapped m pt va pa (Suc n) perm vb"
proof -
  have u: "unat (va + PGSIZE) = unat va + 4096"
    using assms(2) by (subst unat_add_u64) (simp_all add: PGSIZE_def)
  obtain k where k: "unat va = 4096 * k" using assms(1) by (auto simp: dvd_def)
  have page: "unat vb div 4096 = unat va div 4096 \<longleftrightarrow> unat va \<le> unat vb \<and> unat vb < unat va + 4096"
    using div_page_iff [of "unat vb" k] by (simp add: k)
  have off: "(unat vb - unat va) div 4096 = Suc ((unat vb - unat (va + PGSIZE)) div 4096)" if "unat va + 4096 \<le> unat vb"
  proof -
    from that have "unat vb - unat va = 4096 + (unat vb - unat (va + PGSIZE))" using u by linarith
    then show ?thesis by simp
  qed
  show ?thesis
  proof (cases "unat va + 4096 \<le> unat vb")
    case True
    then show ?thesis using m' [OF vb] page off u by (simp add: mapped_def PGSIZE_def add.assoc)
  next
    case False
    then have "(unat vb - unat va) div 4096 = 0" by simp
    with False show ?thesis using m' [OF vb] page by (auto simp: mapped_def u)
  qed
qed

lemma mappages_loop:
  assumes "pt_state s fl 2 pt" "pg_aligned va" "unat va + 4096 * Suc n \<le> 274877906944" "n < fuel"
    and "last_va = va + of_nat (4096 * n)"
    and "\<And>i. i \<le> n \<Longrightarrow> \<not> valid (vmap (mem s) pt (va + of_nat (4096 * i)))"
  shows "\<exists>r t rest. kloop fuel (mappages_round pt last_va perm) (va, pa) s = Inr (r, t) \<and> extends s fl pt t rest \<and>
    (r = 0 \<and> (\<forall>vb<MAXVA. vmap (mem t) pt vb = mapped (mem s) pt va pa (Suc n) perm vb) \<or>
     r = -1 \<and> rest = [] \<and> (\<forall>vb<MAXVA. unat vb < unat va \<or> unat va + 4096 * Suc n \<le> unat vb \<longrightarrow>
       vmap (mem t) pt vb = vmap (mem s) pt vb))"
  using assms
proof (induction n arbitrary: s fl va pa fuel)
  case 0
  obtain f where f: "fuel = Suc f" using 0 by (cases fuel) auto
  have va: "va < MAXVA" using 0 by (simp add: less_MAXVA_iff)
  have al: "unat va = 4096 * (unat va div 4096)" using 0(2) by (auto simp: pg_aligned_iff)
  have nv: "\<not> valid (vmap (mem s) pt va)" using 0(6) [of 0] by simp
  obtain t rest where t: "extends s fl pt t rest"
    "mappages_round pt last_va perm (va, pa) s = Inr (Inr (-1), t) \<and> rest = [] \<and> (\<forall>vb. vmap (mem t) pt vb = vmap (mem s) pt vb) \<or>
     mappages_round pt last_va perm (va, pa) s = Inr (Inr 0, t) \<and> (\<forall>vb<MAXVA. vmap (mem t) pt vb =
        (if unat vb div 4096 = unat va div 4096 then PA2PTE pa OR perm OR PTE_V else vmap (mem s) pt vb))"
    using mappages_step [OF 0(1) va nv, of last_va perm pa] 0(5) by auto
  have "mapped (mem s) pt va pa (Suc 0) perm vb =
      (if unat vb div 4096 = unat va div 4096 then PA2PTE pa OR perm OR PTE_V else vmap (mem s) pt vb)" for vb
    using div_page_iff [of "unat vb" "unat va div 4096"] al by (auto simp: mapped_def)
  with t f show ?case by (auto simp: k_simps)
next
  case (Suc n)
  obtain f where f: "fuel = Suc f" "n < f" using Suc.prems(4) by (cases fuel) auto
  have va: "va < MAXVA" using Suc.prems(3) by (simp add: less_MAXVA_iff)
  have al: "unat va = 4096 * (unat va div 4096)" using Suc.prems(2) by (auto simp: pg_aligned_iff)
  have nv: "\<not> valid (vmap (mem s) pt va)" using Suc.prems(6) [of 0] by simp
  have u: "unat (va + PGSIZE) = unat va + 4096"
    using Suc.prems(3) by (subst unat_add_u64) (simp_all add: PGSIZE_def)
  have "unat (of_nat (4096 * Suc n) :: u64) = 4096 * Suc n" using Suc.prems(3) by (intro unat_of_nat_u64) simp
  then have lv: "va \<noteq> last_va" unfolding Suc.prems(5) by auto
  obtain t rest where t: "extends s fl pt t rest" and step:
    "mappages_round pt last_va perm (va, pa) s = Inr (Inr (-1), t) \<and> rest = [] \<and> (\<forall>vb. vmap (mem t) pt vb = vmap (mem s) pt vb) \<or>
     mappages_round pt last_va perm (va, pa) s = Inr (Inl (va + PGSIZE, pa + PGSIZE), t) \<and> (\<forall>vb<MAXVA. vmap (mem t) pt vb =
        (if unat vb div 4096 = unat va div 4096 then PA2PTE pa OR perm OR PTE_V else vmap (mem s) pt vb))"
    using mappages_step [OF Suc.prems(1) va nv, of last_va perm pa] lv by auto
  from step show ?case
  proof
    assume "mappages_round pt last_va perm (va, pa) s = Inr (Inr (-1), t) \<and> rest = [] \<and> (\<forall>vb. vmap (mem t) pt vb = vmap (mem s) pt vb)"
    with t f show ?thesis by (auto simp: k_simps)
  next
    assume r: "mappages_round pt last_va perm (va, pa) s = Inr (Inl (va + PGSIZE, pa + PGSIZE), t) \<and> (\<forall>vb<MAXVA. vmap (mem t) pt vb =
        (if unat vb div 4096 = unat va div 4096 then PA2PTE pa OR perm OR PTE_V else vmap (mem s) pt vb))"
    then have vm: "vmap (mem t) pt vb =
        (if unat vb div 4096 = unat va div 4096 then PA2PTE pa OR perm OR PTE_V else vmap (mem s) pt vb)" if "vb < MAXVA" for vb
      using that by blast
    have pt: "pt_state t rest 2 pt" using t by (auto simp: extends_def)
    have nx: "\<not> valid (vmap (mem t) pt (va + PGSIZE + of_nat (4096 * i)))" if "i \<le> n" for i
    proof -
      let ?vb = "va + PGSIZE + of_nat (4096 * i)"
      have e: "?vb = va + of_nat (4096 * Suc i)" by (simp add: PGSIZE_def)
      have "4096 * Suc i \<le> 4096 * Suc n" using that by simp
      then have ub: "unat ?vb = unat va + 4096 * Suc i"
        unfolding e using Suc.prems(3) by (intro unat_add_of_nat) simp
      then have "?vb < MAXVA" using Suc.prems(3) \<open>4096 * Suc i \<le> _\<close> by (simp add: less_MAXVA_iff)
      moreover have "unat ?vb div 4096 \<noteq> unat va div 4096" using ub div_page_iff [of "unat ?vb" "unat va div 4096"] al by auto
      ultimately have "vmap (mem t) pt ?vb = vmap (mem s) pt (va + of_nat (4096 * Suc i))" using vm [of ?vb] unfolding e by simp
      then show ?thesis using Suc.prems(6) [of "Suc i"] that by simp
    qed
    have "\<exists>r v rest'. kloop f (mappages_round pt last_va perm) (va + PGSIZE, pa + PGSIZE) t = Inr (r, v) \<and> extends t rest pt v rest' \<and>
      (r = 0 \<and> (\<forall>vb<MAXVA. vmap (mem v) pt vb = mapped (mem t) pt (va + PGSIZE) (pa + PGSIZE) (Suc n) perm vb) \<or>
       r = -1 \<and> rest' = [] \<and> (\<forall>vb<MAXVA. unat vb < unat (va + PGSIZE) \<or> unat (va + PGSIZE) + 4096 * Suc n \<le> unat vb \<longrightarrow>
         vmap (mem v) pt vb = vmap (mem t) pt vb))"
    proof (rule Suc.IH [OF pt _ _ f(2) _ nx])
      show "pg_aligned (va + PGSIZE)" using Suc.prems(2) by (simp add: pg_aligned_iff u)
      show "unat (va + PGSIZE) + 4096 * Suc n \<le> 274877906944" using Suc.prems(3) u by simp
      show "last_va = va + PGSIZE + of_nat (4096 * n)" by (simp add: Suc.prems(5) PGSIZE_def)
    qed
    then obtain r' v rest' where v: "kloop f (mappages_round pt last_va perm) (va + PGSIZE, pa + PGSIZE) t = Inr (r', v)"
      "extends t rest pt v rest'" and res:
      "r' = 0 \<and> (\<forall>vb<MAXVA. vmap (mem v) pt vb = mapped (mem t) pt (va + PGSIZE) (pa + PGSIZE) (Suc n) perm vb) \<or>
       r' = -1 \<and> rest' = [] \<and> (\<forall>vb<MAXVA. unat vb < unat (va + PGSIZE) \<or> unat (va + PGSIZE) + 4096 * Suc n \<le> unat vb \<longrightarrow>
         vmap (mem v) pt vb = vmap (mem t) pt vb)" by blast
    have ms: "mapped (mem t) pt (va + PGSIZE) (pa + PGSIZE) (Suc n) perm vb = mapped (mem s) pt va pa (Suc (Suc n)) perm vb"
      if "vb < MAXVA" for vb
      using Suc.prems(2,3) by (intro mapped_Suc [OF _ _ vm that]) (simp_all add: pg_aligned_iff)
    have out: "vmap (mem t) pt vb = vmap (mem s) pt vb"
      if "vb < MAXVA" "unat vb < unat va \<or> unat va + 4096 * Suc (Suc n) \<le> unat vb" for vb
      using vm [OF that(1)] that(2) div_page_iff [of "unat vb" "unat va div 4096"] al by auto
    have "kloop fuel (mappages_round pt last_va perm) (va, pa) s = Inr (r', v)"
      using f r v(1) by (simp add: k_simps)
    then show ?thesis using extends_trans [OF t v(2)] res ms out u
      by (intro exI [of _ r'] exI [of _ v] exI [of _ rest']) auto
  qed
qed

text \<open>
  C9. \<open>mappages\<close> installs exactly the mappings it is asked for. On a well-formed tree of page-table
  pages whose range is still unmapped it returns; if it returns 0, then every address of the range has the
  entry of the corresponding physical page with the requested permissions, and every other address has
  the entry it had; if it returns -1 the allocator has run out of pages, and no address outside the range
  has changed. In both cases the tree is well formed again, has grown only by pages that were free, and
  no other page of memory has changed.
\<close>

theorem mappages_maps:
  assumes "pt_state s fl 2 pt" and "pg_aligned va" and "0 < n" and "unat va + 4096 * n \<le> unat MAXVA"
    and "\<forall>i<n. \<not> valid (vmap (mem s) pt (va + of_nat (4096 * i)))"
  shows "\<exists>r t rest. mappages pt va (of_nat (4096 * n)) pa perm s = Inr (r, t) \<and> extends s fl pt t rest \<and>
    (r = 0 \<and> (\<forall>vb<MAXVA. vmap (mem t) pt vb = mapped (mem s) pt va pa n perm vb) \<or>
     r = -1 \<and> rest = [] \<and> (\<forall>vb<MAXVA. unat vb < unat va \<or> unat va + 4096 * n \<le> unat vb \<longrightarrow>
       vmap (mem t) pt vb = vmap (mem s) pt vb))"
proof -
  obtain k where k: "n = Suc k" using assms(3) by (cases n) auto
  have le: "unat va + 4096 * n \<le> 274877906944" using assms(4) by (simp add: MAXVA_val)
  then have u: "unat (of_nat (4096 * n) :: u64) = 4096 * n" by (intro unat_of_nat_u64) simp
  have "pg_aligned (of_nat (4096 * n))" unfolding pg_aligned_iff u by simp
  then have m: "(of_nat (4096 * n) :: u64) mod PGSIZE = 0" unfolding pg_aligned_def .
  have nz: "(of_nat (4096 * n) :: u64) \<noteq> 0" using u k by (metis Suc_neq_Zero mult_is_0 unat_0 zero_neq_numeral)
  have lv: "va + of_nat (4096 * n) - PGSIZE = va + of_nat (4096 * k)" by (simp add: k PGSIZE_def)
  have "va mod PGSIZE = 0" using assms(2) by (simp add: pg_aligned_def)
  then have run: "mappages pt va (of_nat (4096 * n)) pa perm s =
      kloop PAGE_ROUNDS (mappages_round pt (va + of_nat (4096 * k)) perm) (va, pa) s"
    by (simp only: mappages_def m nz lv if_False simp_thms)
  show ?thesis unfolding run using le assms(5) unfolding k
    by (intro mappages_loop [OF assms(1,2)]) (auto simp: PAGE_ROUNDS_def less_Suc_eq_le)
qed

lemma demo_root: "pt_state demo_kmem [0x80002000, 0x80003000] 2 0x80001000" "vmap (mem demo_kmem) 0x80001000 va = 0"
proof -
  have al: "pg_aligned 0x80001000" by (simp add: pg_aligned_def PGSIZE_def)
  have "ent (mem demo_kmem) 0x80001000 i = 0" if "i < 512" for i
  proof (rule ent_zeroed [OF al that])
    fix b :: u64 assume "unat b div 4096 = unat (0x80001000 :: u64) div 4096"
    then have "unat b < 0x80002000" by (simp add: div_page_iff)
    then have "\<not> unat (b - 0x80002000) < 8" by (simp add: unat_sub_if_size word_size)
    then show "mem demo_kmem b = 0" by (simp add: demo_kmem_def store64_at)
  qed
  then have z: "tpages (mem demo_kmem) l 0x80001000 = {0x80001000} \<and> twf (mem demo_kmem) l 0x80001000 \<and>
      leaf (mem demo_kmem) l 0x80001000 vb = 0" for l vb
    using al by (intro tree_zero) simp_all
  then show "pt_state demo_kmem [0x80002000, 0x80003000] 2 0x80001000" "vmap (mem demo_kmem) 0x80001000 va = 0"
    using demo_kmem_rep demo_kmem_avail by (simp_all add: pt_state_def vmap_def del: tpages.simps twf.simps)
qed

theorem mappages_maps_witness:
  "\<exists>r t rest. mappages 0x80001000 0x3000 0x2000 0x80400000 (PTE_R OR PTE_W OR PTE_U) demo_kmem = Inr (r, t) \<and>
    extends demo_kmem [0x80002000, 0x80003000] 0x80001000 t rest \<and>
    (r = 0 \<and> vmap (mem t) 0x80001000 0x4567 = PA2PTE 0x80401000 OR (PTE_R OR PTE_W OR PTE_U) OR PTE_V \<or>
     r = -1 \<and> rest = [] \<and> vmap (mem t) 0x80001000 0x5000 = 0)"
proof -
  have "pg_aligned 0x3000" "unat (0x3000 :: u64) + 4096 * 2 \<le> unat MAXVA" "(0x4567 :: u64) < MAXVA" "(0x5000 :: u64) < MAXVA"
    by (simp_all add: pg_aligned_def PGSIZE_def MAXVA_val)
  moreover have "mapped (mem demo_kmem) 0x80001000 0x3000 0x80400000 2 p 0x4567 = PA2PTE 0x80401000 OR p OR PTE_V" for p
    by (simp add: mapped_def)
  ultimately show ?thesis
    using mappages_maps [OF demo_root(1), where va = "0x3000" and n = 2 and pa = "0x80400000" and perm = "PTE_R OR PTE_W OR PTE_U"] demo_root(2)
    by (fastforce simp: valid_def)
qed

end
