(* ===== verification/Xv6_Usercopy.thy ===== *)
theory Xv6_Usercopy
  imports Xv6_Pagetable
begin

text \<open>
  What \<^verbatim>\<open>copyout\<close> and \<^verbatim>\<open>copyin\<close> of vm.c do to a range of user memory, page by page, stated over the
  bytes of physical memory that the page table gives the range: the result codes, the bytes
  stored and read, and the round trip.
\<close>

unbundle bit_operations_syntax

section \<open>Copying to and from user memory\<close>

text \<open>Where a byte of user memory is, and whether it may be read and written.\<close>

definition upte :: "memory \<Rightarrow> u64 \<Rightarrow> u64 \<Rightarrow> u64" where
  "upte m pt va = vmap m pt (PGROUNDDOWN va)"

definition uaddr :: "memory \<Rightarrow> u64 \<Rightarrow> u64 \<Rightarrow> u64" where
  "uaddr m pt va = PTE2PA (upte m pt va) + (va - PGROUNDDOWN va)"

definition ureadable :: "memory \<Rightarrow> u64 \<Rightarrow> u64 \<Rightarrow> bool" where
  "ureadable m pt va \<longleftrightarrow> PGROUNDDOWN va < MAXVA \<and> valid (upte m pt va) \<and> upte m pt va AND PTE_U \<noteq> 0 \<and>
     PTE2PA (upte m pt va) \<noteq> 0"

definition uwritable :: "memory \<Rightarrow> u64 \<Rightarrow> u64 \<Rightarrow> bool" where
  "uwritable m pt va \<longleftrightarrow> PGROUNDDOWN va < MAXVA \<and> valid (upte m pt va) \<and> upte m pt va AND PTE_U \<noteq> 0 \<and>
     upte m pt va AND PTE_W \<noteq> 0"

text \<open>The memory after storing \<open>bs\<close> from \<open>va\<close> on.\<close>

definition ustore :: "memory \<Rightarrow> u64 \<Rightarrow> u64 \<Rightarrow> u8 list \<Rightarrow> memory" where
  "ustore m pt va bs = fold (\<lambda>i m'. m'(uaddr m pt (va + of_nat i) := bs ! i)) [0..<length bs] m"

definition uload :: "memory \<Rightarrow> u64 \<Rightarrow> u64 \<Rightarrow> nat \<Rightarrow> u8 list" where
  "uload m pt va n = map (\<lambda>i. m (uaddr m pt (va + of_nat i))) [0..<n]"

lemma PGROUNDDOWN_same:
  assumes "i < 4096 - unat (va - PGROUNDDOWN va)"
  shows "PGROUNDDOWN (va + of_nat i) = PGROUNDDOWN va"
    "va + of_nat i - PGROUNDDOWN (va + of_nat i) = (va - PGROUNDDOWN va) + of_nat i"
proof -
  have le: "unat (PGROUNDDOWN va) \<le> unat va" by (simp add: unat_PGROUNDDOWN)
  then have off: "unat (va - PGROUNDDOWN va) = unat va mod 4096"
    by (simp add: unat_diff_u64 word_le_nat_alt unat_PGROUNDDOWN minus_div_mult_eq_mod)
  have "unat (PGROUNDDOWN va) + 4096 \<le> 18446744073709551616" by (rule page_end [OF PGROUNDDOWN_aligned])
  then have "unat va + i < 18446744073709551616"
    using assms off unat_PGROUNDDOWN [of va] div_mult_mod_eq [of "unat va" 4096] by linarith
  then have u: "unat (va + of_nat i) = unat va + i" by (rule unat_add_of_nat)
  have "(unat va + i) div 4096 = unat va div 4096"
    using assms off div_mult_mod_eq [of "unat va" 4096] by (subst div_page_iff) linarith
  then have "unat (PGROUNDDOWN (va + of_nat i)) = unat (PGROUNDDOWN va)" by (simp add: unat_PGROUNDDOWN u)
  then show "PGROUNDDOWN (va + of_nat i) = PGROUNDDOWN va" by (simp add: word_unat_eq_iff)
  then show "va + of_nat i - PGROUNDDOWN (va + of_nat i) = (va - PGROUNDDOWN va) + of_nat i" by simp
qed

lemma u_same_page:
  assumes "i < 4096 - unat (va - PGROUNDDOWN va)"
  shows "uaddr m pt (va + of_nat i) = uaddr m pt va + of_nat i"
    "uwritable m pt (va + of_nat i) = uwritable m pt va" "ureadable m pt (va + of_nat i) = ureadable m pt va"
  using PGROUNDDOWN_same [OF assms] by (simp_all add: uaddr_def uwritable_def ureadable_def upte_def)

lemma vmap_stable:
  assumes "twf m 2 pt" "\<And>x. x \<in> tpages m 2 pt \<Longrightarrow> same_page m m' x"
  shows "vmap m' pt va = vmap m pt va" "tpages m' 2 pt = tpages m 2 pt" "twf m' 2 pt"
  using tree_frame [OF assms] by (simp_all add: vmap_def)

text \<open>The length of the part of a range that lies in its first page.\<close>

lemma unat_page_part: "unat (page_part va len) = min (4096 - unat (va - PGROUNDDOWN va)) (unat len)"
proof -
  have "unat (va - PGROUNDDOWN va) < 4096"
    by (simp add: in_page_iff [OF PGROUNDDOWN_aligned] unat_PGROUNDDOWN)
  then have "unat (PGSIZE - (va - PGROUNDDOWN va)) = 4096 - unat (va - PGROUNDDOWN va)"
    by (simp add: unat_diff_u64 PGSIZE_def word_le_nat_alt)
  then show ?thesis by (simp add: page_part_def Let_def word_less_nat_alt min_def)
qed

text \<open>A user range and the page table it is mapped by: no writable byte of the range is in a page of the table.\<close>

definition uframe :: "memory \<Rightarrow> u64 \<Rightarrow> u64 \<Rightarrow> nat \<Rightarrow> bool" where
  "uframe m pt va n \<longleftrightarrow> (\<forall>i<n. \<forall>x\<in>tpages m 2 pt. uwritable m pt (va + of_nat i) \<longrightarrow>
     unat (uaddr m pt (va + of_nat i)) div 4096 \<noteq> unat x div 4096)"

lemma leaf_addr_nonzero: "twf m 2 pt \<Longrightarrow> leaf_addr m 2 pt va = Some a \<Longrightarrow> a \<noteq> 0"
  using leaf_addr_page [of m 2 pt va a] twf_aligned pte_addr_nonzero by (fastforce simp: pte_addr_px)

lemma vmap_leaf: "vmap m pt va = (case leaf_addr m 2 pt va of None \<Rightarrow> 0 | Some a \<Rightarrow> load64 m a)"
  by (simp add: vmap_def leaf_def)

lemma walkaddr_uaddr:
  assumes "twf (mem s) 2 pt"
  shows "walkaddr pt (PGROUNDDOWN va) s =
    Inr (if ureadable (mem s) pt va then PTE2PA (upte (mem s) pt va) else 0, s)"
  using leaf_addr_nonzero [OF assms, of "PGROUNDDOWN va"]
  by (auto simp: walkaddr_def ureadable_def upte_def walk_lookup vmap_leaf valid_def kload64_def k_simps
      linorder_not_le not_less split: option.splits)

lemma fold_upd_other:
  "b \<notin> f ` set is \<Longrightarrow> fold (\<lambda>i m. m(f i := g i)) is m b = m b"
  by (induction "is" arbitrary: m) auto

lemma fold_upd_at:
  "inj_on f (set is) \<Longrightarrow> distinct is \<Longrightarrow> i \<in> set is \<Longrightarrow> fold (\<lambda>i m. m(f i := g i)) is m (f i) = g i"
proof (induction "is" arbitrary: m)
  case (Cons j js)
  show ?case
  proof (cases "i = j")
    case True
    with Cons.prems have "f i \<notin> f ` set js" by (auto simp: inj_on_def)
    from fold_upd_other [OF this, of g "m(f j := g j)"] True show ?thesis
      by (simp only: fold.simps o_apply fun_upd_same)
  next
    case False with Cons show ?thesis by simp
  qed
qed simp

lemma ustore_stable:
  assumes "twf m 2 pt" "uframe m pt va n" "n' \<le> n" "\<And>i. i < n' \<Longrightarrow> uwritable m pt (va + of_nat i)"
    "length bs = n'" "x \<in> tpages m 2 pt"
  shows "same_page m (ustore m pt va bs) x"
  unfolding same_page_def
proof safe
  fix b :: u64 assume b: "unat b div 4096 = unat x div 4096"
  have "b \<notin> (\<lambda>i. uaddr m pt (va + of_nat i)) ` set [0..<length bs]"
    using assms b by (force simp: uframe_def)
  then show "ustore m pt va bs b = m b" unfolding ustore_def by (rule fold_upd_other)
qed

text \<open>One round of the loop: the part of the range in one page.\<close>

definition chunk :: "u64 \<Rightarrow> nat \<Rightarrow> nat" where
  "chunk va n = min (4096 - unat (va - PGROUNDDOWN va)) n"

lemma chunk_bounds: "chunk va n \<le> n" "0 < n \<Longrightarrow> 0 < chunk va n"
proof -
  have "unat (va - PGROUNDDOWN va) < 4096"
    by (simp add: in_page_iff [OF PGROUNDDOWN_aligned] unat_PGROUNDDOWN)
  then show "chunk va n \<le> n" "0 < n \<Longrightarrow> 0 < chunk va n" by (simp_all add: chunk_def)
qed

lemma chunk_next: "chunk va n < n \<Longrightarrow> PGROUNDDOWN va + PGSIZE = va + of_nat (chunk va n)"
proof -
  assume "chunk va n < n"
  then have "chunk va n = 4096 - unat (va - PGROUNDDOWN va)" by (simp add: chunk_def)
  moreover have "unat (va - PGROUNDDOWN va) < 4096"
    by (simp add: in_page_iff [OF PGROUNDDOWN_aligned] unat_PGROUNDDOWN)
  ultimately show ?thesis by (simp add: of_nat_diff PGSIZE_def)
qed

lemma range_split:
  assumes "n \<le> l" "\<And>i. i < n \<Longrightarrow> P (va + of_nat i)"
  shows "(\<forall>i<l. P (va + of_nat i :: u64)) \<longleftrightarrow> (\<forall>i<l - n. P (va + of_nat n + of_nat i))"
proof (intro iffI allI impI)
  fix i assume "\<forall>i<l. P (va + of_nat i)" "i < l - n"
  then have "P (va + of_nat (n + i))" by (auto dest: spec [of _ "n + i"])
  then show "P (va + of_nat n + of_nat i)" by (simp add: add.assoc)
next
  fix i assume B: "\<forall>i<l - n. P (va + of_nat n + of_nat i)" and i: "i < l"
  show "P (va + of_nat i)"
  proof (cases "i < n")
    case False
    then have "i - n < l - n" using i by simp
    with B have "P (va + of_nat n + of_nat (i - n))" by blast
    then show ?thesis using False by (simp add: of_nat_diff)
  qed (rule assms(2))
qed

lemma copyout_round_nil: "copyout_round pt (va, []) s = Inr (Inr 0, s)"
  by (simp add: copyout_round_def k_simps)

lemma copyout_round_fault:
  assumes "twf (mem s) 2 pt" "bs \<noteq> []" "\<not> uwritable (mem s) pt va"
  shows "copyout_round pt (va, bs) s = Inr (Inr (-1), s)"
  using assms leaf_addr_nonzero [OF assms(1), of "PGROUNDDOWN va"]
  by (auto simp: copyout_round_def uwritable_def upte_def walk_lookup vmap_leaf valid_def kload64_def k_simps
      Let_def linorder_not_le not_less split: option.splits)

lemma copyout_round_page:
  assumes "twf (mem s) 2 pt" "bs \<noteq> []" "uwritable (mem s) pt va" "length bs < 18446744073709551616"
  defines "n \<equiv> chunk va (length bs)"
  shows "copyout_round pt (va, bs) s =
    Inr (Inl (PGROUNDDOWN va + PGSIZE, drop n bs), s\<lparr>mem := ustore (mem s) pt va (take n bs)\<rparr>)"
proof -
  have n: "unat (page_part va (of_nat (length bs))) = n"
    using assms(4) by (simp add: unat_page_part n_def chunk_def unat_of_nat_u64)
  have "uaddr (mem s) pt (va + of_nat i) = uaddr (mem s) pt va + of_nat i" if "i < n" for i
    using that by (intro u_same_page) (simp add: n_def chunk_def)
  then have "ustore (mem s) pt va (take n bs) = store_bytes (mem s) (uaddr (mem s) pt va) (take n bs)"
    unfolding ustore_def store_bytes_def by (intro fold_cong) auto
  then show ?thesis
    using assms(1,2,3) leaf_addr_nonzero [OF assms(1), of "PGROUNDDOWN va"]
    by (auto simp: copyout_round_def uwritable_def uaddr_def upte_def walk_lookup vmap_leaf valid_def kload64_def
      kstore_bytes_def k_simps n Let_def linorder_not_le not_less split: option.splits)
qed

lemma uaddr_stable:
  assumes "twf m 2 pt" "\<And>x. x \<in> tpages m 2 pt \<Longrightarrow> same_page m m' x"
  shows "uaddr m' pt = uaddr m pt" "uwritable m' pt = uwritable m pt" "ureadable m' pt = ureadable m pt"
    "uframe m' pt = uframe m pt"
  using vmap_stable [OF assms]
  by (simp_all add: fun_eq_iff uaddr_def uwritable_def ureadable_def upte_def uframe_def)

lemma ustore_append:
  assumes "uaddr (ustore m pt va (take n bs)) pt = uaddr m pt" "n \<le> length bs"
  shows "ustore (ustore m pt va (take n bs)) pt (va + of_nat n) (drop n bs) = ustore m pt va bs"
proof -
  let ?f = "\<lambda>i m'. m'(uaddr m pt (va + of_nat i) := bs ! i)"
  have len: "[0..<length bs] = [0..<n] @ map (\<lambda>i. n + i) [0..<length bs - n]"
    using assms(2) upt_add_eq_append [of 0 n "length bs - n"] by (simp add: map_add_upt add.commute [of n])
  have "ustore m pt va (take n bs) = fold ?f [0..<n] m"
    unfolding ustore_def using assms(2) by (intro fold_cong) (auto split: if_splits)
  then show ?thesis
    unfolding ustore_def assms(1) [unfolded ustore_def] len fold_append o_apply fold_map
    using assms(2) by (simp add: o_def ac_simps ustore_def)
qed

lemma copyout_loop:
  assumes "twf (mem s) 2 pt" "uframe (mem s) pt va (length bs)" "length bs < fuel"
    "length bs < 18446744073709551616"
  shows "\<exists>m'. kloop fuel (copyout_round pt) (va, bs) s =
      Inr (if \<forall>i<length bs. uwritable (mem s) pt (va + of_nat i) then 0 else -1, s\<lparr>mem := m'\<rparr>) \<and>
    ((\<forall>i<length bs. uwritable (mem s) pt (va + of_nat i)) \<longrightarrow> m' = ustore (mem s) pt va bs)"
  using assms
proof (induction fuel arbitrary: s va bs)
  case (Suc fuel)
  consider "bs = []" | "bs \<noteq> []" "\<not> uwritable (mem s) pt va" | "bs \<noteq> []" "uwritable (mem s) pt va" by blast
  then show ?case
  proof cases
    case 1 then show ?thesis
      by (intro exI [of _ "mem s"]) (simp add: copyout_round_nil k_simps ustore_def)
  next
    case 2
    then have "\<exists>i<length bs. \<not> uwritable (mem s) pt (va + of_nat i)" by (intro exI [of _ 0]) simp
    then show ?thesis using 2 copyout_round_fault [OF Suc.prems(1)]
      by (intro exI [of _ "mem s"]) (auto simp: k_simps)
  next
    case 3
    define n where "n = chunk va (length bs)"
    have n: "n \<le> length bs" "0 < n" using chunk_bounds 3 by (auto simp: n_def)
    have w: "uwritable (mem s) pt (va + of_nat i)" if "i < n" for i
      using u_same_page(2) [of i va "mem s" pt] 3(2) that by (simp add: n_def chunk_def)
    let ?m = "ustore (mem s) pt va (take n bs)"
    have same: "same_page (mem s) ?m x" if "x \<in> tpages (mem s) 2 pt" for x
      using ustore_stable [OF Suc.prems(1,2) n(1) w _ that] n(1) by simp
    have st: "uaddr ?m pt = uaddr (mem s) pt" "uwritable ?m pt = uwritable (mem s) pt"
      "tpages ?m 2 pt = tpages (mem s) 2 pt" "twf ?m 2 pt"
      by (simp_all add: uaddr_stable [OF Suc.prems(1) same] vmap_stable [OF Suc.prems(1) same])
    have r: "copyout_round pt (va, bs) s = Inr (Inl (PGROUNDDOWN va + PGSIZE, drop n bs), s\<lparr>mem := ?m\<rparr>)"
      using copyout_round_page [OF Suc.prems(1) 3 Suc.prems(4)] by (simp add: n_def)
    have fr: "uframe ?m pt (va + of_nat n) (length (drop n bs))"
      unfolding uframe_def st
    proof (intro allI impI ballI)
      fix i x assume i: "i < length (drop n bs)" and x: "x \<in> tpages (mem s) 2 pt"
        and wr: "uwritable (mem s) pt (va + of_nat n + of_nat i)"
      have "n + i < length bs" using i by simp
      then show "unat (uaddr (mem s) pt (va + of_nat n + of_nat i)) div 4096 \<noteq> unat x div 4096"
        using Suc.prems(2) [unfolded uframe_def, rule_format, of "n + i" x] x wr by (simp add: add.assoc)
    qed
    have split: "(\<forall>i<length bs. uwritable (mem s) pt (va + of_nat i)) \<longleftrightarrow>
        (\<forall>i<length (drop n bs). uwritable ?m pt (va + of_nat n + of_nat i))" (is "?A \<longleftrightarrow> ?B")
      unfolding st length_drop by (rule range_split [where P = "uwritable (mem s) pt", OF n(1) w])
    show ?thesis
    proof (cases "n = length bs")
      case True
      then show ?thesis using r w Suc.prems(3) 3
        by (cases fuel) (simp_all add: k_simps copyout_round_nil exI [of _ ?m])
    next
      case False
      then have nx: "PGROUNDDOWN va + PGSIZE = va + of_nat n" using chunk_next n(1) by (simp add: n_def)
      have "length (drop n bs) < fuel" "length (drop n bs) < 18446744073709551616"
        using Suc.prems(3,4) n by auto
      from Suc.IH [OF _ _ this, of "s\<lparr>mem := ?m\<rparr>" "va + of_nat n"] fr st
      obtain m' where m': "kloop fuel (copyout_round pt) (va + of_nat n, drop n bs) (s\<lparr>mem := ?m\<rparr>) =
          Inr (if ?A then 0 else -1, s\<lparr>mem := m'\<rparr>)"
        "?A \<longrightarrow> m' = ustore ?m pt (va + of_nat n) (drop n bs)"
        unfolding split by auto
      then show ?thesis using ustore_append [OF st(1) n(1)] r nx
        by (intro exI [of _ m']) (simp add: k_simps)
    qed
  qed
qed simp

text \<open>\<^verbatim>\<open>copyin\<close> changes nothing and reads the bytes of the range.\<close>

lemma copyin_round_page:
  fixes va :: u64
  assumes "twf (mem s) 2 pt" "0 < len"
  defines "n \<equiv> chunk va (unat len)"
  shows "copyin_round pt (va, len, dst) s =
    Inr (if ureadable (mem s) pt va then Inl (PGROUNDDOWN va + PGSIZE, len - of_nat n, dst @ uload (mem s) pt va n)
         else Inr (-1, dst), s)"
proof -
  have n: "page_part va len = of_nat n"
    using unat_page_part [of va len] by (simp add: n_def chunk_def word_unat_eq_iff unat_of_nat_u64 u64_bound min_less_iff_disj)
  have n64: "unat (of_nat n :: u64) = n"
    using u64_bound [of len] by (simp add: n_def chunk_def unat_of_nat_u64 min_less_iff_disj)
  have "uaddr (mem s) pt (va + of_nat i) = uaddr (mem s) pt va + of_nat i" if "i < n" for i
    using that by (intro u_same_page) (simp add: n_def chunk_def)
  then have "uload (mem s) pt va n = load_bytes (mem s) (uaddr (mem s) pt va) n"
    unfolding uload_def load_bytes_def by simp
  then show ?thesis
    using assms(2) by (auto simp: copyin_round_def walkaddr_uaddr [OF assms(1)] k_simps Let_def n n64 uaddr_def ureadable_def)
qed

lemma uload_append: "n \<le> l \<Longrightarrow> uload m pt va n @ uload m pt (va + of_nat n) (l - n) = uload m pt va l"
  by (rule nth_equalityI) (auto simp: uload_def nth_append ac_simps simp flip: of_nat_add)

lemma copyin_loop:
  assumes "twf (mem s) 2 pt" "unat len < fuel"
  shows "\<exists>dst'. kloop fuel (copyin_round pt) (va, len, dst) s =
      Inr ((if \<forall>i<unat len. ureadable (mem s) pt (va + of_nat i) then 0 else -1, dst'), s) \<and>
    ((\<forall>i<unat len. ureadable (mem s) pt (va + of_nat i)) \<longrightarrow> dst' = dst @ uload (mem s) pt va (unat len))"
  using assms
proof (induction fuel arbitrary: va len dst)
  case (Suc fuel)
  consider "len = 0" | "0 < len" "\<not> ureadable (mem s) pt va" | "0 < len" "ureadable (mem s) pt va"
    by (auto simp: word_gt_0)
  then show ?case
  proof cases
    case 1 then show ?thesis by (simp add: copyin_round_def k_simps uload_def)
  next
    case 2
    then have "\<exists>i<unat len. \<not> ureadable (mem s) pt (va + of_nat i)"
      by (intro exI [of _ 0]) (simp add: unat_gt_0)
    then show ?thesis using 2 copyin_round_page [OF Suc.prems(1) 2(1)] by (auto simp: k_simps)
  next
    case 3
    define n where "n = chunk va (unat len)"
    have n: "n \<le> unat len" "0 < n" using chunk_bounds 3(1) by (auto simp: n_def unat_gt_0)
    have w: "ureadable (mem s) pt (va + of_nat i)" if "i < n" for i
      using u_same_page(3) [of i va "mem s" pt] 3(2) that by (simp add: n_def chunk_def)
    have l: "unat (len - of_nat n) = unat len - n"
      using n u64_bound [of len] by (simp add: unat_diff_u64 word_le_nat_alt unat_of_nat_u64)
    have r: "copyin_round pt (va, len, dst) s =
        Inr (Inl (PGROUNDDOWN va + PGSIZE, len - of_nat n, dst @ uload (mem s) pt va n), s)"
      using copyin_round_page [OF Suc.prems(1) 3(1)] 3(2) by (simp add: n_def)
    have split: "(\<forall>i<unat len. ureadable (mem s) pt (va + of_nat i)) \<longleftrightarrow>
        (\<forall>i<unat len - n. ureadable (mem s) pt (va + of_nat n + of_nat i))" (is "?A \<longleftrightarrow> ?B")
      by (rule range_split [where P = "ureadable (mem s) pt", OF n(1) w])
    show ?thesis
    proof (cases "n = unat len")
      case True
      then have "len = of_nat n" by simp
      with True show ?thesis using r w Suc.prems(2) 3
        by (cases fuel) (simp_all add: k_simps copyin_round_def)
    next
      case False
      then have nx: "PGROUNDDOWN va + PGSIZE = va + of_nat n" using chunk_next n(1) by (simp add: n_def)
      have "unat (len - of_nat n) < fuel" using Suc.prems(2) n l by simp
      from Suc.IH [OF Suc.prems(1) this, of "va + of_nat n" "dst @ uload (mem s) pt va n"] obtain dst' where d:
        "kloop fuel (copyin_round pt) (va + of_nat n, len - of_nat n, dst @ uload (mem s) pt va n) s =
          Inr ((if ?A then 0 else -1, dst'), s)"
        "?A \<longrightarrow> dst' = dst @ uload (mem s) pt va n @ uload (mem s) pt (va + of_nat n) (unat len - n)"
        unfolding split l by auto
      then show ?thesis using uload_append [OF n(1)] r nx by (intro exI [of _ dst']) (simp add: k_simps)
    qed
  qed
qed simp

section \<open>The contracts of \<^verbatim>\<open>copyout\<close> and \<^verbatim>\<open>copyin\<close>\<close>

lemma copyout_ustore:
  assumes "twf (mem s) 2 pt" "uframe (mem s) pt va (length bs)" "length bs < PAGE_ROUNDS"
  shows "\<exists>m'. copyout pt va bs s =
      Inr (if \<forall>i<length bs. uwritable (mem s) pt (va + of_nat i) then 0 else -1, s\<lparr>mem := m'\<rparr>) \<and>
    ((\<forall>i<length bs. uwritable (mem s) pt (va + of_nat i)) \<longrightarrow> m' = ustore (mem s) pt va bs)"
  unfolding copyout_def using assms(3) by (intro copyout_loop [OF assms]) (simp add: PAGE_ROUNDS_def)

lemma copyin_uload:
  assumes "twf (mem s) 2 pt" "unat len < PAGE_ROUNDS"
  shows "\<exists>dst. copyin pt va len s = Inr ((if \<forall>i<unat len. ureadable (mem s) pt (va + of_nat i) then 0 else -1, dst), s) \<and>
    ((\<forall>i<unat len. ureadable (mem s) pt (va + of_nat i)) \<longrightarrow> dst = uload (mem s) pt va (unat len))"
  unfolding copyin_def using copyin_loop [OF assms, of va "[]"] by simp

text \<open>
  C8. What the kernel copies out to a user range, it reads back from there: on a well-formed
  page table that maps the bytes of the range to different bytes of memory, readable and
  writable from user mode and outside the pages of the table, \<^verbatim>\<open>copyout\<close> succeeds, a
  \<^verbatim>\<open>copyin\<close> of the same range then gives the same bytes and changes nothing, and no byte of
  memory outside the range has changed.
\<close>

theorem copyout_copyin_roundtrip:
  fixes s :: "'a kmem_scheme" and bs :: "u8 list"
  defines "A \<equiv> \<lambda>pt va i. uaddr (mem s) pt (va + of_nat i)"
  assumes pt: "twf (mem s) 2 pt" and fr: "uframe (mem s) pt va (length bs)" and len: "length bs < PAGE_ROUNDS"
    and rw: "\<And>i. i < length bs \<Longrightarrow> uwritable (mem s) pt (va + of_nat i) \<and> ureadable (mem s) pt (va + of_nat i)"
    and inj: "inj_on (A pt va) {..<length bs}"
  shows "\<exists>t. copyout pt va bs s = Inr (0, t) \<and>
    copyin pt va (of_nat (length bs)) t = Inr ((0, bs), t) \<and>
    (\<forall>b. b \<notin> A pt va ` {..<length bs} \<longrightarrow> mem t b = mem s b)"
proof -
  let ?m = "ustore (mem s) pt va bs"
  have out: "copyout pt va bs s = Inr (0, s\<lparr>mem := ?m\<rparr>)"
    using copyout_ustore [OF pt fr len] rw by auto
  have same: "same_page (mem s) ?m x" if "x \<in> tpages (mem s) 2 pt" for x
    using ustore_stable [OF pt fr order_refl _ refl that] rw by blast
  have st: "uaddr ?m pt = uaddr (mem s) pt" "ureadable ?m pt = ureadable (mem s) pt" "twf ?m 2 pt"
    by (simp_all add: uaddr_stable [OF pt same] vmap_stable [OF pt same])
  have l: "unat (of_nat (length bs) :: u64) = length bs"
    using len by (intro unat_of_nat_u64) (simp add: PAGE_ROUNDS_def)
  have inj': "inj_on (A pt va) (set [0..<length bs])" using inj by (simp add: atLeast0LessThan)
  have "?m (A pt va i) = bs ! i" if "i < length bs" for i
    using fold_upd_at [OF inj' distinct_upt, of i "(!) bs" "mem s"] that by (simp only: ustore_def A_def set_upt atLeast0LessThan lessThan_iff)
  then have "uload ?m pt va (length bs) = bs"
    by (auto simp: uload_def st A_def intro: nth_equalityI)
  then have "copyin pt va (of_nat (length bs)) (s\<lparr>mem := ?m\<rparr>) = Inr ((0, bs), s\<lparr>mem := ?m\<rparr>)"
    using copyin_uload [of "s\<lparr>mem := ?m\<rparr>" pt "of_nat (length bs)" va] st rw len by (auto simp: l)
  moreover have "?m b = mem s b" if "b \<notin> A pt va ` {..<length bs}" for b
    unfolding ustore_def using that by (intro fold_upd_other) (auto simp: A_def)
  ultimately show ?thesis using out by (intro exI [of _ "s\<lparr>mem := ?m\<rparr>"]) simp
qed

text \<open>A page table with one mapping: the page at 0x3000 is the frame 0x80005000, for user reads and writes.\<close>

definition set_ent :: "u64 \<Rightarrow> nat \<Rightarrow> u64 \<Rightarrow> memory \<Rightarrow> memory" where
  "set_ent pg i v m = store64 m (pg + 8 * of_nat i) v"

definition demo_pt :: memory where
  "demo_pt = set_ent 0x80003000 3 (PA2PTE 0x80005000 OR PTE_V OR PTE_R OR PTE_W OR PTE_U)
     (set_ent 0x80002000 0 (PA2PTE 0x80003000 OR PTE_V) (set_ent 0x80001000 0 (PA2PTE 0x80002000 OR PTE_V) (\<lambda>_. 0)))"

lemma ent_store64_other:
  assumes "pg_aligned pg" "pg_aligned pg'" "pg \<noteq> pg'" "i < 512" "j < 512"
  shows "ent (store64 m (pg + 8 * of_nat i) v) pg' j = ent m pg' j"
proof (rule load64_ent_cong [OF assms(2,5)])
  have "unat pg = unat pg div 4096 * 4096" "unat pg' = unat pg' div 4096 * 4096"
    using assms(1,2) div_mult_mod_eq [of "unat pg" 4096] div_mult_mod_eq [of "unat pg'" 4096]
    by (simp_all add: pg_aligned_iff)
  with assms(3) have "unat pg' div 4096 \<noteq> unat pg div 4096" by (auto simp: word_unat_eq_iff)
  then show "same_page m (store64 m (pg + 8 * of_nat i) v) pg'"
    by (auto simp: same_page_def intro: store64_in_page [OF assms(1,4)])
qed

lemma ent_set_ent:
  assumes "pg_aligned pg" "pg_aligned pg'" "i < 512" "j < 512"
  shows "ent (set_ent pg i v m) pg' j = (if pg = pg' \<and> i = j then v else ent m pg' j)"
  using assms by (cases "pg = pg'") (simp_all add: set_ent_def ent_store64 ent_store64_other)

lemma demo_aligned: "pg_aligned 0x80001000" "pg_aligned 0x80002000" "pg_aligned 0x80003000"
  by (simp_all add: pg_aligned_def PGSIZE_def)

lemma demo_pt_ent:
  assumes "i < 512"
  shows "ent demo_pt 0x80001000 i = (if i = 0 then PA2PTE 0x80002000 OR PTE_V else 0)"
    "ent demo_pt 0x80002000 i = (if i = 0 then PA2PTE 0x80003000 OR PTE_V else 0)"
    "ent demo_pt 0x80003000 i = (if i = 3 then PA2PTE 0x80005000 OR PTE_V OR PTE_R OR PTE_W OR PTE_U else 0)"
  using assms by (simp_all add: demo_pt_def ent_set_ent demo_aligned ent_zeroed)

lemma demo_pt_links [simp]:
  "valid (PA2PTE 0x80002000 OR PTE_V)" "PTE2PA (PA2PTE 0x80002000 OR PTE_V) = 0x80002000"
  "valid (PA2PTE 0x80003000 OR PTE_V)" "PTE2PA (PA2PTE 0x80003000 OR PTE_V) = 0x80003000"
  "\<not> valid 0"
  by (simp_all add: valid_def PA2PTE_def PTE2PA_def PTE_V_def)

lemma tree_one_child:
  assumes "k < 512" "\<And>i. i < 512 \<Longrightarrow> valid (ent m pg i) \<longleftrightarrow> i = k"
  shows "tpages m (Suc l) pg = insert pg (tpages m l (PTE2PA (ent m pg k)))"
    "twf m (Suc l) pg \<longleftrightarrow> pg_aligned pg \<and> pg \<noteq> 0 \<and> twf m l (PTE2PA (ent m pg k)) \<and>
       pg \<notin> tpages m l (PTE2PA (ent m pg k))"
  using assms by (auto split: if_splits)

lemma demo_pt_tree:
  "tpages demo_pt 2 0x80001000 = {0x80001000, 0x80002000, 0x80003000}" "twf demo_pt 2 0x80001000"
proof -
  have "tpages demo_pt 1 0x80002000 = {0x80002000, 0x80003000}" "twf demo_pt 1 0x80002000"
    using tree_one_child [where k = 0 and m = demo_pt and pg = "0x80002000" and l = 0] by (simp_all add: demo_pt_ent demo_aligned del: tpages.simps(2) twf.simps(2))
  then show "tpages demo_pt 2 0x80001000 = {0x80001000, 0x80002000, 0x80003000}" "twf demo_pt 2 0x80001000"
    unfolding numeral_2_eq_2
    using tree_one_child [where k = 0 and m = demo_pt and pg = "0x80001000" and l = "Suc 0"]
    by (simp_all add: demo_pt_ent demo_aligned del: tpages.simps(2) twf.simps(2))
qed

lemma demo_pt_user:
  assumes "i < 2"
  shows "upte demo_pt 0x80001000 (0x3ffe + of_nat i) = PA2PTE 0x80005000 OR PTE_V OR PTE_R OR PTE_W OR PTE_U"
    "uaddr demo_pt 0x80001000 (0x3ffe + of_nat i) = 0x80005ffe + of_nat i"
    "uwritable demo_pt 0x80001000 (0x3ffe + of_nat i)" "ureadable demo_pt 0x80001000 (0x3ffe + of_nat i)"
proof -
  have i: "i = 0 \<or> i = 1" using assms by auto
  then have p: "PGROUNDDOWN (0x3ffe + of_nat i) = 0x3000" by (auto simp: PGROUNDDOWN_def PGSIZE_def)
  have "px 2 0x3000 = 0" "px (Suc 0) 0x3000 = 0" "px 0 0x3000 = 3" by (simp_all add: PX_def PXSHIFT_def PXMASK_def)
  then show u: "upte demo_pt 0x80001000 (0x3ffe + of_nat i) = PA2PTE 0x80005000 OR PTE_V OR PTE_R OR PTE_W OR PTE_U"
    unfolding upte_def vmap_def p numeral_2_eq_2 by (simp add: leaf_Suc leaf_0 demo_pt_ent)
  have c: "PTE2PA (PA2PTE 0x80005000 OR PTE_V OR PTE_R OR PTE_W OR PTE_U) = 0x80005000"
    by (simp add: PA2PTE_def PTE2PA_def PTE_V_def PTE_R_def PTE_W_def PTE_U_def)
  show "uaddr demo_pt 0x80001000 (0x3ffe + of_nat i) = 0x80005ffe + of_nat i"
    by (simp add: uaddr_def u p c)
  show "uwritable demo_pt 0x80001000 (0x3ffe + of_nat i)" "ureadable demo_pt 0x80001000 (0x3ffe + of_nat i)"
    by (simp_all add: uwritable_def ureadable_def u p c)
      (simp_all add: valid_def PA2PTE_def PTE2PA_def PTE_V_def PTE_R_def PTE_W_def PTE_U_def MAXVA_val)
qed

theorem copyout_copyin_roundtrip_witness:
  "\<exists>t. copyout 0x80001000 0x3ffe [7, 9] (demo_kmem\<lparr>mem := demo_pt\<rparr>) = Inr (0, t) \<and>
     copyin 0x80001000 0x3ffe 2 t = Inr ((0, [7, 9]), t) \<and> mem t 0x80001000 = demo_pt 0x80001000"
proof -
  let ?s = "demo_kmem\<lparr>mem := demo_pt\<rparr>"
  have "uframe demo_pt 0x80001000 0x3ffe 2"
    by (auto simp: uframe_def demo_pt_tree demo_pt_user less_2_cases_iff)
  moreover have "inj_on (\<lambda>i. uaddr demo_pt 0x80001000 (0x3ffe + of_nat i)) {..<2}"
    by (auto simp: inj_on_def demo_pt_user less_2_cases_iff)
  moreover have "0x80001000 \<notin> (\<lambda>i. uaddr demo_pt 0x80001000 (0x3ffe + of_nat i)) ` {..<2}"
    by (auto simp: demo_pt_user less_2_cases_iff)
  ultimately show ?thesis
    using copyout_copyin_roundtrip [where s = ?s and pt = "0x80001000" and va = "0x3ffe" and bs = "[7, 9]"]
      demo_pt_tree(2) demo_pt_user(3,4) by (auto simp: PAGE_ROUNDS_def simp flip: numeral_2_eq_2)
qed

text \<open>
  C10. The kernel never touches user memory it may not: on a well-formed page table
  \<^verbatim>\<open>copyout\<close> returns 0 exactly when every byte of the range is mapped for user
  writes below \<open>MAXVA\<close>, \<^verbatim>\<open>copyin\<close> exactly when every byte is mapped for user access,
  and both return -1 otherwise, without a panic and without running out of rounds.
\<close>

theorem user_copy_result:
  fixes s :: "'a kmem_scheme"
  assumes "twf (mem s) 2 pt" "uframe (mem s) pt va (length bs)" "length bs < PAGE_ROUNDS"
  shows "(\<exists>t. copyout pt va bs s =
      Inr (if \<forall>i<length bs. uwritable (mem s) pt (va + of_nat i) then 0 else -1, t)) \<and>
    (\<exists>dst. copyin pt va (of_nat (length bs)) s =
      Inr ((if \<forall>i<length bs. ureadable (mem s) pt (va + of_nat i) then 0 else -1, dst), s))"
proof -
  have l: "unat (of_nat (length bs) :: u64) = length bs"
    using assms(3) by (intro unat_of_nat_u64) (simp add: PAGE_ROUNDS_def)
  show ?thesis
    using copyout_ustore [OF assms] copyin_uload [OF assms(1), of "of_nat (length bs)" va] assms(3)
    unfolding l by blast
qed

lemma demo_pt_hole:
  "\<not> uwritable demo_pt 0x80001000 0x4000" "\<not> ureadable demo_pt 0x80001000 0x4000"
proof -
  have "PGROUNDDOWN 0x4000 = 0x4000" by (simp add: PGROUNDDOWN_def PGSIZE_def)
  moreover have "px 2 0x4000 = 0" "px (Suc 0) 0x4000 = 0" "px 0 0x4000 = 4" by (simp_all add: PX_def PXSHIFT_def PXMASK_def)
  then have "vmap demo_pt 0x80001000 0x4000 = 0"
    unfolding vmap_def numeral_2_eq_2 by (simp add: leaf_Suc leaf_0 demo_pt_ent)
  ultimately show "\<not> uwritable demo_pt 0x80001000 0x4000" "\<not> ureadable demo_pt 0x80001000 0x4000"
    by (simp_all add: uwritable_def ureadable_def upte_def)
qed

theorem user_copy_result_witness:
  "(\<exists>t. copyout 0x80001000 0x4000 [7] (demo_kmem\<lparr>mem := demo_pt\<rparr>) = Inr (-1, t)) \<and>
   (\<exists>dst. copyin 0x80001000 0x4000 1 (demo_kmem\<lparr>mem := demo_pt\<rparr>) = Inr ((-1, dst), demo_kmem\<lparr>mem := demo_pt\<rparr>))"
  using user_copy_result [where s = "demo_kmem\<lparr>mem := demo_pt\<rparr>" and pt = "0x80001000" and va = "0x4000" and bs = "[7]"]
    demo_pt_hole demo_pt_tree(2) by (auto simp: uframe_def PAGE_ROUNDS_def)

end
