(* ===== verification/Xv6_Disk.thy ===== *)
theory Xv6_Disk
  imports Xv6_Virtio
begin

unbundle bit_operations_syntax

text \<open>
  What \<open>virtio_disk_rw\<close> does, from the request it posts to the interrupt that completes it. The
  device is a parameter; \<open>serves\<close> states what the virtio specification says of it.
\<close>

section \<open>A process alone in the kernel\<close>

text \<open>Process \<open>p\<close> runs in the kernel, and no spin lock is held.\<close>

definition quiet :: "nat \<Rightarrow> 'a mach_scheme \<Rightarrow> bool" where
  "quiet p s \<longleftrightarrow> p < NPROC \<and> c_proc (cpus s (tp s)) = Some p \<and> c_noff (cpus s (tp s)) = 0 \<and> (\<forall>l. lfree (lks s l))"

lemma quiet_hok: "quiet p s \<Longrightarrow> hok (tp s) (cpus s) (sstatus s)"
  by (simp add: quiet_def hok_def)

lemma quiet_thread: "quiet p s \<Longrightarrow> thread p s"
  by (simp add: thread_def quiet_hok) (simp add: quiet_def)

lemma quiet_sched_ready: "quiet p s \<Longrightarrow> sched_ready s"
  by (simp add: sched_ready_def quiet_hok) (simp add: quiet_def)

lemma quiet_avail: "quiet p s \<Longrightarrow> avail l s"
  by (simp add: avail_def cpu_ok_iff lock_free_iff quiet_hok) (simp add: quiet_def)

lemma quiet_noted [simp]: "quiet p (noted s) = quiet p s"
  by (simp add: quiet_def noted_eq lock_simps)

lemma quiet_fields:
  assumes "quiet p s"
  shows "p < NPROC" "c_proc (cpus s (tp s)) = Some p" "c_noff (cpus s (tp s)) = 0" "lfree (lks s l)"
    "hok (tp s) (cpus s) (sstatus s)"
  using assms quiet_hok [of p s] by (simp_all add: quiet_def)

text \<open>\<open>quiet\<close> looks at the hart and the locks only.\<close>

lemma quiet_cong: "tp t = tp s \<Longrightarrow> cpus t = cpus s \<Longrightarrow> lks t = lks s \<Longrightarrow> quiet p t = quiet p s"
  by (simp add: quiet_def)

text \<open>
  While \<open>p\<close> sleeps: the scheduler releases its lock, \<open>m\<close> happens, and the scheduler takes the lock
  again, finds \<open>p\<close> runnable and switches to it.
\<close>

definition meanwhile :: "nat \<Rightarrow> ('a procs_scheme, unit) kf \<Rightarrow> ('a procs_scheme, unit) kf" where
  "meanwhile p m =
     kbind mycpu (\<lambda>c. block [
       set_cpu c (\<lambda>cp. cp\<lparr>c_proc := None\<rparr>),
       release (L_proc p),
       m,
       acquire (L_proc p),
       kbind (pget p p_state) (\<lambda>st. if st = RUNNABLE then pset p (\<lambda>q. q\<lparr>p_state := RUNNING\<rparr>) else spin ''scheduler''),
       set_cpu c (\<lambda>cp. cp\<lparr>c_proc := Some p\<rparr>)])"

lemma meanwhile_run:
  assumes "quiet p s" and "m (on_behalf None (noted s)) = Inr ((), on_behalf None (noted t))"
    and t: "tp t = tp s" "cpus t = cpus s" "sstatus t = sstatus s" "lks t = lks s"
    and "p_state (proc_tab t p) = RUNNABLE"
  shows "meanwhile p m (entered (L_proc p) s) =
    Inr ((), entered (L_proc p) (t\<lparr>proc_tab := (proc_tab t)(p := (proc_tab t p)\<lparr>p_state := RUNNING\<rparr>)\<rparr>))"
proof -
  note q = quiet_fields [OF assms(1)]
  have "(cpus s)(tp s := (cpus s (tp s))\<lparr>c_proc := Some p\<rparr>) = cpus s" using q(2) by (auto simp: fun_eq_iff)
  then show ?thesis using assms(2-) q
    by (simp add: meanwhile_def mycpu_def cpuid_def set_cpu_def pget_def pset_def k_simps entered_eq
        lock_simps on_behalf_def noted_eq)
qed

text \<open>\<open>sleep\<close>, when something that makes \<open>p\<close> runnable happens in the meantime.\<close>

lemma sleep_meanwhile:
  assumes "quiet p s" "\<forall>r. lk \<noteq> L_proc r" "others e ch = meanwhile p m"
    and "m (on_behalf None (noted (sleeping_on ch p s))) = Inr ((), on_behalf None (noted t))"
    and t: "tp t = tp s" "cpus t = cpus s" "sstatus t = sstatus s" "lks t = lks s"
    and "p_state (proc_tab t p) = RUNNABLE"
  shows "sleep e ch lk (entered lk s) =
    Inr ((), entered lk (t\<lparr>proc_tab := (proc_tab t)(p := (proc_tab t p)\<lparr>p_state := RUNNING, p_chan := None\<rparr>)\<rparr>))"
proof -
  note q = quiet_fields [OF assms(1)]
  have "quiet p (sleeping_on ch p s)" using assms(1) by (simp add: quiet_def sleeping_on_def)
  note r = meanwhile_run [of p "sleeping_on ch p s" m t, OF this assms(4)]
  let ?u = "t\<lparr>proc_tab := (proc_tab t)(p := (proc_tab t p)\<lparr>p_state := RUNNING\<rparr>)\<rparr>"
  have "sleep e ch lk (entered lk s) =
      sleep_resume lk p (c_intena (cpus (entered lk s) (tp s))) (entered (L_proc p) ?u)"
    using sleep_run [OF quiet_avail [OF assms(1)], of lk p e ch] q assms r
    by (simp add: k_simps sleeping_on_def)
  also have "\<dots> = Inr ((), entered lk (?u\<lparr>proc_tab := (proc_tab ?u)(p := (proc_tab ?u p)\<lparr>p_chan := None\<rparr>)\<rparr>))"
    using q assms by (intro sleep_resume_run) (simp_all add: avail_def cpu_ok_iff lock_free_iff entered_eq)
  finally show ?thesis by simp
qed

section \<open>The device\<close>

text \<open>
  A request as the device finds it: a chain of three descriptors that starts at \<open>i\<close>, for buffer
  \<open>b\<close> and the two sectors of block \<open>bn\<close>.
\<close>

definition chain :: "nat \<Rightarrow> bool \<Rightarrow> nat \<Rightarrow> nat \<Rightarrow> 'a vdisk_scheme \<Rightarrow> bool" where
  "chain i wr bn b s \<longleftrightarrow> (\<exists>j k. i < NUM \<and> j < NUM \<and> k < NUM \<and> i \<noteq> j \<and> j \<noteq> k \<and> i \<noteq> k \<and>
     vd_desc s i = \<lparr>d_addr = VOp i, d_len = 16, d_flags = VRING_DESC_F_NEXT, d_next = of_nat j\<rparr> \<and>
     vd_desc s j = \<lparr>d_addr = VData b, d_len = of_nat BSIZE,
       d_flags = (if wr then 0 else VRING_DESC_F_WRITE) OR VRING_DESC_F_NEXT, d_next = of_nat k\<rparr> \<and>
     vd_desc s k = \<lparr>d_addr = VStatus i, d_len = 1, d_flags = VRING_DESC_F_WRITE, d_next = 0\<rparr> \<and>
     vd_ops s i = \<lparr>r_type = if wr then VIRTIO_BLK_T_OUT else VIRTIO_BLK_T_IN, r_reserved = 0, r_sector = of_nat (2 * bn)\<rparr> \<and>
     2 * bn < 2 ^ 32)"

text \<open>
  Serving it: the block is transferred, the status byte is cleared, and the head of the chain is
  put into the used ring. \<open>tr\<close> is what a completed write records of the new medium in the
  part of the state that the disk driver does not know.
\<close>

definition transfer :: "((nat \<Rightarrow> u8 list) \<Rightarrow> 'm \<Rightarrow> 'm) \<Rightarrow> bool \<Rightarrow> nat \<Rightarrow> nat \<Rightarrow> 'm vdisk_scheme \<Rightarrow> 'm vdisk_scheme" where
  "transfer tr wr bn b s =
     (if wr then let m = (medium s)(bn := b_data (bufs s b)) in vdisk.more_update (tr m) (s\<lparr>medium := m\<rparr>)
      else s\<lparr>bufs := (bufs s)(b := (bufs s b)\<lparr>b_data := medium s bn\<rparr>)\<rparr>)"

definition completed :: "nat \<Rightarrow> 'a vdisk_scheme \<Rightarrow> 'a vdisk_scheme" where
  "completed i s = s\<lparr>vd_status := (vd_status s)(i := 0),
     vd_used_ring := (vd_used_ring s)(unat (vd_used_dev_idx s) mod NUM := of_nat i),
     vd_used_dev_idx := vd_used_dev_idx s + 1\<rparr>"

definition serves :: "((nat \<Rightarrow> u8 list) \<Rightarrow> 'm \<Rightarrow> 'm) \<Rightarrow> ('m vdisk_scheme, unit) kf \<Rightarrow> bool" where
  "serves tr dev \<longleftrightarrow> (\<forall>s i wr bn b.
     vd_avail_idx s = vd_used_dev_idx s + 1 \<and>
     vd_avail_ring s (unat (vd_used_dev_idx s) mod NUM) = of_nat i \<and> chain i wr bn b s \<longrightarrow>
     dev s = Inr ((), completed i (transfer tr wr bn b s)))"

text \<open>What the rest of the system does while a process waits for its block: the device serves
  the request and raises the interrupt.\<close>

definition disk_env :: "device_regs \<Rightarrow> ('a vdisk_scheme, unit) kf \<Rightarrow> nat \<Rightarrow> nat \<Rightarrow> 'a vdisk_scheme env" where
  "disk_env regs dev p n = (n, \<lambda>ch. meanwhile p (kseq dev (virtio_disk_intr regs)))"

section \<open>The interrupt\<close>

lemma kloop_two:
  assumes "body i s = Inr (Inl j, t)" "body j t = Inr (Inr x, u)" "2 \<le> n"
  shows "kloop n body i s = Inr (x, u)"
proof -
  obtain m where "n = Suc (Suc m)" using assms(3) by (metis Suc_le_D add_2_eq_Suc le_Suc_ex)
  with assms show ?thesis by (simp add: k_simps)
qed

lemma entered_upd [simp]:
  "entered l (s\<lparr>bufs := a\<rparr>) = (entered l s)\<lparr>bufs := a\<rparr>"
  "entered l (t\<lparr>proc_tab := c\<rparr>) = (entered l t)\<lparr>proc_tab := c\<rparr>"
  for s :: "'a bcache_scheme" and t :: "'b procs_scheme"
  by (simp_all add: entered_eq)

lemma bufs_entered: "bufs (entered l s) = bufs s"
  by (simp add: entered_eq)

lemma wakeup_ok [lock_simps]:
  "hok (tp s) (cpus s) (sstatus s) \<Longrightarrow> \<forall>q<NPROC. lfree (lks s (L_proc q)) \<Longrightarrow> wakeup ch s =
    Inr ((), s\<lparr>cpus := note_cpus (tp s) (cpus s) (sstatus s),
      proc_tab := woken ch (c_proc (cpus s (tp s))) (proc_tab s) NPROC\<rparr>)"
  by (simp add: wakeup_run sched_ready_def noted_eq)

lemma release_entered_upd:
  "hok (tp s) (cpus s) (sstatus s) \<Longrightarrow> lfree (lks s l) \<Longrightarrow> release l (entered l s) = Inr ((), noted s)"
  by (simp add: release_entered avail_def cpu_ok_iff lock_free_iff)

text \<open>One completed request, for the buffer that \<open>info\<close> names.\<close>

lemma virtio_disk_intr_run:
  assumes "hok (tp s) (cpus s) (sstatus s)" "\<forall>l. lfree (lks s l)"
    and "vd_used_dev_idx s = vd_used_idx s + 1"
    and "vd_used_ring s (unat (vd_used_idx s) mod NUM) = of_nat i" "i < NUM"
    and "vd_status s i = 0" "vd_info_b s i = Some b"
  shows "virtio_disk_intr regs s = Inr ((), (noted s)\<lparr>
    vwrites := vwrites s @ [(VIRTIO_MMIO_INTERRUPT_ACK, regs (vwrites s) VIRTIO_MMIO_INTERRUPT_STATUS AND 3)],
    bufs := (bufs s)(b := (bufs s b)\<lparr>b_disk := 0\<rparr>),
    proc_tab := woken (Some (ChanBuf b)) (c_proc (cpus s (tp s))) (proc_tab s) NPROC,
    vd_used_idx := vd_used_idx s + 1\<rparr>)"
proof -
  let ?e = "(entered L_vdisk s)\<lparr>vwrites := vwrites s @ [(VIRTIO_MMIO_INTERRUPT_ACK, regs (vwrites s) VIRTIO_MMIO_INTERRUPT_STATUS AND 3)]\<rparr>"
  let ?t = "?e\<lparr>bufs := (bufs s)(b := (bufs s b)\<lparr>b_disk := 0\<rparr>),
    proc_tab := woken (Some (ChanBuf b)) (c_proc (cpus s (tp s))) (proc_tab s) NPROC,
    vd_used_idx := vd_used_idx s + 1\<rparr>"
  have i: "unat (of_nat i :: u32) = i" using assms(5) by (simp add: NUM_def unat_of_nat take_bit_nat_eq_self)
  have "virtio_intr_round () ?e = Inr (Inl (), ?t)"
    using assms i by (simp add: virtio_intr_round_def k_simps bset_def entered_eq lock_simps)
  moreover have "virtio_intr_round () ?t = Inr (Inr (), ?t)"
    using assms(3) by (simp add: virtio_intr_round_def k_simps entered_eq)
  ultimately have "kloop (2 ^ 16) virtio_intr_round () ?e = Inr ((), ?t)" by (rule kloop_two) simp
  then show ?thesis using assms(1,2)
    by (simp add: virtio_disk_intr_def k_simps entered_eq vread_def vwrite_def noted_eq lock_simps)
qed

section \<open>A request\<close>

definition idle_disk :: "'a vdisk_scheme \<Rightarrow> bool" where
  "idle_disk s \<longleftrightarrow> (\<forall>i<NUM. vd_free s i) \<and> vd_used_dev_idx s = vd_used_idx s \<and> vd_avail_idx s = vd_used_idx s"

text \<open>The state in which \<open>virtio_disk_rw\<close> goes to sleep: the chain is 0, 1, 2.\<close>

definition posted :: "nat \<Rightarrow> bool \<Rightarrow> 'a vdisk_scheme \<Rightarrow> 'a vdisk_scheme" where
  "posted b wr s = s\<lparr>vd_free := (vd_free s)(0 := False, 1 := False, 2 := False),
     vd_ops := (vd_ops s)(0 := \<lparr>r_type = if wr then VIRTIO_BLK_T_OUT else VIRTIO_BLK_T_IN, r_reserved = 0,
       r_sector = ucast (b_blockno (bufs s b) * 2)\<rparr>),
     vd_desc := (vd_desc s)(0 := \<lparr>d_addr = VOp 0, d_len = 16, d_flags = VRING_DESC_F_NEXT, d_next = 1\<rparr>,
       1 := \<lparr>d_addr = VData b, d_len = of_nat BSIZE, d_flags = (if wr then 0 else VRING_DESC_F_WRITE) OR VRING_DESC_F_NEXT, d_next = 2\<rparr>,
       2 := \<lparr>d_addr = VStatus 0, d_len = 1, d_flags = VRING_DESC_F_WRITE, d_next = 0\<rparr>),
     vd_status := (vd_status s)(0 := 0xff), bufs := (bufs s)(b := (bufs s b)\<lparr>b_disk := 1\<rparr>),
     vd_info_b := (vd_info_b s)(0 := Some b),
     vd_avail_ring := (vd_avail_ring s)(unat (vd_avail_idx s) mod NUM := 0),
     vd_avail_idx := vd_avail_idx s + 1, vwrites := vwrites s @ [(VIRTIO_MMIO_QUEUE_NOTIFY, 0)]\<rparr>"

lemma upt_NUM: "[0..<NUM] = [0, 1, 2, 3, 4, 5, 6, 7]"
  by (simp add: NUM_def upt_rec)

lemma wait_desc_run:
  assumes "vd_free s 0" "vd_free s 1" "vd_free s 2"
  shows "wait_desc e s = Inr ((0, 1, 2), s\<lparr>vd_free := (vd_free s)(0 := False, 1 := False, 2 := False)\<rparr>)"
  using assms unfolding wait_desc_def
  by (intro kwaiting_exit) (simp add: alloc3_desc_def alloc_desc_def upt_NUM k_simps)

lemma post_run:
  "block [format_request b wr (ucast (b_blockno (bufs s b) * 2)) 0 1 2, submit_request 0]
     ((entered l s)\<lparr>vd_free := (vd_free s)(0 := False, 1 := False, 2 := False)\<rparr>) = Inr ((), entered l (posted b wr s))"
  by (simp add: format_request_def submit_request_def k_simps set_desc_def bset_def vwrite_def entered_eq posted_def)

lemma woken_pid [simp]: "p_pid (woken ch me P n q) = p_pid (P q)"
  by (simp add: woken_def)

lemma chain_posted:
  assumes "unat (b_blockno (bufs s b)) < 2 ^ 31"
  shows "chain 0 wr (unat (b_blockno (bufs s b))) b (posted b wr s)"
proof -
  let ?bn = "b_blockno (bufs s b)"
  have "unat (?bn * 2) = 2 * unat ?bn" using assms by (subst unat_mult_lem [THEN iffD1]) simp_all
  then have "(ucast (?bn * 2) :: u64) = of_nat (2 * unat ?bn)"
    by (metis of_nat_unat)
  with assms show ?thesis
    unfolding chain_def by (intro exI [of _ 1] exI [of _ 2]) (simp add: posted_def NUM_def)
qed

text \<open>What the device and the interrupt leave behind.\<close>

definition answered :: "((nat \<Rightarrow> u8 list) \<Rightarrow> 'm \<Rightarrow> 'm) \<Rightarrow> device_regs \<Rightarrow> nat \<Rightarrow> bool \<Rightarrow> nat \<Rightarrow> 'm vdisk_scheme \<Rightarrow> 'm vdisk_scheme" where
  "answered tr regs bn wr b s = (let t = completed 0 (transfer tr wr bn b s) in
     t\<lparr>vwrites := vwrites t @ [(VIRTIO_MMIO_INTERRUPT_ACK, regs (vwrites t) VIRTIO_MMIO_INTERRUPT_STATUS AND 3)],
       bufs := (bufs t)(b := (bufs t b)\<lparr>b_disk := 0\<rparr>),
       proc_tab := woken (Some (ChanBuf b)) None (proc_tab t) NPROC, vd_used_idx := vd_used_idx t + 1\<rparr>)"

lemma served_run:
  assumes "serves tr dev" "hok (tp s) (cpus s) (sstatus s)" "\<forall>l. lfree (lks s l)"
    and "vd_avail_idx s = vd_used_dev_idx s + 1" "vd_used_dev_idx s = vd_used_idx s"
    and "vd_avail_ring s (unat (vd_used_idx s) mod NUM) = 0" "chain 0 wr bn b s" "vd_info_b s 0 = Some b"
  shows "kseq dev (virtio_disk_intr regs) (on_behalf None (noted s)) =
    Inr ((), on_behalf None (noted (answered tr regs bn wr b s)))"
proof -
  let ?s = "on_behalf None (noted s)"
  have "dev ?s = Inr ((), completed 0 (transfer tr wr bn b ?s))"
    using assms(1,4-7) unfolding serves_def
    by (elim allE [of _ ?s] allE [of _ 0] allE [of _ wr] allE [of _ bn] allE [of _ b]) (simp add: on_behalf_def noted_eq chain_def)
  moreover have "completed 0 (transfer tr wr bn b ?s) = on_behalf None (noted (completed 0 (transfer tr wr bn b s)))"
    by (simp add: completed_def transfer_def on_behalf_def noted_eq Let_def)
  moreover let ?t = "on_behalf None (noted (completed 0 (transfer tr wr bn b s)))"
  have "virtio_disk_intr regs ?t = Inr ((), on_behalf None (noted (answered tr regs bn wr b s)))"
    using assms(2,3,5,8)
    by (subst virtio_disk_intr_run [where i = 0 and b = b])
      (simp_all add: completed_def transfer_def on_behalf_def noted_eq Let_def NUM_def answered_def lock_simps)
  ultimately show ?thesis by (simp add: k_simps)
qed

lemma answered_fields:
  "tp (answered tr regs bn wr b s) = tp s" "cpus (answered tr regs bn wr b s) = cpus s"
  "sstatus (answered tr regs bn wr b s) = sstatus s" "lks (answered tr regs bn wr b s) = lks s"
  "proc_tab (answered tr regs bn wr b s) = woken (Some (ChanBuf b)) None (proc_tab s) NPROC"
  "b_disk (bufs (answered tr regs bn wr b s) b) = 0"
  by (simp_all add: answered_def completed_def transfer_def Let_def)

lemma kwaiting_two:
  assumes "body i s = Inr (Inl j, t)" "body j t = Inr (Inr x, u)" "1 \<le> n"
  shows "kwaiting ch n body i s = Inr (x, u)"
proof -
  obtain m where "n = Suc m" using assms(3) by (cases n) auto
  with assms show ?thesis by (simp add: k_simps kwaiting_exit)
qed

lemma wait_request_run:
  assumes "serves tr dev" "quiet p s" "1 \<le> n"
    and "vd_avail_idx s = vd_used_dev_idx s + 1" "vd_used_dev_idx s = vd_used_idx s"
    and "vd_avail_ring s (unat (vd_used_idx s) mod NUM) = 0" "chain 0 wr bn b s" "vd_info_b s 0 = Some b"
    and "b_disk (bufs s b) = 1"
  shows "\<exists>P. (\<forall>q. p_pid (P q) = p_pid (proc_tab s q)) \<and>
    wait_request (disk_env regs dev p n) b (entered L_vdisk s) =
      Inr ((), entered L_vdisk ((answered tr regs bn wr b s)\<lparr>proc_tab := P\<rparr>))"
proof -
  let ?u = "sleeping_on (ChanBuf b) p s" and ?e = "disk_env regs dev p n"
  let ?t = "answered tr regs bn wr b ?u"
  let ?P = "(proc_tab ?t)(p := (proc_tab ?t p)\<lparr>p_state := RUNNING, p_chan := None\<rparr>)"
  note q = quiet_fields [OF assms(2)]
  have dev: "kseq dev (virtio_disk_intr regs) (on_behalf None (noted ?u)) = Inr ((), on_behalf None (noted ?t))"
    using assms q by (intro served_run) (simp_all add: sleeping_on_def chain_def)
  have run: "p_state (proc_tab ?t p) = RUNNABLE"
    using q(1) by (simp add: answered_fields woken_def sleeping_on_def)
  have "sleep ?e (ChanBuf b) L_vdisk (entered L_vdisk s) = Inr ((), entered L_vdisk (?t\<lparr>proc_tab := ?P\<rparr>))"
    by (rule sleep_meanwhile [where m = "kseq dev (virtio_disk_intr regs)" and t = ?t])
      (use assms(2) dev run in \<open>simp_all add: disk_env_def others_def answered_fields sleeping_on_def\<close>)
  moreover have "?t\<lparr>proc_tab := ?P\<rparr> = (answered tr regs bn wr b s)\<lparr>proc_tab := ?P\<rparr>"
    by (simp add: answered_def completed_def transfer_def sleeping_on_def Let_def)
  ultimately have s: "sleep ?e (ChanBuf b) L_vdisk (entered L_vdisk s) =
      Inr ((), entered L_vdisk ((answered tr regs bn wr b s)\<lparr>proc_tab := ?P\<rparr>))" by simp
  have rn: "1 \<le> rounds ?e" using assms(3) by (simp add: rounds_def disk_env_def)
  have "wait_request ?e b (entered L_vdisk s) = Inr ((), entered L_vdisk ((answered tr regs bn wr b s)\<lparr>proc_tab := ?P\<rparr>))"
    unfolding wait_request_def using assms(9)
    by (intro kwaiting_two [OF _ _ rn]) (simp add: bufs_entered s k_simps bget_field_def, simp add: bufs_entered k_simps bget_field_def answered_fields)
  moreover have "\<forall>q. p_pid (?P q) = p_pid (proc_tab s q)" by (simp add: answered_fields sleeping_on_def)
  ultimately show ?thesis by blast
qed

lemma free_desc_run:
  assumes "hok (tp s) (cpus s) (sstatus s)" "\<forall>q<NPROC. lfree (lks s (L_proc q))" "i < NUM" "\<not> vd_free s i"
  shows "free_desc i s = Inr ((), s\<lparr>
    vd_desc := (vd_desc s)(i := \<lparr>d_addr = VNull, d_len = 0, d_flags = 0, d_next = 0\<rparr>),
    vd_free := (vd_free s)(i := True), cpus := note_cpus (tp s) (cpus s) (sstatus s),
    proc_tab := woken (Some ChanDisk) (c_proc (cpus s (tp s))) (proc_tab s) NPROC\<rparr>)"
  using assms by (simp add: free_desc_def set_desc_def k_simps lock_simps)

lemma free_chain_run:
  assumes "hok (tp s) (cpus s) (sstatus s)" "\<forall>q<NPROC. lfree (lks s (L_proc q))"
    and "\<not> vd_free s 0" "\<not> vd_free s 1" "\<not> vd_free s 2"
    and "d_flags (vd_desc s 0) = VRING_DESC_F_NEXT" "d_next (vd_desc s 0) = 1"
    and "d_flags (vd_desc s 1) = x OR VRING_DESC_F_NEXT" "d_next (vd_desc s 1) = 2"
    and "d_flags (vd_desc s 2) = VRING_DESC_F_WRITE"
  shows "\<exists>D P. (\<forall>q. p_pid (P q) = p_pid (proc_tab s q)) \<and> free_chain 0 s =
    Inr ((), s\<lparr>vd_desc := D, vd_free := (vd_free s)(0 := True, 1 := True, 2 := True),
      cpus := note_cpus (tp s) (cpus s) (sstatus s), proc_tab := P\<rparr>)"
proof -
  have x: "(x OR VRING_DESC_F_NEXT) AND VRING_DESC_F_NEXT \<noteq> 0"
  proof
    assume "(x OR VRING_DESC_F_NEXT) AND VRING_DESC_F_NEXT = 0"
    then have "bit ((x OR VRING_DESC_F_NEXT) AND VRING_DESC_F_NEXT) 0 = bit (0 :: u16) 0" by simp
    then show False by (simp add: VRING_DESC_F_NEXT_def bit_simps)
  qed
  have f: "VRING_DESC_F_NEXT \<noteq> 0" "VRING_DESC_F_WRITE AND VRING_DESC_F_NEXT = 0"
    by (simp_all add: VRING_DESC_F_NEXT_def VRING_DESC_F_WRITE_def)
  let ?w = "\<lambda>P. woken (Some ChanDisk) (c_proc (cpus s (tp s))) P NPROC"
  let ?P = "?w (?w (?w (proc_tab s)))"
  let ?z = "\<lparr>d_addr = VNull, d_len = 0, d_flags = 0, d_next = 0\<rparr>"
  have "free_chain 0 s =
    Inr ((), s\<lparr>vd_desc := (vd_desc s)(0 := ?z, 1 := ?z, 2 := ?z), vd_free := (vd_free s)(0 := True, 1 := True, 2 := True),
      cpus := note_cpus (tp s) (cpus s) (sstatus s), proc_tab := ?P\<rparr>)"
    using assms x f
    by (simp add: free_chain_def NUM_def kloop_numeral k_simps free_desc_run lock_simps)
  moreover have "\<forall>q. p_pid (?P q) = p_pid (proc_tab s q)" by simp
  ultimately show ?thesis by blast
qed

text \<open>
  The contract of \<open>virtio_disk_rw\<close>: the block is transferred, the driver is idle again, no lock is
  held, and what the driver does not own is as before.
\<close>

definition disk_done :: "((nat \<Rightarrow> u8 list) \<Rightarrow> 'm \<Rightarrow> 'm) \<Rightarrow> nat \<Rightarrow> bool \<Rightarrow> nat \<Rightarrow> 'm vdisk_scheme \<Rightarrow> 'm vdisk_scheme \<Rightarrow> bool" where
  "disk_done tr p wr b s t \<longleftrightarrow> (let bn = unat (b_blockno (bufs s b)) in
     quiet p t \<and> idle_disk t \<and> tp t = tp s \<and> slk t = slk s \<and> (\<forall>q. p_pid (proc_tab t q) = p_pid (proc_tab s q)) \<and>
     bufs t = (bufs s)(b := (bufs s b)\<lparr>b_data := if wr then b_data (bufs s b) else medium s bn, b_disk := 0\<rparr>) \<and>
     medium t = (if wr then (medium s)(bn := b_data (bufs s b)) else medium s) \<and>
     vdisk.more t = (if wr then tr (medium t) (vdisk.more s) else vdisk.more s))"

lemma block_two: "block [a, b] s = Inr ((), t) \<Longrightarrow> block (a # b # ms) s = block ms t"
  by (auto simp: k_simps split: sum.splits prod.splits)

lemma answered_more:
  "vd_free (answered tr regs bn wr b s) = vd_free s" "vd_desc (answered tr regs bn wr b s) = vd_desc s"
  "vd_info_b (answered tr regs bn wr b s) = vd_info_b s" "vd_avail_idx (answered tr regs bn wr b s) = vd_avail_idx s"
  "vd_used_dev_idx (answered tr regs bn wr b s) = vd_used_dev_idx s + 1"
  "vd_used_idx (answered tr regs bn wr b s) = vd_used_idx s + 1" "slk (answered tr regs bn wr b s) = slk s"
  "bufs (answered tr regs bn wr b s) = (bufs s)(b := (bufs s b)\<lparr>b_data := if wr then b_data (bufs s b) else medium s bn, b_disk := 0\<rparr>)"
  "medium (answered tr regs bn wr b s) = (if wr then (medium s)(bn := b_data (bufs s b)) else medium s)"
  "vdisk.more (answered tr regs bn wr b s) = (if wr then tr ((medium s)(bn := b_data (bufs s b))) (vdisk.more s) else vdisk.more s)"
  by (simp_all add: answered_def completed_def transfer_def Let_def)

lemma posted_fields:
  "tp (posted b wr s) = tp s" "cpus (posted b wr s) = cpus s" "sstatus (posted b wr s) = sstatus s" "lks (posted b wr s) = lks s"
  "vd_free (posted b wr s) = (vd_free s)(0 := False, 1 := False, 2 := False)"
  "vd_info_b (posted b wr s) = (vd_info_b s)(0 := Some b)" "slk (posted b wr s) = slk s"
  "vd_avail_idx (posted b wr s) = vd_avail_idx s + 1" "vd_used_dev_idx (posted b wr s) = vd_used_dev_idx s"
  "vd_used_idx (posted b wr s) = vd_used_idx s" "bufs (posted b wr s) = (bufs s)(b := (bufs s b)\<lparr>b_disk := 1\<rparr>)"
  "medium (posted b wr s) = medium s" "vdisk.more (posted b wr s) = vdisk.more s" "proc_tab (posted b wr s) = proc_tab s"
  "d_flags (vd_desc (posted b wr s) 0) = VRING_DESC_F_NEXT" "d_next (vd_desc (posted b wr s) 0) = 1"
  "d_flags (vd_desc (posted b wr s) (Suc 0)) = (if wr then 0 else VRING_DESC_F_WRITE) OR VRING_DESC_F_NEXT"
  "d_next (vd_desc (posted b wr s) (Suc 0)) = 2" "d_flags (vd_desc (posted b wr s) 2) = VRING_DESC_F_WRITE"
  by (simp_all add: posted_def)

lemma virtio_disk_rw_done:
  assumes "serves tr dev" "quiet p s" "idle_disk s" "1 \<le> n" "unat (b_blockno (bufs s b)) < 2 ^ 31"
  shows "\<exists>t. virtio_disk_rw (disk_env regs dev p n) b wr s = Inr ((), t) \<and> disk_done tr p wr b s t"
proof -
  let ?bn = "unat (b_blockno (bufs s b))" and ?e = "disk_env regs dev p n"
  note q = quiet_fields [OF assms(2)]
  have idle: "\<forall>i<NUM. vd_free s i" "vd_used_dev_idx s = vd_used_idx s" "vd_avail_idx s = vd_used_idx s"
    using assms(3) by (auto simp: idle_disk_def)
  then have free: "vd_free s 0" "vd_free s 1" "vd_free s 2" by (auto simp: NUM_def)
  have wd: "wait_desc ?e (entered L_vdisk s) = Inr ((0, 1, 2), (entered L_vdisk s)\<lparr>vd_free := (vd_free s)(0 := False, 1 := False, 2 := False)\<rparr>)"
    using free by (subst wait_desc_run) (simp_all add: entered_eq)
  have "quiet p (posted b wr s)" using assms(2) by (simp add: quiet_def posted_def)
  from wait_request_run [OF assms(1) this assms(4), where b = b and bn = ?bn and wr = wr and regs = regs]
    chain_posted [OF assms(5), of wr] idle
  obtain P where P: "\<forall>q. p_pid (P q) = p_pid (proc_tab s q)"
    and wr: "wait_request ?e b (entered L_vdisk (posted b wr s)) =
      Inr ((), entered L_vdisk ((answered tr regs ?bn wr b (posted b wr s))\<lparr>proc_tab := P\<rparr>))"
    by (auto simp: posted_def)
  define A where "A = answered tr regs ?bn wr b (posted b wr s)"
  note A = answered_fields [of tr regs ?bn wr b "posted b wr s", folded A_def]
    answered_more [of tr regs ?bn wr b "posted b wr s", folded A_def] posted_fields
  let ?a = "(entered L_vdisk (A\<lparr>proc_tab := P\<rparr>))\<lparr>vd_info_b := (vd_info_b s)(0 := None)\<rparr>"
  obtain D Q where Q: "\<forall>q. p_pid (Q q) = p_pid (P q)" and fc: "free_chain 0 ?a =
    Inr ((), ?a\<lparr>vd_desc := D, vd_free := (vd_free ?a)(0 := True, 1 := True, 2 := True),
      cpus := note_cpus (tp ?a) (cpus ?a) (sstatus ?a), proc_tab := Q\<rparr>)"
  proof -
    have "\<exists>D Q. (\<forall>q. p_pid (Q q) = p_pid (proc_tab ?a q)) \<and> free_chain 0 ?a =
      Inr ((), ?a\<lparr>vd_desc := D, vd_free := (vd_free ?a)(0 := True, 1 := True, 2 := True),
        cpus := note_cpus (tp ?a) (cpus ?a) (sstatus ?a), proc_tab := Q\<rparr>)"
      using q by (intro free_chain_run [where x = "if wr then 0 else VRING_DESC_F_WRITE"])
        (simp_all add: entered_eq A lock_simps)
    then show ?thesis using that by auto
  qed
  let ?t = "(noted A)\<lparr>vd_info_b := (vd_info_b s)(0 := None), vd_desc := D,
    vd_free := (vd_free s)(0 := True, 1 := True, 2 := True), proc_tab := Q\<rparr>"
  have "virtio_disk_rw ?e b wr s = block [free_chain 0, release L_vdisk] ?a"
    using q(4) [of L_vdisk] wd wr [folded A_def] post_run [of b wr s L_vdisk, THEN block_two]
    by (simp add: virtio_disk_rw_def bget_field_def k_simps acquire_run lfree_def del: block.simps)
      (simp add: k_simps entered_eq A)
  also have "\<dots> = Inr ((), ?t)"
    unfolding block.simps kseq_run fc using q by (simp add: k_simps entered_eq A lock_simps noted_eq)
  finally have "virtio_disk_rw ?e b wr s = Inr ((), ?t)" .
  moreover have "disk_done tr p wr b s ?t"
    using assms(2) idle P Q
    by (auto simp: disk_done_def idle_disk_def A Let_def noted_eq quiet_def lock_simps)
  ultimately show ?thesis by blast
qed

section \<open>The interface of the disk\<close>

text \<open>
  What the buffer cache relies on: in the environment \<open>e\<close> of process \<open>p\<close> a request returns and has
  done its transfer, provided that the device is \<open>live\<close>.
\<close>

locale block_disk =
  fixes e :: "'m vdisk_scheme env" and p :: nat and tr :: "(nat \<Rightarrow> u8 list) \<Rightarrow> 'm \<Rightarrow> 'm" and live :: bool
  assumes rw_done: "live \<Longrightarrow> quiet p s \<Longrightarrow> idle_disk s \<Longrightarrow> unat (b_blockno (bufs s b)) < 2 ^ 31 \<Longrightarrow>
    \<exists>t. virtio_disk_rw e b wr s = Inr ((), t) \<and> disk_done tr p wr b s t"
begin

text \<open>What is written to a block is what is read from it, into any buffer.\<close>

lemma write_read:
  assumes "live" "quiet p s" "idle_disk s" "unat (b_blockno (bufs s b)) < 2 ^ 31" "b_blockno (bufs s c) = b_blockno (bufs s b)"
  shows "\<exists>t. kseq (virtio_disk_rw e b True) (virtio_disk_rw e c False) s = Inr ((), t) \<and>
    b_data (bufs t c) = b_data (bufs s b) \<and> b_disk (bufs t c) = 0 \<and> quiet p t \<and> idle_disk t \<and>
    medium t = (medium s)(unat (b_blockno (bufs s b)) := b_data (bufs s b))"
proof -
  obtain u where u: "virtio_disk_rw e b True s = Inr ((), u)" "disk_done tr p True b s u"
    using rw_done [OF assms(1-4)] by blast
  moreover from u(2) have "quiet p u" "idle_disk u" "b_blockno (bufs u c) = b_blockno (bufs s b)"
    using assms(5) by (auto simp: disk_done_def Let_def)
  moreover from this assms(1,4) obtain t where "virtio_disk_rw e c False u = Inr ((), t)" "disk_done tr p False c u t"
    using rw_done [of u c False] by auto
  ultimately show ?thesis by (auto simp: k_simps disk_done_def Let_def)
qed

end

interpretation virtio: block_disk "disk_env regs dev p n" p tr "serves tr dev \<and> 1 \<le> n" for regs dev p n tr
  by unfold_locales (blast intro: virtio_disk_rw_done)

text \<open>
  C12. The disk driver transfers blocks. With a device that serves a request as the virtio
  specification says, \<^verbatim>\<open>virtio_disk_rw\<close> returns: it has posted a chain of three descriptors, has slept
  until the interrupt handler saw the chain in the used ring, and has freed the descriptors, so that
  the driver is ready for the next request and holds no lock. Writing a buffer and reading the same
  block into any buffer gives the data written, and no other block of the medium has changed.
\<close>

theorem disk_write_read:
  assumes "serves tr dev" "1 \<le> n" "quiet p s" "idle_disk s"
    and "unat (b_blockno (bufs s b)) < 2 ^ 31" "b_blockno (bufs s c) = b_blockno (bufs s b)"
  shows "\<exists>t. kseq (virtio_disk_rw (disk_env regs dev p n) b True) (virtio_disk_rw (disk_env regs dev p n) c False) s = Inr ((), t) \<and>
    b_data (bufs t c) = b_data (bufs s b) \<and> b_disk (bufs t c) = 0 \<and> quiet p t \<and> idle_disk t \<and>
    medium t = (medium s)(unat (b_blockno (bufs s b)) := b_data (bufs s b))"
  using virtio.write_read [OF _ assms(3-)] assms(1,2) by blast

text \<open>A device that follows the chain, and a machine with a disk.\<close>

definition demo_dev :: "((nat \<Rightarrow> u8 list) \<Rightarrow> 'm \<Rightarrow> 'm) \<Rightarrow> ('m vdisk_scheme, unit) kf" where
  "demo_dev tr s =
     (let i = unat (vd_avail_ring s (unat (vd_used_dev_idx s) mod NUM)); r = vd_ops s i in
      case d_addr (vd_desc s (unat (d_next (vd_desc s i)))) of
        VData b \<Rightarrow> Inr ((), completed i (transfer tr (r_type r = VIRTIO_BLK_T_OUT) (unat (r_sector r) div 2) b s))
      | _ \<Rightarrow> Inl (Spin ''device''))"

lemma demo_dev_serves: "serves tr (demo_dev tr)"
proof -
  have "unat (of_nat i :: u16) = i" if "i < NUM" for i
    using that by (simp add: NUM_def unat_of_nat take_bit_nat_eq_self)
  moreover have "unat (2 * word_of_nat bn :: u64) div 2 = bn" if "2 * bn < 2 ^ 32" for bn
  proof -
    have "unat (of_nat (2 * bn) :: u64) = 2 * bn" using that by (simp only: unat_of_nat) (simp add: take_bit_nat_eq_self)
    then show ?thesis by simp
  qed
  moreover have "VIRTIO_BLK_T_IN \<noteq> VIRTIO_BLK_T_OUT" by (simp add: VIRTIO_BLK_T_IN_def VIRTIO_BLK_T_OUT_def)
  ultimately show ?thesis by (auto simp: serves_def chain_def demo_dev_def Let_def)
qed

definition blank_buf :: buf where
  "blank_buf = \<lparr>b_valid = 0, b_disk = 0, b_dev = 0, b_blockno = 0, b_refcnt = 0, b_prev = 0, b_next = 0, b_data = replicate BSIZE 0\<rparr>"

definition demo_vdisk :: "nat \<Rightarrow> (nat \<Rightarrow> proc) \<Rightarrow> (nat \<Rightarrow> buf) \<Rightarrow> (nat \<Rightarrow> u8 list) \<Rightarrow> vdisk" where
  "demo_vdisk p P B m = bcache.extend (slocks.extend (demo_slocks p P) \<lparr>bufs = B\<rparr>)
     \<lparr>vd_desc = (\<lambda>_. \<lparr>d_addr = VNull, d_len = 0, d_flags = 0, d_next = 0\<rparr>), vd_avail_idx = 0, vd_avail_ring = (\<lambda>_. 0),
      vd_used_dev_idx = 0, vd_used_ring = (\<lambda>_. 0), vd_free = (\<lambda>_. True), vd_used_idx = 0, vd_info_b = (\<lambda>_. None),
      vd_status = (\<lambda>_. 0), vd_ops = (\<lambda>_. \<lparr>r_type = 0, r_reserved = 0, r_sector = 0\<rparr>), vd_pages = (0, 0, 0), vwrites = [], medium = m\<rparr>"

lemma demo_vdisk_ok:
  "p < NPROC \<Longrightarrow> quiet p (demo_vdisk p P B m)" "idle_disk (demo_vdisk p P B m)" "bufs (demo_vdisk p P B m) = B"
  "medium (demo_vdisk p P B m) = m"
  by (simp_all add: demo_vdisk_def demo_slocks_def bcache.extend_def slocks.extend_def procs.extend_def demo_running_def on_behalf_def
      demo_procs_def quiet_def lfree_def idle_disk_def)

definition two_buffers :: "nat \<Rightarrow> buf" where
  "two_buffers = (\<lambda>_. blank_buf)(3 := blank_buf\<lparr>b_blockno := 70, b_data := replicate BSIZE 7\<rparr>, 4 := blank_buf\<lparr>b_blockno := 70\<rparr>)"

theorem disk_write_read_witness:
  "\<exists>t. kseq (virtio_disk_rw (disk_env (\<lambda>_ _. 1) (demo_dev (\<lambda>_ x. x)) 3 1) 3 True) (virtio_disk_rw (disk_env (\<lambda>_ _. 1) (demo_dev (\<lambda>_ x. x)) 3 1) 4 False)
      (demo_vdisk 3 sleepy_table two_buffers (\<lambda>_. replicate BSIZE 0)) = Inr ((), t) \<and>
    b_data (bufs t 4) = replicate BSIZE 7 \<and> medium t 70 = replicate BSIZE 7 \<and> medium t 71 = replicate BSIZE 0"
proof -
  have "3 < NPROC" by (simp add: NPROC_def)
  with disk_write_read [OF demo_dev_serves [of "\<lambda>_ x. x"], of 1 3 "demo_vdisk 3 sleepy_table two_buffers (\<lambda>_. replicate BSIZE 0)" 3 4 "\<lambda>_ _. 1"]
  show ?thesis by (auto simp: demo_vdisk_ok two_buffers_def)
qed

end
