(* ===== verification/Xv6_Cache.thy ===== *)
theory Xv6_Cache
  imports Xv6_Bio Xv6_Disk
begin

unbundle bit_operations_syntax

text \<open>
  The buffer cache as its clients see it: the doubly linked ring is a list of buffers in order of
  use, and \<open>bread\<close>, \<open>bwrite\<close> and \<open>brelse\<close> keep the cached blocks consistent with the medium.
\<close>

section \<open>The ring as a list\<close>

definition linked :: "(nat \<Rightarrow> buf) \<Rightarrow> nat \<Rightarrow> nat \<Rightarrow> bool" where
  "linked B x y \<longleftrightarrow> b_next (B x) = y \<and> b_prev (B y) = x"

definition ring :: "(nat \<Rightarrow> buf) \<Rightarrow> nat list \<Rightarrow> bool" where
  "ring B L \<longleftrightarrow> successively (linked B) (NBUF # L @ [NBUF]) \<and> distinct (NBUF # L)"

lemma successively_cong_on:
  "successively P zs \<Longrightarrow> (\<And>x y. x \<in> set (butlast zs) \<Longrightarrow> y \<in> set (tl zs) \<Longrightarrow> P x y \<Longrightarrow> Q x y) \<Longrightarrow> successively Q zs"
proof (induction zs rule: induct_list012)
  case (3 x y zs)
  then show ?case by (auto split: if_splits)
qed auto

text \<open>Following the links of one direction finds what a search of the list finds.\<close>

lemma scan_path:
  assumes "\<And>x y ys zs. a # xs @ [NBUF] = zs @ x # y # ys \<Longrightarrow> link (bufs s x) = y" and "NBUF \<notin> set xs" and "length xs < n"
  shows "kloop n (\<lambda>b.
       if b = NBUF then kret (Inr None) else
       kbind (bget_field b test) (\<lambda>hit.
       if hit then kret (Inr (Some b))
       else kbind (bget_field b link) (\<lambda>nxt. kret (Inl nxt)))) (link (bufs s a)) s =
    Inr (find (\<lambda>b. test (bufs s b)) xs, s)"
  using assms
proof (induction xs arbitrary: a n)
  case Nil
  from Nil.prems(1) [of "[]"] have "link (bufs s a) = NBUF" by simp
  with Nil.prems(3) show ?case by (cases n) (simp_all add: k_simps)
next
  case (Cons x xs)
  obtain m where n: "n = Suc m" using Cons.prems(3) by (cases n) auto
  from Cons.prems(1) [of "[]"] have x: "link (bufs s a) = x" by simp
  have step: "link (bufs s y) = z" if "x # xs @ [NBUF] = zs @ y # z # ys" for y z ys zs
    using Cons.prems(1) [of "a # zs" y z ys] that by simp
  from Cons.IH [of x m, OF step] Cons.prems(2,3) x show ?case
    by (auto simp: n k_simps bget_field_def)
qed

lemma successively_split: "successively P (zs @ x # y # ys) \<Longrightarrow> P x y"
  by (induction zs rule: induct_list012) (auto simp: successively_append_iff)

lemma ring_links:
  assumes "ring B L"
  shows "NBUF # L @ [NBUF] = zs @ x # y # ys \<Longrightarrow> b_next (B x) = y"
    and "NBUF # rev L @ [NBUF] = zs @ x # y # ys \<Longrightarrow> b_prev (B x) = y"
proof -
  assume "NBUF # L @ [NBUF] = zs @ x # y # ys"
  with assms show "b_next (B x) = y" unfolding ring_def by (metis linked_def successively_split)
next
  assume a: "NBUF # rev L @ [NBUF] = zs @ x # y # ys"
  then have "NBUF # L @ [NBUF] = rev ys @ y # x # rev zs"
    by (metis append.assoc append_Cons append_Nil rev.simps(2) rev_append rev_rev_ident)
  with assms show "b_prev (B x) = y" unfolding ring_def by (metis linked_def successively_split)
qed

lemma ring_length: "ring B L \<Longrightarrow> set L \<subseteq> {..<NBUF} \<Longrightarrow> length L < NBUF + 1"
  by (metis card_lessThan card_mono distinct.simps(2) distinct_card finite_lessThan less_Suc_eq_le ring_def Suc_eq_plus1)

lemma bscan_run:
  assumes "ring (bufs s) L" "set L \<subseteq> {..<NBUF}"
  shows "bscan b_next test s = Inr (find (\<lambda>b. test (bufs s b)) L, s)"
    and "bscan b_prev test s = Inr (find (\<lambda>b. test (bufs s b)) (rev L), s)"
proof -
  have n: "NBUF \<notin> set L" "length L < NBUF + 1" using assms ring_length by (auto simp: ring_def)
  show "bscan b_next test s = Inr (find (\<lambda>b. test (bufs s b)) L, s)"
    using scan_path [of NBUF L b_next s "NBUF + 1" test] ring_links(1) [OF assms(1)] n
    by (simp add: bscan_def kbind_run bget_field_def kgets_run)
  show "bscan b_prev test s = Inr (find (\<lambda>b. test (bufs s b)) (rev L), s)"
    using scan_path [of NBUF "rev L" b_prev s "NBUF + 1" test] ring_links(2) [OF assms(1)] n
    by (simp add: bscan_def kbind_run bget_field_def kgets_run)
qed

section \<open>Moving a buffer\<close>

text \<open>The two halves of what \<open>brelse\<close> does to the ring: taking a buffer out, and putting one in front.\<close>

definition set_prev :: "nat \<Rightarrow> nat \<Rightarrow> (nat \<Rightarrow> buf) \<Rightarrow> (nat \<Rightarrow> buf)" where
  "set_prev i v B = B(i := (B i)\<lparr>b_prev := v\<rparr>)"

definition set_next :: "nat \<Rightarrow> nat \<Rightarrow> (nat \<Rightarrow> buf) \<Rightarrow> (nat \<Rightarrow> buf)" where
  "set_next i v B = B(i := (B i)\<lparr>b_next := v\<rparr>)"

definition unlink :: "nat \<Rightarrow> (nat \<Rightarrow> buf) \<Rightarrow> (nat \<Rightarrow> buf)" where
  "unlink b B = (let B1 = set_prev (b_next (B b)) (b_prev (B b)) B in set_next (b_prev (B1 b)) (b_next (B1 b)) B1)"

definition link_front :: "nat \<Rightarrow> (nat \<Rightarrow> buf) \<Rightarrow> (nat \<Rightarrow> buf)" where
  "link_front b B = (let B1 = set_prev b NBUF (set_next b (b_next (B NBUF)) B);
     B2 = set_prev (b_next (B1 NBUF)) b B1 in set_next NBUF b B2)"

lemma ring_link_front:
  assumes "ring B L" "b \<notin> set L" "b \<noteq> NBUF"
  shows "ring (link_front b B) (b # L)"
proof -
  let ?f = "hd (L @ [NBUF])" and ?B = "link_front b B"
  have f: "b_next (B NBUF) = ?f"
    using ring_links(1) [OF assms(1), of "[]" NBUF ?f "tl (L @ [NBUF])"] by (cases L) auto
  have fb: "?f \<noteq> b" using assms(2,3) by (cases L) auto
  have nx: "b_next (?B x) = (if x = NBUF then b else if x = b then ?f else b_next (B x))"
    and pv: "b_prev (?B x) = (if x = ?f then b else if x = b then NBUF else b_prev (B x))" for x
    using assms(3) f fb by (auto simp: link_front_def Let_def set_prev_def set_next_def)
  have "successively (linked B) (L @ [NBUF])" using assms(1) by (cases L) (auto simp: ring_def)
  then have "successively (linked ?B) (L @ [NBUF])"
  proof (rule successively_cong_on)
    fix x y assume "x \<in> set (butlast (L @ [NBUF]))" "y \<in> set (tl (L @ [NBUF]))" "linked B x y"
    moreover from this(2) have "y \<noteq> ?f" using assms(1) by (cases L) (auto simp: ring_def)
    moreover have "y \<noteq> b" using \<open>y \<in> _\<close> assms(2,3) by (cases L) auto
    ultimately show "linked ?B x y" using assms by (auto simp: linked_def nx pv ring_def)
  qed
  moreover have "linked ?B NBUF b" "linked ?B b ?f" using assms(3) fb by (auto simp: linked_def nx pv)
  ultimately show ?thesis using assms by (cases L) (auto simp: ring_def)
qed

lemma ring_unlink:
  assumes "ring B (xs @ b # ys)"
  shows "ring (unlink b B) (xs @ ys)"
proof -
  let ?p = "last (NBUF # xs)" and ?n = "hd (ys @ [NBUF])" and ?B = "unlink b B"
  have d: "distinct (NBUF # xs @ b # ys)" using assms by (simp add: ring_def)
  have succ: "successively (linked B) ((NBUF # xs) @ b # ys @ [NBUF])" using assms by (simp add: ring_def)
  note s = succ [unfolded successively_append_iff [of "linked B" "NBUF # xs"]]
  from s have s1: "successively (linked B) (NBUF # xs)" by (rule conjunct1)
  from s have "linked B ?p b" by (metis list.sel(1) list.distinct(1))
  then have p: "b_prev (B b) = ?p" by (simp add: linked_def)
  from s have "successively (linked B) ([b] @ ys @ [NBUF])" by (metis append_Cons append_Nil)
  then have s2: "successively (linked B) (ys @ [NBUF])" and "linked B b ?n"
    unfolding successively_append_iff [of "linked B" "[b]"] by auto
  then have n: "b_next (B b) = ?n" by (simp add: linked_def)
  have "?p \<in> set (NBUF # xs)" by (rule last_in_set) simp
  moreover have "?n \<in> set (ys @ [NBUF])" by (rule hd_in_set) simp
  ultimately have pb: "?p \<noteq> b" "?n \<noteq> b" using d by fastforce+
  have nx: "b_next (?B x) = (if x = ?p then ?n else b_next (B x))"
    and pv: "b_prev (?B x) = (if x = ?n then ?p else b_prev (B x))" for x
    using p n pb by (auto simp: unlink_def Let_def set_prev_def set_next_def)
  have "successively (linked ?B) (NBUF # xs)"
    using s1
  proof (rule successively_cong_on)
    fix x y assume x: "x \<in> set (butlast (NBUF # xs))" "y \<in> set (tl (NBUF # xs))" "linked B x y"
    have "distinct (butlast (NBUF # xs) @ [?p])" using d by (simp only: append_butlast_last_id [OF list.distinct(2)]) simp
    with x(1) have "x \<noteq> ?p" by auto
    moreover have "y \<noteq> ?n" using x(2) d by (cases ys) auto
    ultimately show "linked ?B x y" using x(3) by (simp add: linked_def nx pv)
  qed
  moreover have "successively (linked ?B) (ys @ [NBUF])"
    using s2
  proof (rule successively_cong_on)
    fix x y assume x: "x \<in> set (butlast (ys @ [NBUF]))" "y \<in> set (tl (ys @ [NBUF]))" "linked B x y"
    have "?p \<in> set (NBUF # xs)" by (rule last_in_set) simp
    with x(1) d have "x \<noteq> ?p" by auto
    moreover have "y \<noteq> ?n" using x(2) d by (cases ys) auto
    ultimately show "linked ?B x y" using x(3) by (simp add: linked_def nx pv)
  qed
  moreover have "linked ?B ?p ?n" by (simp add: linked_def nx pv)
  ultimately have "successively (linked ?B) ((NBUF # xs) @ ys @ [NBUF])"
    by (subst successively_append_iff) (auto simp del: append_Cons)
  with d show ?thesis by (simp add: ring_def)
qed

section \<open>The invariant\<close>

text \<open>
  \<open>caches dv pins H s\<close>: buffer \<open>b\<close> has been pinned \<open>pins b\<close> times, the buffers in \<open>H\<close> are locked by
  the process \<open>p\<close>, no two buffers hold the same block of device \<open>dv\<close>, and a block that is neither
  pinned nor locked is the one on the medium, so that its buffer can be recycled.
\<close>

definition holds :: "nat \<Rightarrow> u32 \<Rightarrow> u32 \<Rightarrow> 'a bcache_scheme \<Rightarrow> bool" where
  "holds b dv bn s \<longleftrightarrow> b < NBUF \<and> b_dev (bufs s b) = dv \<and> b_blockno (bufs s b) = bn"

definition buf_ok :: "nat \<Rightarrow> u32 \<Rightarrow> (nat \<Rightarrow> nat) \<Rightarrow> nat set \<Rightarrow> 'a vdisk_scheme \<Rightarrow> nat \<Rightarrow> bool" where
  "buf_ok p dv pins H s b \<longleftrightarrow> (let x = bufs s b; k = slk s (SL_buf b) in
     unat (b_refcnt x) = pins b + of_bool (b \<in> H) \<and> pins b \<le> 1 \<and>
     (if b \<in> H then sl_locked k \<noteq> 0 \<and> sl_pid k = p_pid (proc_tab s p) else sl_locked k = 0) \<and>
     (b_dev x = 0 \<or> b_dev x = dv \<and> b_valid x = 1 \<and> unat (b_blockno x) < 2 ^ 31) \<and>
     (pins b = 0 \<and> b \<notin> H \<and> b_dev x = dv \<longrightarrow> b_data x = medium s (unat (b_blockno x))))"

definition caches :: "nat \<Rightarrow> u32 \<Rightarrow> (nat \<Rightarrow> nat) \<Rightarrow> nat set \<Rightarrow> 'a vdisk_scheme \<Rightarrow> bool" where
  "caches p dv pins H s \<longleftrightarrow> quiet p s \<and> idle_disk s \<and> dv \<noteq> 0 \<and> H \<subseteq> {..<NBUF} \<and>
     (\<exists>L. ring (bufs s) L \<and> set L = {..<NBUF}) \<and> (\<forall>b<NBUF. buf_ok p dv pins H s b) \<and>
     (\<forall>b c bn. holds b dv bn s \<and> holds c dv bn s \<longrightarrow> b = c)"

lemma ring_cong: "ring B L \<Longrightarrow> (\<And>x. b_next (C x) = b_next (B x) \<and> b_prev (C x) = b_prev (B x)) \<Longrightarrow> ring C L"
  unfolding ring_def linked_def by simp

lemma quiet_upd [simp]:
  "quiet p (s\<lparr>bufs := x\<rparr>) = quiet p s" "quiet p (s'\<lparr>slk := y\<rparr>) = quiet p s'" "quiet p (s''\<lparr>proc_tab := z\<rparr>) = quiet p s''"
  for s :: "'a bcache_scheme" and s' :: "'b slocks_scheme" and s'' :: "'c procs_scheme"
  by (simp_all add: quiet_def)

lemma idle_upd [simp]:
  "idle_disk (s\<lparr>bufs := x\<rparr>) = idle_disk s" "idle_disk (s\<lparr>slk := y\<rparr>) = idle_disk s" "idle_disk (s\<lparr>proc_tab := z\<rparr>) = idle_disk s"
  "idle_disk (noted s) = idle_disk s"
  by (simp_all add: idle_disk_def noted_eq)

lemma noted_fields [simp]:
  "proc_tab (noted s1) = proc_tab s1" "slk (noted s2) = slk s2" "bufs (noted s3) = bufs s3"
  "medium (noted s4) = medium s4" "vdisk.more (noted s4) = vdisk.more s4"
  by (simp_all add: noted_eq)

text \<open>The state in which \<open>bget\<close> has locked buffer \<open>b\<close> of process \<open>p\<close> after the update \<open>f\<close>.\<close>

definition got :: "nat \<Rightarrow> nat \<Rightarrow> (buf \<Rightarrow> buf) \<Rightarrow> 'a bcache_scheme \<Rightarrow> 'a bcache_scheme" where
  "got p b f s = (noted s)\<lparr>bufs := (bufs s)(b := f (bufs s b)),
     slk := (slk s)(SL_buf b := (slk s (SL_buf b))\<lparr>sl_locked := 1, sl_pid := p_pid (proc_tab s p)\<rparr>)\<rparr>"

lemma bget_lock:
  assumes "quiet p s" "sl_locked (slk s (SL_buf b)) = 0"
  shows "kseq (bset b f) (kseq (release L_bcache) (kseq (acquiresleep e (SL_buf b)) (kret b))) (entered L_bcache s) =
    Inr (b, got p b f s)"
proof -
  let ?s = "(noted s)\<lparr>bufs := (bufs s)(b := f (bufs s b))\<rparr>"
  have "kseq (bset b f) (release L_bcache) (entered L_bcache s) = Inr ((), ?s)"
    using quiet_fields [OF assms(1)] by (simp add: k_simps bset_def entered_eq lock_simps noted_eq)
  moreover have "acquiresleep e (SL_buf b) ?s = Inr ((), sl_enter p (SL_buf b) ?s)"
    using assms by (intro acquiresleep_free quiet_thread) simp_all
  moreover have "sl_enter p (SL_buf b) ?s = got p b f s"
    by (simp add: sl_enter_def got_def noted_eq lock_simps)
  ultimately show ?thesis by (auto simp: k_simps split: sum.splits)
qed

lemma bget_run:
  assumes "quiet p s" "ring (bufs s) L" "set L = {..<NBUF}"
    and "\<forall>b<NBUF. holds b dv bn s \<or> b_refcnt (bufs s b) = 0 \<longrightarrow> sl_locked (slk s (SL_buf b)) = 0"
    and "(\<exists>b. holds b dv bn s) \<or> (\<exists>b<NBUF. b_refcnt (bufs s b) = 0)"
  shows "(\<exists>b. holds b dv bn s \<and> bget e dv bn s = Inr (b, got p b (\<lambda>x. x\<lparr>b_refcnt := b_refcnt x + 1\<rparr>) s)) \<or>
    ((\<forall>c. \<not> holds c dv bn s) \<and> (\<exists>b<NBUF. b_refcnt (bufs s b) = 0 \<and>
      bget e dv bn s = Inr (b, got p b (\<lambda>x. x\<lparr>b_dev := dv, b_blockno := bn, b_valid := 0, b_refcnt := 1\<rparr>) s)))"
proof -
  note q = quiet_fields [OF assms(1)]
  let ?hit = "\<lambda>b. b_dev (bufs s b) = dv \<and> b_blockno (bufs s b) = bn"
  have acq: "acquire L_bcache s = Inr ((), entered L_bcache s)" using q(4) by (simp add: acquire_run lfree_def)
  have sc: "bscan b_next test (entered L_bcache s) = Inr (find (\<lambda>b. test (bufs s b)) L, entered L_bcache s)"
    "bscan b_prev test (entered L_bcache s) = Inr (find (\<lambda>b. test (bufs s b)) (rev L), entered L_bcache s)" for test
    using bscan_run [of "entered L_bcache s" L test] assms(2,3) by (simp_all add: bufs_entered)
  note run = kseq_run [of "acquire L_bcache"] acq kbind_run [of "bscan a b" for a b] sc
  show ?thesis
  proof (cases "find ?hit L")
    case (Some b)
    then have b: "holds b dv bn s" using assms(3) by (auto simp: find_Some_iff holds_def)
    then have "sl_locked (slk s (SL_buf b)) = 0" using assms(4) by (simp add: holds_def)
    with b Some show ?thesis by (auto simp: bget_def run bget_lock [OF assms(1)])
  next
    case None
    then have n: "\<forall>c. \<not> holds c dv bn s" using assms(3) by (auto simp: find_None_iff holds_def)
    from assms(3,5) n obtain b where b: "find (\<lambda>b. b_refcnt (bufs s b) = 0) (rev L) = Some b"
      by (cases "find (\<lambda>b. b_refcnt (bufs s b) = 0) (rev L)") (auto simp: find_None_iff)
    then have b': "b < NBUF" "b_refcnt (bufs s b) = 0" using assms(3) by (auto simp: find_Some_iff) (metis length_rev lessThan_iff nth_mem set_rev)
    then have "sl_locked (slk s (SL_buf b)) = 0" using assms(4) by blast
    with n b b' None show ?thesis by (auto simp: bget_def run bget_lock [OF assms(1)])
  qed
qed

lemma got_fields [simp]:
  "bufs (got p b f s1) = (bufs s1)(b := f (bufs s1 b))" "proc_tab (got p b f s1) = proc_tab s1"
  "slk (got p b f s1) = (slk s1)(SL_buf b := (slk s1 (SL_buf b))\<lparr>sl_locked := 1, sl_pid := p_pid (proc_tab s1 p)\<rparr>)"
  "quiet q (got p b f s1) = quiet q s1" "idle_disk (got p b f s2) = idle_disk s2"
  "medium (got p b f s2) = medium s2" "vdisk.more (got p b f s2) = vdisk.more s2"
  by (simp_all add: got_def)

definition same_but :: "nat set \<Rightarrow> 'a vdisk_scheme \<Rightarrow> 'a vdisk_scheme \<Rightarrow> bool" where
  "same_but S s t \<longleftrightarrow> (\<forall>c. c \<notin> S \<longrightarrow> b_dev (bufs t c) = b_dev (bufs s c) \<and>
     b_blockno (bufs t c) = b_blockno (bufs s c) \<and> b_data (bufs t c) = b_data (bufs s c))"

lemma buf_ok_cong:
  assumes "buf_ok p dv pins H s c" "pins' c = pins c" "c \<in> H' \<longleftrightarrow> c \<in> H" "slk t (SL_buf c) = slk s (SL_buf c)"
    "p_pid (proc_tab t p) = p_pid (proc_tab s p)" "b_refcnt (bufs t c) = b_refcnt (bufs s c)"
    "b_dev (bufs t c) = b_dev (bufs s c)" "b_valid (bufs t c) = b_valid (bufs s c)"
    "b_blockno (bufs t c) = b_blockno (bufs s c)" "b_data (bufs t c) = b_data (bufs s c)"
    "pins c = 0 \<and> c \<notin> H \<and> b_dev (bufs s c) = dv \<longrightarrow> medium t (unat (b_blockno (bufs s c))) = medium s (unat (b_blockno (bufs s c)))"
  shows "buf_ok p dv pins' H' t c"
  using assms unfolding buf_ok_def Let_def by simp

lemma cachesD:
  assumes "caches p dv pins H s"
  shows "quiet p s" "idle_disk s" "dv \<noteq> 0" "H \<subseteq> {..<NBUF}" "\<exists>L. ring (bufs s) L \<and> set L = {..<NBUF}"
    "b < NBUF \<Longrightarrow> buf_ok p dv pins H s b" "holds b dv bn s \<Longrightarrow> holds c dv bn s \<Longrightarrow> b = c"
  using assms unfolding caches_def by blast+

text \<open>A buffer with no references is neither pinned nor locked.\<close>

lemma refcnt_0: "buf_ok p dv pins H s b \<Longrightarrow> b_refcnt (bufs s b) = 0 \<longleftrightarrow> pins b = 0 \<and> b \<notin> H"
  by (auto simp: buf_ok_def Let_def unat_eq_0)

text \<open>Changing one buffer that is then locked.\<close>

lemma caches_lock:
  assumes "caches p dv pins H s" "b < NBUF" "quiet p t" "idle_disk t"
    and "\<forall>q. p_pid (proc_tab t q) = p_pid (proc_tab s q)" "medium t = medium s"
    and "bufs t = (bufs s)(b := x)" "b_next x = b_next (bufs s b)" "b_prev x = b_prev (bufs s b)"
    and "slk t = (slk s)(SL_buf b := k)" "sl_locked k \<noteq> 0" "sl_pid k = p_pid (proc_tab s p)"
    and "unat (b_refcnt x) = pins b + 1" "b_dev x = dv" "b_valid x = 1" "b_blockno x = bn" "unat bn < 2 ^ 31"
    and "\<forall>c. holds c dv bn s \<longrightarrow> c = b"
  shows "caches p dv pins (insert b H) t"
proof -
  note c = cachesD [OF assms(1)]
  obtain L where L: "ring (bufs s) L" "set L = {..<NBUF}" using c(5) by blast
  have "ring (bufs t) L" by (rule ring_cong [OF L(1)]) (use assms(7,8,9) in simp)
  with L(2) have "\<exists>L. ring (bufs t) L \<and> set L = {..<NBUF}" by blast
  moreover have "buf_ok p dv pins (insert b H) t i" if "i < NBUF" for i
  proof (cases "i = b")
    case True
    then show ?thesis using c(6) [OF that] assms(5-) by (auto simp: buf_ok_def Let_def)
  next
    case False
    then show ?thesis using assms(5-) by (intro buf_ok_cong [OF c(6) [OF that]]) auto
  qed
  moreover have "i = j" if that: "holds i dv k t" "holds j dv k t" for i j k
  proof -
    have h: "holds i dv k t \<longleftrightarrow> (if i = b then k = bn else holds i dv k s)" for i
      using assms(2,7,14,16) by (auto simp: holds_def)
    show ?thesis using that assms(18) c(7) [of i k j] unfolding h by (metis (full_types))
  qed
  ultimately show ?thesis using assms(2-4) c(3,4) unfolding caches_def by blast
qed

section \<open>The operations\<close>

text \<open>What \<open>bread\<close> promises: a locked buffer with the block, whatever had it before.\<close>

definition has_read :: "nat \<Rightarrow> u32 \<Rightarrow> u32 \<Rightarrow> (nat \<Rightarrow> nat) \<Rightarrow> 'a vdisk_scheme \<Rightarrow> 'a vdisk_scheme \<Rightarrow> bool" where
  "has_read b dv bn pins s t \<longleftrightarrow> holds b dv bn t \<and> medium t = medium s \<and> vdisk.more t = vdisk.more s \<and> same_but {b} s t \<and>
     (if holds b dv bn s then b_data (bufs t b) = b_data (bufs s b)
      else (\<forall>c. \<not> holds c dv bn s) \<and> pins b = 0 \<and> b_data (bufs t b) = medium s (unat bn))"

text \<open>What \<open>brelse\<close> does to the ring when it gives up the last reference.\<close>

lemma bmove_front_run: "bmove_front b s = Inr ((), s\<lparr>bufs := link_front b (unlink b (bufs s))\<rparr>)"
  by (simp add: bmove_front_def k_simps bget_field_def bset_def blink_front_def unlink_def link_front_def Let_def
      set_prev_def set_next_def)

lemma move_front_field:
  assumes "\<And>y v. f (y\<lparr>b_prev := v\<rparr>) = f y" "\<And>y v. f (y\<lparr>b_next := v\<rparr>) = f y"
  shows "f (link_front b (unlink b B) x) = f (B x)"
proof -
  have "f (set_prev i v C x) = f (C x)" "f (set_next i v C x) = f (C x)" for i v C x
    by (simp_all add: set_prev_def set_next_def assms)
  then show ?thesis by (simp add: link_front_def unlink_def Let_def)
qed

lemma move_front_keeps:
  "b_refcnt (link_front b (unlink b B) x) = b_refcnt (B x)" "b_dev (link_front b (unlink b B) x) = b_dev (B x)"
  "b_valid (link_front b (unlink b B) x) = b_valid (B x)" "b_blockno (link_front b (unlink b B) x) = b_blockno (B x)"
  "b_data (link_front b (unlink b B) x) = b_data (B x)"
  by (rule move_front_field; simp)+

lemma ring_move_front:
  assumes "ring B L" "b \<in> set L"
  shows "ring (link_front b (unlink b B)) (b # remove1 b L)"
proof -
  from assms(2) obtain xs ys where L: "L = xs @ b # ys" by (meson split_list)
  from assms(1) have d: "b \<notin> set (xs @ ys)" "b \<noteq> NBUF" unfolding L ring_def by auto
  have "ring (link_front b (unlink b B)) (b # xs @ ys)"
    using assms(1) d unfolding L by (intro ring_link_front ring_unlink) auto
  with d show ?thesis by (simp add: L remove1_append)
qed

text \<open>Giving up a reference to one buffer.\<close>

lemma caches_unref:
  assumes "caches p dv pins H s" "b < NBUF" "quiet p t" "idle_disk t" "\<exists>L. ring (bufs t) L \<and> set L = {..<NBUF}"
    and "\<forall>q. p_pid (proc_tab t q) = p_pid (proc_tab s q)" "medium t = medium s" "same_but {} s t"
    and "\<forall>c. b_valid (bufs t c) = b_valid (bufs s c) \<and> (c \<noteq> b \<longrightarrow> b_refcnt (bufs t c) = b_refcnt (bufs s c) \<and> slk t (SL_buf c) = slk s (SL_buf c))"
    and "\<forall>c. c \<noteq> b \<longrightarrow> pins' c = pins c \<and> (c \<in> H' \<longleftrightarrow> c \<in> H)" "H' \<subseteq> {..<NBUF}"
    and "buf_ok p dv pins' H' t b"
  shows "caches p dv pins' H' t"
proof -
  note c = cachesD [OF assms(1)]
  have sb: "b_dev (bufs t i) = b_dev (bufs s i)" "b_blockno (bufs t i) = b_blockno (bufs s i)" "b_data (bufs t i) = b_data (bufs s i)" for i
    using assms(8) by (auto simp: same_but_def)
  have "buf_ok p dv pins' H' t i" if "i < NBUF" for i
  proof (cases "i = b")
    case False
    then show ?thesis using assms(6,7,9,10) by (intro buf_ok_cong [OF c(6) [OF that]]) (simp_all add: sb)
  qed (simp add: assms(12))
  moreover have "holds i dv k t = holds i dv k s" for i k by (simp add: holds_def sb)
  ultimately show ?thesis using assms(3,4,5,11) c(3,7) unfolding caches_def by metis
qed

lemma brelse_run:
  assumes "caches p dv pins H s" "b \<in> H"
    and "pins b = 0 \<and> b_dev (bufs s b) = dv \<longrightarrow> b_data (bufs s b) = medium s (unat (b_blockno (bufs s b)))"
  shows "\<exists>t. brelse b s = Inr ((), t) \<and> caches p dv pins (H - {b}) t \<and> same_but {} s t \<and>
    medium t = medium s \<and> vdisk.more t = vdisk.more s"
proof -
  note c = cachesD [OF assms(1)]
  have b: "b < NBUF" using assms(2) c(4) by auto
  note q = quiet_fields [OF c(1)]
  have ok: "unat (b_refcnt (bufs s b)) = pins b + 1" "pins b \<le> 1" "sl_locked (slk s (SL_buf b)) \<noteq> 0"
    "sl_pid (slk s (SL_buf b)) = p_pid (proc_tab s p)"
    using c(6) [OF b] assms(2) by (simp_all add: buf_ok_def Let_def)
  let ?r = "b_refcnt (bufs s b) - 1" and ?k = "(slk s)(SL_buf b := (slk s (SL_buf b))\<lparr>sl_locked := 0, sl_pid := 0\<rparr>)"
  let ?P = "woken (Some (ChanBufLock b)) (Some p) (proc_tab s) NPROC"
  define B where "B = (bufs s)(b := (bufs s b)\<lparr>b_refcnt := ?r\<rparr>)"
  define B' where "B' = (if ?r = 0 then link_front b (unlink b B) else B)"
  let ?t = "(noted s)\<lparr>slk := ?k, proc_tab := ?P, bufs := B'\<rparr>"
  have r: "unat ?r = pins b" using ok(1) by (simp add: unat_minus_one unat_eq_0 [symmetric] unat_gt_0)
  have hs: "holdingsleep (SL_buf b) s = Inr (True, noted s)"
    using holdingsleep_run [OF quiet_thread [OF c(1)], of "SL_buf b"] ok by simp
  have rs: "releasesleep (SL_buf b) (noted s) = Inr ((), (noted s)\<lparr>slk := ?k, proc_tab := ?P\<rparr>)"
    using releasesleep_run [of p "noted s" "SL_buf b"] quiet_thread [OF c(1)] by simp
  have "brelse b s = Inr ((), ?t)"
    using q by (simp add: brelse_def k_simps hs rs bset_def bget_field_def)
      (simp add: k_simps noted_eq lock_simps bmove_front_run B'_def B_def)
  moreover have fl: "b_refcnt (B' x) = b_refcnt (B x)" "b_dev (B' x) = b_dev (bufs s x)" "b_valid (B' x) = b_valid (bufs s x)"
    "b_blockno (B' x) = b_blockno (bufs s x)" "b_data (B' x) = b_data (bufs s x)" for x
    by (simp_all add: B'_def move_front_keeps) (simp_all add: B_def)
  moreover have sb: "same_but {} s ?t" by (simp add: same_but_def fl)
  moreover have "\<exists>L. ring B' L \<and> set L = {..<NBUF}"
  proof -
    obtain L where L: "ring (bufs s) L" "set L = {..<NBUF}" using c(5) by blast
    have R: "ring B L" by (rule ring_cong [OF L(1)]) (simp add: B_def)
    show ?thesis
    proof (cases "?r = 0")
      case True
      have "set (b # remove1 b L) = {..<NBUF}" using L(2) b R by (auto simp: ring_def)
      with ring_move_front [OF R, of b] L(2) b True show ?thesis
        by (intro exI [of _ "b # remove1 b L"]) (simp add: B'_def)
    qed (use R L(2) in \<open>auto simp: B'_def\<close>)
  qed
  moreover have "buf_ok p dv pins (H - {b}) ?t b"
    using assms(3) c(6) [OF b] r ok by (auto simp: buf_ok_def Let_def fl B_def)
  ultimately have "caches p dv pins (H - {b}) ?t"
    using c b by (intro caches_unref [OF assms(1) b]) (auto simp: B_def)
  with \<open>brelse b s = Inr ((), ?t)\<close> sb show ?thesis by (intro exI [of _ ?t]) simp
qed

lemma bunpin_run:
  assumes "caches p dv pins H s" "b \<in> H" "pins b = 1"
  shows "\<exists>t. bunpin b s = Inr ((), t) \<and> caches p dv (pins(b := 0)) H t \<and> same_but {} s t \<and>
    medium t = medium s \<and> vdisk.more t = vdisk.more s"
proof -
  note c = cachesD [OF assms(1)]
  have b: "b < NBUF" using assms(2) c(4) by auto
  note ok = c(6) [OF b, unfolded buf_ok_def Let_def]
  let ?t = "(noted s)\<lparr>bufs := (bufs s)(b := (bufs s b)\<lparr>b_refcnt := b_refcnt (bufs s b) - 1\<rparr>)\<rparr>"
  have "unat (b_refcnt (bufs s b)) = 2" using ok assms(2,3) by simp
  then have "b_refcnt (bufs s b) = 2" by (simp add: word_unat_eq_iff)
  then have r: "unat (b_refcnt (bufs s b) - 1) = 1" by simp
  obtain L where L: "ring (bufs s) L" "set L = {..<NBUF}" using c(5) by blast
  have R: "ring (bufs ?t) L" by (rule ring_cong [OF L(1)]) simp
  have "buf_ok p dv (pins(b := 0)) H ?t b" using ok r assms(2) by (auto simp: buf_ok_def Let_def)
  then have "caches p dv (pins(b := 0)) H ?t"
    using c b R L(2) by (intro caches_unref [OF assms(1) b]) (auto simp: same_but_def)
  moreover have "bunpin b s = Inr ((), ?t)"
    using quiet_fields [OF c(1)] by (simp add: bunpin_def k_simps bset_def lock_simps noted_eq)
  ultimately show ?thesis by (intro exI [of _ ?t]) (simp add: same_but_def)
qed

lemma bpin_run:
  assumes "caches p dv pins H s" "b \<in> H" "pins b = 0"
  shows "\<exists>t. bpin b s = Inr ((), t) \<and> caches p dv (pins(b := 1)) H t \<and> same_but {} s t \<and>
    medium t = medium s \<and> vdisk.more t = vdisk.more s"
proof -
  note c = cachesD [OF assms(1)]
  have b: "b < NBUF" using assms(2) c(4) by auto
  note ok = c(6) [OF b, unfolded buf_ok_def Let_def]
  let ?t = "(noted s)\<lparr>bufs := (bufs s)(b := (bufs s b)\<lparr>b_refcnt := b_refcnt (bufs s b) + 1\<rparr>)\<rparr>"
  have "unat (b_refcnt (bufs s b)) = 1" using ok assms(2,3) by simp
  then have "b_refcnt (bufs s b) = 1" by (simp add: word_unat_eq_iff)
  then have r: "unat (b_refcnt (bufs s b) + 1) = 2" by simp
  obtain L where L: "ring (bufs s) L" "set L = {..<NBUF}" using c(5) by blast
  have R: "ring (bufs ?t) L" by (rule ring_cong [OF L(1)]) simp
  have "buf_ok p dv (pins(b := 1)) H ?t b" using ok r assms(2) by (auto simp: buf_ok_def Let_def)
  then have "caches p dv (pins(b := 1)) H ?t"
    using c b R L(2) by (intro caches_unref [OF assms(1) b]) (auto simp: same_but_def)
  moreover have "bpin b s = Inr ((), ?t)"
    using quiet_fields [OF c(1)] by (simp add: bpin_def k_simps bset_def lock_simps noted_eq)
  ultimately show ?thesis by (intro exI [of _ ?t]) (simp add: same_but_def)
qed

text \<open>The owner of a locked buffer may change its data.\<close>

lemma caches_data:
  assumes "caches p dv pins H s" "b \<in> H"
  shows "caches p dv pins H (s\<lparr>bufs := (bufs s)(b := (bufs s b)\<lparr>b_data := d\<rparr>)\<rparr>)"
proof -
  let ?t = "s\<lparr>bufs := (bufs s)(b := (bufs s b)\<lparr>b_data := d\<rparr>)\<rparr>"
  note c = cachesD [OF assms(1)]
  obtain L where L: "ring (bufs s) L" "set L = {..<NBUF}" using c(5) by blast
  have "ring (bufs ?t) L" by (rule ring_cong [OF L(1)]) simp
  moreover have "buf_ok p dv pins H ?t i" if "i < NBUF" for i
    using c(6) [OF that] assms(2) by (auto simp: buf_ok_def Let_def)
  moreover have "holds i dv k ?t = holds i dv k s" for i k by (auto simp: holds_def)
  ultimately show ?thesis using c(1-4,7) L(2) unfolding caches_def by (metis quiet_upd(1) idle_upd(1))
qed

context block_disk
begin

lemma bread_hit:
  assumes "caches p dv pins H s" "unat bn < 2 ^ 31" "\<forall>b\<in>H. \<not> holds b dv bn s" "holds b dv bn s"
    and "bget e dv bn s = Inr (b, got p b (\<lambda>x. x\<lparr>b_refcnt := b_refcnt x + 1\<rparr>) s)"
  shows "\<exists>t. bread e dv bn s = Inr (b, t) \<and> caches p dv pins (insert b H) t \<and> has_read b dv bn pins s t"
proof -
  let ?t = "got p b (\<lambda>x. x\<lparr>b_refcnt := b_refcnt x + 1\<rparr>) s"
  note c = cachesD [OF assms(1)]
  have b: "b < NBUF" "b \<notin> H" "b_dev (bufs s b) = dv" "b_blockno (bufs s b) = bn" using assms(3,4) by (auto simp: holds_def)
  have ok: "unat (b_refcnt (bufs s b)) = pins b" "pins b \<le> 1" "b_valid (bufs s b) = 1"
    using c(6) [OF b(1)] b c(3) by (auto simp: buf_ok_def Let_def)
  have "unat (b_refcnt (bufs s b) + 1) = pins b + 1"
    using ok(1,2) by (simp add: unat_word_ariths)
  then have "caches p dv pins (insert b H) ?t"
    using c b ok assms(2,4)
    by (intro caches_lock [OF assms(1), where b = b and x = "bufs ?t b" and k = "slk ?t (SL_buf b)" and bn = bn]) auto
  moreover have "bread e dv bn s = Inr (b, ?t)"
    using assms(5) ok(3) by (simp add: bread_def k_simps bget_field_def)
  moreover have "has_read b dv bn pins s ?t"
    using assms(4) by (auto simp: has_read_def holds_def same_but_def)
  ultimately show ?thesis by blast
qed

lemma bread_miss:
  assumes "live" "caches p dv pins H s" "unat bn < 2 ^ 31" "\<forall>c. \<not> holds c dv bn s" "b < NBUF" "b_refcnt (bufs s b) = 0"
    and "bget e dv bn s = Inr (b, got p b (\<lambda>x. x\<lparr>b_dev := dv, b_blockno := bn, b_valid := 0, b_refcnt := 1\<rparr>) s)"
  shows "\<exists>t. bread e dv bn s = Inr (b, t) \<and> caches p dv pins (insert b H) t \<and> has_read b dv bn pins s t"
proof -
  let ?g = "got p b (\<lambda>x. x\<lparr>b_dev := dv, b_blockno := bn, b_valid := 0, b_refcnt := 1\<rparr>) s"
  note c = cachesD [OF assms(2)]
  have ok: "pins b = 0" "b \<notin> H" using c(6) [OF assms(5)] assms(6) refcnt_0 by blast+
  obtain u where u: "virtio_disk_rw e b False ?g = Inr ((), u)" "disk_done tr p False b ?g u"
    using rw_done [of ?g b False] assms(1,3) c(1,2) by auto
  let ?t = "u\<lparr>bufs := (bufs u)(b := (bufs u b)\<lparr>b_valid := 1\<rparr>)\<rparr>"
  have "bread e dv bn s = Inr (b, ?t)"
    using assms(7) u(1) by (simp add: bread_def k_simps bget_field_def bset_def)
  moreover have "caches p dv pins (insert b H) ?t"
    using c ok assms(3,4,5) u(2)
    by (intro caches_lock [OF assms(2), where b = b and x = "bufs ?t b" and k = "slk ?t (SL_buf b)" and bn = bn])
      (auto simp: disk_done_def Let_def)
  moreover have "has_read b dv bn pins s ?t"
    using assms(4,5) u(2) ok by (auto simp: has_read_def holds_def same_but_def disk_done_def Let_def)
  ultimately show ?thesis by blast
qed

lemma bread_run:
  assumes "live" "caches p dv pins H s" "unat bn < 2 ^ 31" "\<forall>b\<in>H. \<not> holds b dv bn s"
    and "(\<exists>b. holds b dv bn s) \<or> (\<exists>b<NBUF. pins b = 0 \<and> b \<notin> H)"
  shows "\<exists>b t. bread e dv bn s = Inr (b, t) \<and> b \<notin> H \<and> caches p dv pins (insert b H) t \<and> has_read b dv bn pins s t"
proof -
  note c = cachesD [OF assms(2)]
  obtain L where L: "ring (bufs s) L" "set L = {..<NBUF}" using c(5) by blast
  have free: "(\<exists>b. holds b dv bn s) \<or> (\<exists>b<NBUF. b_refcnt (bufs s b) = 0)"
    using assms(5) c(6) refcnt_0 by metis
  have lk: "sl_locked (slk s (SL_buf b)) = 0" if "b < NBUF" "holds b dv bn s \<or> b_refcnt (bufs s b) = 0" for b
  proof -
    have "b \<notin> H" using that assms(4) refcnt_0 [OF c(6) [OF that(1)]] by blast
    then show ?thesis using c(6) [OF that(1)] by (simp add: buf_ok_def Let_def)
  qed
  then have lk: "\<forall>b<NBUF. holds b dv bn s \<or> b_refcnt (bufs s b) = 0 \<longrightarrow> sl_locked (slk s (SL_buf b)) = 0" by blast
  from bget_run [OF c(1) L lk free, of e] show ?thesis
  proof (elim disjE exE conjE)
    fix b assume b: "holds b dv bn s" "bget e dv bn s = Inr (b, got p b (\<lambda>x. x\<lparr>b_refcnt := b_refcnt x + 1\<rparr>) s)"
    then show ?thesis using bread_hit [OF assms(2-4) b] assms(4) by blast
  next
    fix b assume b: "\<forall>c. \<not> holds c dv bn s" "b < NBUF" "b_refcnt (bufs s b) = 0"
      "bget e dv bn s = Inr (b, got p b (\<lambda>x. x\<lparr>b_dev := dv, b_blockno := bn, b_valid := 0, b_refcnt := 1\<rparr>) s)"
    then show ?thesis using bread_miss [OF assms(1-3) b] refcnt_0 [OF c(6) [OF b(2)]] by blast
  qed
qed

lemma bwrite_run:
  assumes "live" "caches p dv pins H s" "b \<in> H" "holds b dv bn s"
  shows "\<exists>t. bwrite e b s = Inr ((), t) \<and> caches p dv pins H t \<and> same_but {} s t \<and>
    medium t = (medium s)(unat bn := b_data (bufs s b)) \<and> vdisk.more t = tr (medium t) (vdisk.more s)"
proof -
  note c = cachesD [OF assms(2)]
  have b: "b < NBUF" "b_dev (bufs s b) = dv" "b_blockno (bufs s b) = bn" using assms(4) by (auto simp: holds_def)
  note ok = c(6) [OF b(1), unfolded buf_ok_def Let_def]
  obtain t where t: "virtio_disk_rw e b True (noted s) = Inr ((), t)" "disk_done tr p True b (noted s) t"
    using rw_done [of "noted s" b True] assms(1) c(1-3) ok b by auto
  have hs: "holdingsleep (SL_buf b) s = Inr (True, noted s)"
    using holdingsleep_run [OF quiet_thread [OF c(1)], of "SL_buf b"] ok assms(3) by simp
  have "bwrite e b s = Inr ((), t)" using t(1) hs by (simp add: bwrite_def k_simps)
  moreover have f: "bufs t = (bufs s)(b := (bufs s b)\<lparr>b_disk := 0\<rparr>)" "slk t = slk s" "quiet p t" "idle_disk t"
    "\<forall>q. p_pid (proc_tab t q) = p_pid (proc_tab s q)" "medium t = (medium s)(unat bn := b_data (bufs s b))"
    "vdisk.more t = tr (medium t) (vdisk.more s)"
    using t(2) b by (auto simp: disk_done_def Let_def)
  moreover have "same_but {} s t" by (auto simp: same_but_def f)
  moreover have "caches p dv pins H t"
  proof -
    obtain L where L: "ring (bufs s) L" "set L = {..<NBUF}" using c(5) by blast
    have "ring (bufs t) L" by (rule ring_cong [OF L(1)]) (simp add: f)
    moreover have "buf_ok p dv pins H t i" if "i < NBUF" for i
    proof -
      have "unat (b_blockno (bufs s i)) \<noteq> unat bn" if "i \<notin> H" "b_dev (bufs s i) = dv"
        using c(7) [OF assms(4), of i] assms(3) that \<open>i < NBUF\<close> by (auto simp: holds_def word_unat_eq_iff)
      then show ?thesis by (intro buf_ok_cong [OF c(6) [OF that]]) (simp_all add: f)
    qed
    moreover have h: "holds i dv k t = holds i dv k s" for i k by (auto simp: holds_def f)
    ultimately show ?thesis using c(3,4,7) f(3,4) L(2) unfolding caches_def h by blast
  qed
  ultimately show ?thesis by blast
qed

text \<open>Reading a block, changing it, writing it through and giving it back.\<close>

lemma read_modify_write:
  assumes "live" "caches p dv pins H s" "unat bn < 2 ^ 31" "\<forall>b\<in>H. \<not> holds b dv bn s"
    and "(\<exists>b. holds b dv bn s) \<or> (\<exists>b<NBUF. pins b = 0 \<and> b \<notin> H)"
  shows "\<exists>b t. bread e dv bn s = Inr (b, t) \<and> caches p dv pins (insert b H) t \<and> has_read b dv bn pins s t \<and>
    (\<exists>u. block [bset b (\<lambda>x. x\<lparr>b_data := d\<rparr>), bwrite e b, brelse b] t = Inr ((), u) \<and> caches p dv pins H u \<and>
       medium u = (medium s)(unat bn := d) \<and> b_data (bufs u b) = d \<and> holds b dv bn u \<and> same_but {b} t u)"
proof -
  obtain b t where t: "bread e dv bn s = Inr (b, t)" "b \<notin> H" "caches p dv pins (insert b H) t" "has_read b dv bn pins s t"
    using bread_run [OF assms] by blast
  let ?t = "t\<lparr>bufs := (bufs t)(b := (bufs t b)\<lparr>b_data := d\<rparr>)\<rparr>"
  have h: "holds b dv bn ?t" using t(4) by (auto simp: has_read_def holds_def)
  obtain u where u: "bwrite e b ?t = Inr ((), u)" "caches p dv pins (insert b H) u" "same_but {} ?t u"
    "medium u = (medium t)(unat bn := d)"
    using bwrite_run [OF assms(1) caches_data [OF t(3)] insertI1 h] by auto
  have ub: "b_data (bufs u b) = d" "b_blockno (bufs u b) = bn" using u(3) h by (auto simp: same_but_def holds_def)
  obtain v where v: "brelse b u = Inr ((), v)" "caches p dv pins (insert b H - {b}) v" "same_but {} u v" "medium v = medium u"
    using brelse_run [OF u(2) insertI1] ub u(4) by auto
  have "block [bset b (\<lambda>x. x\<lparr>b_data := d\<rparr>), bwrite e b, brelse b] t = Inr ((), v)"
    using u(1) v(1) by (simp add: k_simps bset_def)
  moreover have "insert b H - {b} = H" using t(2) by auto
  moreover have "b_data (bufs v b) = d" "holds b dv bn v" "same_but {b} t v"
    using u(3) v(3) ub h by (auto simp: same_but_def holds_def)
  ultimately show ?thesis using t v u(4) unfolding has_read_def by (intro exI conjI) auto
qed

end

section \<open>After boot\<close>

definition ringed :: "nat \<Rightarrow> (nat \<Rightarrow> buf) \<Rightarrow> (nat \<Rightarrow> buf)" where
  "ringed n B = fold link_front [0..<n] (set_next NBUF NBUF (set_prev NBUF NBUF B))"

lemma ringed_ring: "n \<le> NBUF \<Longrightarrow> ring (ringed n B) (rev [0..<n])"
proof (induction n)
  case 0
  then show ?case by (simp add: ringed_def ring_def linked_def set_prev_def set_next_def)
next
  case (Suc n)
  then show ?case using ring_link_front [of "ringed n B" "rev [0..<n]" n] by (simp add: ringed_def)
qed

lemma ringed_field:
  assumes "\<And>y v. f (y\<lparr>b_prev := v\<rparr>) = f y" "\<And>y v. f (y\<lparr>b_next := v\<rparr>) = f y"
  shows "f (ringed n B x) = f (B x)"
proof -
  have s: "f (set_prev i v C x) = f (C x)" "f (set_next i v C x) = f (C x)" for i v C x
    by (simp_all add: set_prev_def set_next_def assms)
  have "f (link_front b C x) = f (C x)" for b C by (simp add: link_front_def Let_def s)
  then show ?thesis by (induction n) (simp_all add: ringed_def s)
qed

lemma ringed_keeps:
  "b_refcnt (ringed n B x) = b_refcnt (B x)" "b_dev (ringed n B x) = b_dev (B x)"
  "b_valid (ringed n B x) = b_valid (B x)" "b_blockno (ringed n B x) = b_blockno (B x)" "b_data (ringed n B x) = b_data (B x)"
  by (rule ringed_field; simp)+

lemma initlock_run:
  "initlock l name s = Inr ((), s\<lparr>lks := (lks s)(l := (lks s l)\<lparr>lk_name := name, lk_locked := 0, lk_cpu := None\<rparr>)\<rparr>)"
  by (simp add: initlock_def set_lock_def k_simps)

lemma binit_buf_run:
  "binit_buf b s = Inr ((), s\<lparr>
     lks := (lks s)(L_bufsleep b := (lks s (L_bufsleep b))\<lparr>lk_name := ''sleep lock'', lk_locked := 0, lk_cpu := None\<rparr>),
     slk := (slk s)(SL_buf b := (slk s (SL_buf b))\<lparr>sl_name := ''buffer'', sl_locked := 0, sl_pid := 0\<rparr>),
     bufs := link_front b (bufs s)\<rparr>)"
  by (simp add: binit_buf_def blink_front_def initsleeplock_def initlock_run set_slk_def k_simps bget_field_def bset_def
      link_front_def Let_def set_prev_def set_next_def)

lemma binit_upto:
  "\<exists>K S. kfor [0..<n] binit_buf (s\<lparr>bufs := ringed 0 B\<rparr>) = Inr ((), s\<lparr>lks := K, slk := S, bufs := ringed n B\<rparr>) \<and>
     (\<forall>l. K l = lks s l \<or> lfree (K l)) \<and> (\<forall>b<n. sl_locked (S (SL_buf b)) = 0)"
proof (induction n)
  case 0
  then show ?case by (intro exI [of _ "lks s"] exI [of _ "slk s"]) (simp add: k_simps)
next
  case (Suc n)
  then obtain K S where IH: "kfor [0..<n] binit_buf (s\<lparr>bufs := ringed 0 B\<rparr>) = Inr ((), s\<lparr>lks := K, slk := S, bufs := ringed n B\<rparr>)"
     "\<forall>l. K l = lks s l \<or> lfree (K l)" "\<forall>b<n. sl_locked (S (SL_buf b)) = 0" by auto
  let ?K = "K(L_bufsleep n := (K (L_bufsleep n))\<lparr>lk_name := ''sleep lock'', lk_locked := 0, lk_cpu := None\<rparr>)"
  let ?S = "S(SL_buf n := (S (SL_buf n))\<lparr>sl_name := ''buffer'', sl_locked := 0, sl_pid := 0\<rparr>)"
  have up: "[0..<Suc n] = [0..<n] @ [n]" by simp
  have "kfor [0..<Suc n] binit_buf (s\<lparr>bufs := ringed 0 B\<rparr>) = Inr ((), s\<lparr>lks := ?K, slk := ?S, bufs := ringed (Suc n) B\<rparr>)"
    unfolding up kfor_append IH(1) by (simp add: k_simps binit_buf_run ringed_def)
  moreover have "\<forall>l. ?K l = lks s l \<or> lfree (?K l)" using IH(2) by (simp add: lfree_def)
  moreover have "\<forall>b<Suc n. sl_locked (?S (SL_buf b)) = 0" using IH(3) by (auto simp: less_Suc_eq)
  ultimately show ?case by blast
qed

text \<open>\<open>binit\<close> on buffers that have never been used: every buffer is in the ring, and none caches a block.\<close>

lemma binit_caches:
  assumes "quiet p s" "idle_disk s" "dv \<noteq> 0" "\<forall>b<NBUF. b_refcnt (bufs s b) = 0 \<and> b_dev (bufs s b) = 0"
  shows "\<exists>t. binit s = Inr ((), t) \<and> caches p dv (\<lambda>_. 0) {} t \<and> same_but {} s t \<and> medium t = medium s \<and> vdisk.more t = vdisk.more s"
proof -
  let ?s = "s\<lparr>lks := (lks s)(L_bcache := (lks s L_bcache)\<lparr>lk_name := ''bcache'', lk_locked := 0, lk_cpu := None\<rparr>)\<rparr>"
  obtain K S where KS: "kfor [0..<NBUF] binit_buf (?s\<lparr>bufs := ringed 0 (bufs s)\<rparr>) = Inr ((), ?s\<lparr>lks := K, slk := S, bufs := ringed NBUF (bufs s)\<rparr>)"
    "\<forall>l. K l = lks ?s l \<or> lfree (K l)" "\<forall>b<NBUF. sl_locked (S (SL_buf b)) = 0"
    using binit_upto [where n = NBUF and s = ?s and B = "bufs s"] by blast
  let ?t = "?s\<lparr>lks := K, slk := S, bufs := ringed NBUF (bufs s)\<rparr>"
  have "binit s = Inr ((), ?t)"
    using KS(1) by (simp add: binit_def k_simps initlock_run bset_def ringed_def set_prev_def set_next_def)
  moreover have "lfree (lks ?s l)" for l using quiet_fields(4) [OF assms(1)] by (simp add: lfree_def)
  then have "lfree (K l)" for l using KS(2) [rule_format, of l] by (elim disjE) simp_all
  then have "quiet p ?t" using quiet_fields(1-3) [OF assms(1)] by (simp add: quiet_def)
  moreover note \<open>quiet p ?t\<close>
  moreover have "idle_disk ?t" using assms(2) by (simp add: idle_disk_def)
  moreover have "ring (bufs ?t) (rev [0..<NBUF])" by (simp add: ringed_ring)
  moreover have "set (rev [0..<NBUF]) = {..<NBUF}" by auto
  moreover have "buf_ok p dv (\<lambda>_. 0) {} ?t b" if "b < NBUF" for b
    using that assms(3,4) KS(3) by (simp add: buf_ok_def Let_def ringed_keeps)
  moreover have "\<not> holds b dv bn ?t" for b bn using assms(3,4) by (auto simp: holds_def ringed_keeps)
  ultimately have "caches p dv (\<lambda>_. 0) {} ?t" using assms(3) unfolding caches_def by blast
  moreover have "same_but {} s ?t" by (simp add: same_but_def ringed_keeps)
  ultimately show ?thesis using \<open>binit s = Inr ((), ?t)\<close> by (intro exI [of _ ?t]) simp
qed

text \<open>
  C11. The buffer cache is coherent. In a state in which the cache is consistent (\<open>caches\<close>), \<^verbatim>\<open>bread\<close>
  of a block that the process has not locked returns a locked buffer with the block: with the data
  of the one buffer that had it, or from the disk if none had it. After the owner has changed the
  data, \<^verbatim>\<open>bwrite\<close> and \<^verbatim>\<open>brelse\<close> return; the block on the medium is then the new data and no other
  block of the medium and no other buffer has changed, and the cache is consistent again, with the
  same buffers pinned and locked as before.
\<close>

theorem buffer_cache_coherent:
  assumes "serves tr dev" "1 \<le> n" "caches p dv pins H s" "unat bn < 2 ^ 31" "\<forall>b\<in>H. \<not> holds b dv bn s"
    and "(\<exists>b. holds b dv bn s) \<or> (\<exists>b<NBUF. pins b = 0 \<and> b \<notin> H)"
  shows "\<exists>b t. bread (disk_env regs dev p n) dv bn s = Inr (b, t) \<and> caches p dv pins (insert b H) t \<and> has_read b dv bn pins s t \<and>
    (\<exists>u. block [bset b (\<lambda>x. x\<lparr>b_data := d\<rparr>), bwrite (disk_env regs dev p n) b, brelse b] t = Inr ((), u) \<and> caches p dv pins H u \<and>
       medium u = (medium s)(unat bn := d) \<and> b_data (bufs u b) = d \<and> holds b dv bn u \<and> same_but {b} t u)"
  using assms by (intro virtio.read_modify_write) auto

theorem buffer_cache_coherent_witness:
  "\<exists>s b t u. binit (demo_vdisk 3 sleepy_table (\<lambda>_. blank_buf) (\<lambda>_. replicate BSIZE 9)) = Inr ((), s) \<and>
     bread (disk_env (\<lambda>_ _. 1) (demo_dev (\<lambda>_ x. x)) 3 1) 1 70 s = Inr (b, t) \<and> b_data (bufs t b) = replicate BSIZE 9 \<and>
     block [bset b (\<lambda>x. x\<lparr>b_data := replicate BSIZE 5\<rparr>), bwrite (disk_env (\<lambda>_ _. 1) (demo_dev (\<lambda>_ x. x)) 3 1) b, brelse b] t = Inr ((), u) \<and>
     medium u 70 = replicate BSIZE 5 \<and> medium u 71 = replicate BSIZE 9"
proof -
  let ?s = "demo_vdisk 3 sleepy_table (\<lambda>_. blank_buf) (\<lambda>_. replicate BSIZE 9)" and ?e = "disk_env (\<lambda>_ _. 1) (demo_dev (\<lambda>_ x. x)) 3 1"
  have "3 < NPROC" "(0::nat) < NBUF" by (simp_all add: NPROC_def NBUF_def)
  then obtain s where s: "binit ?s = Inr ((), s)" "caches 3 1 (\<lambda>_. 0) {} s" "same_but {} ?s s" "medium s = (\<lambda>_. replicate BSIZE 9)"
    using binit_caches [of 3 ?s 1] by (auto simp: demo_vdisk_ok blank_buf_def)
  have none: "\<not> holds c 1 70 s" for c using s(3) by (auto simp: holds_def same_but_def demo_vdisk_ok blank_buf_def)
  obtain b t u where "bread ?e 1 70 s = Inr (b, t)" "has_read b 1 70 (\<lambda>_. 0) s t"
    "block [bset b (\<lambda>x. x\<lparr>b_data := replicate BSIZE 5\<rparr>), bwrite ?e b, brelse b] t = Inr ((), u)"
    "medium u = (medium s)(70 := replicate BSIZE 5)"
    using buffer_cache_coherent [OF demo_dev_serves [of "\<lambda>_ x. x"] order_refl s(2), where bn = 70 and d = "replicate BSIZE 5" and regs = "\<lambda>_ _. 1"] \<open>0 < NBUF\<close> by auto
  then show ?thesis using s(1,4) none by (auto simp: has_read_def)
qed

end
