(* ===== verification/Xv6_Commit.thy ===== *)
theory Xv6_Commit
  imports Xv6_Log Xv6_Cache
begin

unbundle bit_operations_syntax

text \<open>
  Crash safety of the log (\<^verbatim>\<open>log.c\<close>): whatever block write is the last to reach the disk before a
  crash, recovery finds either all blocks of the transaction or none of them.
\<close>

section \<open>The history of the medium\<close>

text \<open>
  The state is extended by the list of the contents the medium has had. Only the device adds to
  it, when a write completes.
\<close>

record traced = log +
  media :: "(nat \<Rightarrow> u8 list) list"

definition blank_vdisk :: vdisk where
  "blank_vdisk = demo_vdisk 0 (\<lambda>_. idle_proc) (\<lambda>_. blank_buf) (\<lambda>_. [])"

definition note_write :: "(nat \<Rightarrow> u8 list) \<Rightarrow> 'a traced_ext log_ext \<Rightarrow> 'a traced_ext log_ext" where
  "note_write m x = (let s = vdisk.extend blank_vdisk x in vdisk.more (s\<lparr>media := media s @ [m]\<rparr>))"

text \<open>What the log adds to the state of the disk.\<close>

definition same_log :: "'a log_scheme \<Rightarrow> 'a log_scheme \<Rightarrow> bool" where
  "same_log s t \<longleftrightarrow> log_start t = log_start s \<and> log_size t = log_size s \<and> log_dev t = log_dev s \<and>
     lh_n t = lh_n s \<and> lh_block t = lh_block s \<and> log_outstanding t = log_outstanding s \<and> log_committing t = log_committing s"

lemma more_log:
  "vdisk.more t = vdisk.more s \<Longrightarrow> same_log s t \<and> log.more t = log.more s"
  for s t :: "'a log_scheme"
  by (cases s; cases t) (simp add: same_log_def)

lemma more_same:
  "vdisk.more t = vdisk.more s \<Longrightarrow> same_log s t \<and> media t = media s"
  for s t :: "'a traced_scheme"
  by (cases s; cases t) (simp add: same_log_def)

lemma more_note:
  "vdisk.more t = note_write m (vdisk.more s) \<Longrightarrow> same_log s t \<and> media t = media s @ [m]"
  for s t :: "'a traced_scheme"
  by (cases s; cases t) (simp add: same_log_def note_write_def Let_def vdisk.extend_def)

lemma same_log_trans: "same_log s t \<Longrightarrow> same_log t u \<Longrightarrow> same_log s u"
  by (simp add: same_log_def)

section \<open>The log on the medium\<close>

definition hdr_n :: "nat \<Rightarrow> (nat \<Rightarrow> u8 list) \<Rightarrow> nat" where
  "hdr_n st m = nat (sint (get32 (m st) 0))"

definition hdr_block :: "nat \<Rightarrow> (nat \<Rightarrow> u8 list) \<Rightarrow> nat \<Rightarrow> nat" where
  "hdr_block st m i = unat (get32 (m st) (4 + 4 * i))"

text \<open>
  \<^verbatim>\<open>mkfs\<close> gives the log \<open>LOGSIZE\<close> blocks, the first of which is the header: the blocks \<open>st\<close> to
  \<open>st + LOGDATA\<close>. The others are the blocks of the file system.
\<close>

definition LOGDATA :: nat where "LOGDATA = LOGSIZE - 1"

text \<open>The blocks that are not part of the log, and what recovery makes of them.\<close>

definition home :: "nat \<Rightarrow> (nat \<Rightarrow> u8 list) \<Rightarrow> (nat \<Rightarrow> u8 list)" where
  "home st m = (\<lambda>b. if st \<le> b \<and> b \<le> st + LOGDATA then [] else m b)"

definition installed :: "(nat \<Rightarrow> nat) \<Rightarrow> (nat \<Rightarrow> u8 list) \<Rightarrow> nat \<Rightarrow> (nat \<Rightarrow> u8 list) \<Rightarrow> (nat \<Rightarrow> u8 list)" where
  "installed blk D n m = fold (\<lambda>i m. m(blk i := D i)) [0..<n] m"

definition replay :: "nat \<Rightarrow> (nat \<Rightarrow> u8 list) \<Rightarrow> (nat \<Rightarrow> u8 list)" where
  "replay st m = home st (installed (hdr_block st m) (\<lambda>i. m (st + i + 1)) (hdr_n st m) m)"

definition logged :: "nat \<Rightarrow> (nat \<Rightarrow> u8 list) \<Rightarrow> nat \<Rightarrow> (nat \<Rightarrow> u8 list) \<Rightarrow> (nat \<Rightarrow> u8 list)" where
  "logged st D n m = fold (\<lambda>i m. m(st + i + 1 := D i)) [0..<n] m"

lemma logged_other: "b \<le> st \<or> st + n < b \<Longrightarrow> logged st D n m b = m b"
  by (induction n) (auto simp: logged_def)

lemma logged_at: "i < n \<Longrightarrow> logged st D n m (st + i + 1) = D i"
  by (induction n) (auto simp: logged_def less_Suc_eq)

lemma installed_other: "\<forall>i<n. blk i \<noteq> b \<Longrightarrow> installed blk D n m b = m b"
  by (induction n) (auto simp: installed_def)

lemma installed_at: "inj_on blk {..<n} \<Longrightarrow> i < n \<Longrightarrow> installed blk D n m (blk i) = D i"
proof (induction n)
  case (Suc n)
  then have "i < n \<Longrightarrow> blk n \<noteq> blk i" by (auto dest: inj_onD)
  moreover have "inj_on blk {..<n}" using Suc.prems(1) by (rule inj_on_subset) auto
  ultimately show ?case using Suc by (auto simp: installed_def less_Suc_eq)
qed simp

lemma installed_log:
  assumes "k \<le> n" "\<forall>i<n. \<not> (st \<le> blk i \<and> blk i \<le> st + LOGDATA)" "n \<le> LOGDATA" "i < LOGDATA"
  shows "installed blk D k m (st + i + 1) = m (st + i + 1)"
proof (rule installed_other, intro allI impI)
  fix j assume "j < k"
  then show "blk j \<noteq> st + i + 1" using assms(2) [rule_format, of j] assms(1,3,4) by auto
qed

lemma installed_same: "(\<And>i. i < n \<Longrightarrow> blk i = blk' i \<and> D i = D' i) \<Longrightarrow> installed blk D n m = installed blk' D' n m"
  by (induction n) (auto simp: installed_def)

lemma installed_again:
  assumes "inj_on blk {..<n}" "k \<le> n"
  shows "installed blk D n (installed blk D k m) = installed blk D n m"
proof
  fix b
  show "installed blk D n (installed blk D k m) b = installed blk D n m b"
  proof (cases "\<exists>i<n. blk i = b")
    case True
    then show ?thesis using installed_at [OF assms(1)] by metis
  next
    case False
    with assms(2) show ?thesis using installed_other [of k blk b D m] by (simp add: installed_other)
  qed
qed

lemma home_installed:
  assumes "home st m = home st m'"
  shows "home st (installed blk D n m) = home st (installed blk D n m')"
proof (induction n)
  case 0
  then show ?case using assms by (simp add: installed_def)
next
  case (Suc n)
  have s: "installed blk D (Suc n) m = (installed blk D n m)(blk n := D n)" for m by (simp add: installed_def)
  have "home st (installed blk D (Suc n) m) b = home st (installed blk D (Suc n) m') b" for b
    using fun_cong [OF Suc.IH, of b] unfolding s by (simp add: home_def split: if_splits)
  then show ?case by blast
qed

lemma home_logged: "n \<le> LOGDATA \<Longrightarrow> home st (logged st D n m) = home st m"
  by (rule ext) (auto simp: home_def logged_other)

lemma home_header [simp]: "home st (m(st := h)) = home st m"
  by (rule ext) (simp add: home_def)

text \<open>A log with an empty header is not replayed; the others are described by header and data.\<close>

lemma replay_empty: "hdr_n st m = 0 \<Longrightarrow> replay st m = home st m"
  by (simp add: replay_def installed_def)

lemma replay_full:
  assumes "hdr_n st m = n" "\<And>i. i < n \<Longrightarrow> hdr_block st m i = blk i \<and> m (st + i + 1) = D i"
  shows "replay st m = home st (installed blk D n m)"
  unfolding replay_def assms(1) by (rule arg_cong [of _ _ "home st"], rule installed_same) (use assms(2) in auto)

definition hdr_ok :: "nat \<Rightarrow> (nat \<Rightarrow> u8 list) \<Rightarrow> bool" where
  "hdr_ok st m \<longleftrightarrow> length (m st) = BSIZE \<and> hdr_n st m \<le> LOGDATA \<and> inj_on (hdr_block st m) {..<hdr_n st m} \<and>
     (\<forall>i<hdr_n st m. hdr_block st m i < 2 ^ 31 \<and> \<not> (st \<le> hdr_block st m i \<and> hdr_block st m i \<le> st + LOGDATA))"

lemma hdr_ok_empty: "length (m st) = BSIZE \<Longrightarrow> hdr_n st m = 0 \<Longrightarrow> hdr_ok st m"
  by (simp add: hdr_ok_def)

definition header :: "nat \<Rightarrow> cint \<Rightarrow> (nat \<Rightarrow> u32) \<Rightarrow> u8 list \<Rightarrow> u8 list" where
  "header n w blk d = fold (\<lambda>i d. put32 (4 + 4 * i) (blk i) d) [0..<n] (put32 0 w d)"

lemma header_fields:
  assumes "4 + 4 * n \<le> length d"
  shows "length (header n w blk d) = length d \<and> get32 (header n w blk d) 0 = w \<and>
    (\<forall>i<n. get32 (header n w blk d) (4 + 4 * i) = blk i)"
  using assms
proof (induction n)
  case 0
  then show ?case by (simp add: header_def)
next
  case (Suc n)
  have h: "header (Suc n) w blk d = put32 (4 + 4 * n) (blk n) (header n w blk d)" by (simp add: header_def)
  from Suc show ?case unfolding h by (auto simp: less_Suc_eq get32_put32_other)
qed

section \<open>The contents of the medium during a commit\<close>

text \<open>
  The medium before the header is written, and from then on: every content of the first kind is
  recovered to the old blocks, every one of the second kind to the new ones.
\<close>

definition entries_ok :: "nat \<Rightarrow> nat \<Rightarrow> (nat \<Rightarrow> nat) \<Rightarrow> bool" where
  "entries_ok st n B \<longleftrightarrow> n \<le> LOGDATA \<and> inj_on B {..<n} \<and> (\<forall>i<n. B i < 2 ^ 31 \<and> \<not> (st \<le> B i \<and> B i \<le> st + LOGDATA))"

lemma before_commit:
  assumes "entries_ok st n B" "k \<le> n" "hdr_n st m = 0" "length (m st) = BSIZE"
  shows "replay st (logged st D k m) = home st m" "hdr_ok st (logged st D k m)"
proof -
  have h: "logged st D k m st = m st" by (simp add: logged_other)
  then have n: "hdr_n st (logged st D k m) = 0" using assms(3) by (simp add: hdr_n_def)
  show "replay st (logged st D k m) = home st m"
    using assms(1,2) by (simp add: replay_empty [OF n] home_logged entries_ok_def)
  show "hdr_ok st (logged st D k m)" using h n assms(4) by (simp add: hdr_ok_empty)
qed

definition committed :: "nat \<Rightarrow> cint \<Rightarrow> (nat \<Rightarrow> u32) \<Rightarrow> (nat \<Rightarrow> u8 list) \<Rightarrow> nat \<Rightarrow> (nat \<Rightarrow> u8 list) \<Rightarrow> (nat \<Rightarrow> u8 list)" where
  "committed st w blk D n m = (logged st D n m)(st := header n w blk (m st))"

lemma committed_fields:
  assumes "n \<le> LOGDATA" "sint w = int n" "length (m st) = BSIZE"
  shows "hdr_n st (committed st w blk D n m) = n" "length (committed st w blk D n m st) = BSIZE"
    "i < n \<Longrightarrow> hdr_block st (committed st w blk D n m) i = unat (blk i)"
    "i < n \<Longrightarrow> committed st w blk D n m (st + i + 1) = D i" "home st (committed st w blk D n m) = home st m"
  using header_fields [of n "m st" w blk] assms logged_at [of i n st D m] home_logged [of n st D m]
  by (simp_all add: committed_def hdr_n_def hdr_block_def BSIZE_def LOGDATA_def LOGSIZE_def)

lemma after_commit:
  fixes D :: "nat \<Rightarrow> u8 list"
  assumes "entries_ok st n (\<lambda>i. unat (blk i))" "sint w = int n" "length (m st) = BSIZE" "k \<le> n"
  defines "B \<equiv> \<lambda>i. unat (blk i)"
  defines "u \<equiv> installed B D k (committed st w blk D n m)"
  shows "replay st u = home st (installed B D n m)" "hdr_ok st u"
proof -
  have e: "n \<le> LOGDATA" "inj_on B {..<n}" "\<forall>i<n. \<not> (st \<le> B i \<and> B i \<le> st + LOGDATA)" using assms(1) by (auto simp: entries_ok_def B_def)
  note c = committed_fields [where st = st and m = m and blk = blk and D = D, OF e(1) assms(2,3)]
  have "B i \<noteq> st" if "i < k" for i using e(3) [rule_format, of i] that assms(4) by auto
  then have h: "u st = committed st w blk D n m st" unfolding u_def by (intro installed_other) blast
  then have n: "hdr_n st u = n" "length (u st) = BSIZE" "i < n \<Longrightarrow> hdr_block st u i = B i" for i
    using c by (simp_all add: hdr_n_def hdr_block_def B_def)
  have "u (st + i + 1) = D i" if "i < n" for i
    unfolding u_def using installed_log [OF assms(4) e(3,1), of i] that e(1) c(4) by simp
  then have "replay st u = home st (installed B D n u)" using n by (intro replay_full) auto
  also have "\<dots> = home st (installed B D n m)"
    unfolding u_def installed_again [OF e(2) assms(4)] by (rule home_installed) (rule c(5))
  finally show "replay st u = home st (installed B D n m)" .
  have "inj_on (hdr_block st u) {..<n} = inj_on B {..<n}" using n(3) by (intro inj_on_cong) simp
  then show "hdr_ok st u" using assms(1) n e(2) unfolding hdr_ok_def entries_ok_def B_def by simp
qed

lemma after_clear:
  fixes D :: "nat \<Rightarrow> u8 list"
  assumes "entries_ok st n (\<lambda>i. unat (blk i))" "sint w = int n" "length (m st) = BSIZE"
  defines "B \<equiv> \<lambda>i. unat (blk i)"
  defines "u \<equiv> installed B D n (committed st w blk D n m)"
  shows "replay st (u(st := header 0 0 blk (u st))) = home st (installed B D n m)"
    "hdr_ok st (u(st := header 0 0 blk (u st)))" "hdr_n st (u(st := header 0 0 blk (u st))) = 0"
    "home st (u(st := header 0 0 blk (u st))) = home st (installed B D n m)"
proof -
  note a = after_commit [where st = st and m = m and D = D, OF assms(1-3) order_refl, folded B_def, folded u_def]
  let ?v = "u(st := header 0 0 blk (u st))"
  have l: "length (u st) = BSIZE" using a(2) by (simp add: hdr_ok_def)
  then have v: "length (?v st) = BSIZE" "hdr_n st ?v = 0"
    using header_fields [of 0 "u st" 0 blk] by (simp_all add: hdr_n_def BSIZE_def)
  have "home st u = home st (installed B D n m)"
    unfolding u_def using assms(1) committed_fields(5) [where st = st and m = m, OF _ assms(2,3)] by (intro home_installed) (simp add: entries_ok_def)
  then show "home st ?v = home st (installed B D n m)" by simp
  then show "replay st ?v = home st (installed B D n m)" using replay_empty [OF v(2)] by simp
  show "hdr_ok st ?v" "hdr_n st ?v = 0" using v by (simp_all add: hdr_ok_empty)
qed

text \<open>
  The contents a commit gives the medium, one after the other: first those that do not count, then,
  from the write of the header on, those that do.
\<close>

definition logging :: "nat \<Rightarrow> (nat \<Rightarrow> u8 list) \<Rightarrow> nat \<Rightarrow> (nat \<Rightarrow> u8 list) \<Rightarrow> (nat \<Rightarrow> u8 list) list" where
  "logging st D n m = map (\<lambda>j. logged st D (Suc j) m) [0..<n]"

definition installing :: "nat \<Rightarrow> u32 \<Rightarrow> (nat \<Rightarrow> u32) \<Rightarrow> (nat \<Rightarrow> u8 list) \<Rightarrow> nat \<Rightarrow> (nat \<Rightarrow> u8 list) \<Rightarrow> (nat \<Rightarrow> u8 list) list" where
  "installing st w blk D n m = (let c = committed st w blk D n m; f = installed (\<lambda>i. unat (blk i)) D n c in
     c # map (\<lambda>j. installed (\<lambda>i. unat (blk i)) D (Suc j) c) [0..<n] @ [f(st := header 0 0 blk (f st))])"

lemma logging_replay:
  assumes "entries_ok st n B" "hdr_n st m = 0" "length (m st) = BSIZE" "k \<in> set (logging st D n m)"
  shows "replay st k = home st m \<and> hdr_ok st k"
  using before_commit [OF assms(1) _ assms(2,3)] assms(4) by (auto simp: logging_def)

lemma installing_replay:
  fixes D :: "nat \<Rightarrow> u8 list"
  assumes "entries_ok st n (\<lambda>i. unat (blk i))" "sint w = int n" "length (m st) = BSIZE"
  defines "L \<equiv> installing st w blk D n m" and "h \<equiv> home st (installed (\<lambda>i. unat (blk i)) D n m)"
  shows "\<forall>k\<in>set L. replay st k = h \<and> hdr_ok st k" "home st (last L) = h" "hdr_n st (last L) = 0"
proof -
  let ?B = "\<lambda>i. unat (blk i)" and ?c = "committed st w blk D n m"
  have a: "\<forall>j\<le>n. replay st (installed ?B D j ?c) = h \<and> hdr_ok st (installed ?B D j ?c)"
    using after_commit [where m = m and D = D, OF assms(1-3)] unfolding h_def by blast
  note z = a [rule_format, of 0]
  note c = after_clear [where m = m and D = D, OF assms(1-3)]
  show "\<forall>k\<in>set L. replay st k = h \<and> hdr_ok st k"
    using a z c unfolding L_def installing_def Let_def h_def by (auto simp: installed_def [of _ _ 0] Suc_le_eq)
  show "home st (last L) = h" "hdr_n st (last L) = 0" using c unfolding L_def installing_def Let_def h_def by auto
qed

text \<open>Recovery itself may be interrupted: what it has installed so far does not matter.\<close>

lemma replay_installed:
  assumes "hdr_ok st m" "k \<le> hdr_n st m"
  defines "u \<equiv> installed (hdr_block st m) (\<lambda>i. m (st + i + 1)) k m"
  shows "replay st u = replay st m" "hdr_ok st u" "u st = m st"
proof -
  let ?B = "hdr_block st m" and ?n = "hdr_n st m"
  have e: "?n \<le> LOGDATA" "inj_on ?B {..<?n}" "\<forall>i<?n. \<not> (st \<le> ?B i \<and> ?B i \<le> st + LOGDATA)" using assms(1) by (auto simp: hdr_ok_def)
  have "?B i \<noteq> st" if "i < k" for i using e(3) [rule_format, of i] that assms(2) by auto
  then show h: "u st = m st" unfolding u_def by (intro installed_other) blast
  then have n: "hdr_n st u = ?n" "hdr_block st u = ?B" by (simp_all add: hdr_n_def hdr_block_def fun_eq_iff)
  have "u (st + i + 1) = m (st + i + 1)" if "i < ?n" for i
    unfolding u_def using installed_log [OF assms(2) e(3,1), of i] that e(1) by simp
  then have "replay st u = home st (installed ?B (\<lambda>i. m (st + i + 1)) ?n u)" using n by (intro replay_full) auto
  also have "\<dots> = replay st m" unfolding u_def installed_again [OF e(2) assms(2)] replay_def ..
  finally show "replay st u = replay st m" .
  show "hdr_ok st u" using assms(1) n h unfolding hdr_ok_def by simp
qed

lemma replay_cleared:
  assumes "hdr_ok st m"
  defines "u \<equiv> installed (hdr_block st m) (\<lambda>i. m (st + i + 1)) (hdr_n st m) m"
  shows "home st (u(st := header 0 0 blk (u st))) = replay st m" "hdr_n st (u(st := header 0 0 blk (u st))) = 0"
    "hdr_ok st (u(st := header 0 0 blk (u st)))" "replay st (u(st := header 0 0 blk (u st))) = replay st m"
proof -
  let ?v = "u(st := header 0 0 blk (u st))"
  have l: "length (u st) = BSIZE" using replay_installed(3) [OF assms(1) order_refl] assms(1) by (simp add: u_def hdr_ok_def)
  then have v: "length (?v st) = BSIZE" "hdr_n st ?v = 0"
    using header_fields [of 0 "u st" 0 blk] by (simp_all add: hdr_n_def BSIZE_def)
  show h: "home st ?v = replay st m" by (simp add: u_def replay_def)
  show "hdr_n st ?v = 0" "hdr_ok st ?v" using v by (simp_all add: hdr_ok_empty)
  show "replay st ?v = replay st m" using replay_empty [OF v(2)] h by simp
qed

section \<open>Pinned blocks\<close>

text \<open>
  The buffers that the log has pinned are those of the blocks \<open>blk i\<close>, for \<open>i\<close> in \<open>I\<close>, and hold
  the data \<open>D i\<close>.
\<close>

definition pinned :: "u32 \<Rightarrow> (nat \<Rightarrow> u32) \<Rightarrow> (nat \<Rightarrow> u8 list) \<Rightarrow> nat set \<Rightarrow> (nat \<Rightarrow> nat) \<Rightarrow> 'a vdisk_scheme \<Rightarrow> bool" where
  "pinned dv blk D I pins s \<longleftrightarrow> (\<forall>b<NBUF. pins b = of_bool (\<exists>i\<in>I. holds b dv (blk i) s)) \<and>
     (\<forall>i\<in>I. \<exists>b. holds b dv (blk i) s \<and> b_data (bufs s b) = D i)"

lemma pinnedD:
  assumes "pinned dv blk D I pins s"
  shows "b < NBUF \<Longrightarrow> pins b = of_bool (\<exists>i\<in>I. holds b dv (blk i) s)"
    and "i \<in> I \<Longrightarrow> \<exists>b. holds b dv (blk i) s \<and> b_data (bufs s b) = D i"
  using assms unfolding pinned_def by blast+

lemma pinned_empty: "pinned dv blk D {} pins s \<longleftrightarrow> (\<forall>b<NBUF. pins b = 0)"
  by (simp add: pinned_def)

lemma same_holds: "same_but {} s t \<Longrightarrow> holds b dv bn t = holds b dv bn s"
  by (simp add: same_but_def holds_def)

lemma pinned_same: "same_but {} s t \<Longrightarrow> pinned dv blk D I pins s \<Longrightarrow> pinned dv blk D I pins t"
  by (simp add: pinned_def same_holds) (simp add: same_but_def)

lemma pinned_read:
  assumes "pinned dv blk D I pins s" "has_read b dv bn pins s t" "b < NBUF"
  shows "pinned dv blk D I pins t"
proof (cases "holds b dv bn s")
  case True
  then have "same_but {} s t" using assms(2) unfolding has_read_def same_but_def holds_def by (metis singletonD)
  then show ?thesis using assms(1) by (rule pinned_same)
next
  case False
  then have r: "\<forall>c. \<not> holds c dv bn s" "pins b = 0" "holds b dv bn t" "same_but {b} s t"
    using assms(2) by (auto simp: has_read_def)
  have h: "holds c dv x t = holds c dv x s" if "c \<noteq> b" for c x
    using r(4) that by (simp add: holds_def same_but_def)
  have nb: "\<not> holds b dv (blk i) s" "\<not> holds b dv (blk i) t" if "i \<in> I" for i
    using that assms(1,3) r(1-3) unfolding pinned_def by (auto simp: holds_def)
  have "pins c = of_bool (\<exists>i\<in>I. holds c dv (blk i) t)" if "c < NBUF" for c
    using pinnedD(1) [OF assms(1) that] nb h by (cases "c = b") auto
  moreover have "\<exists>c. holds c dv (blk i) t \<and> b_data (bufs t c) = D i" if i: "i \<in> I" for i
  proof -
    obtain c where c: "holds c dv (blk i) s" "b_data (bufs s c) = D i" using pinnedD(2) [OF assms(1) i] by blast
    then have "c \<noteq> b" using nb(1) [OF i] by blast
    with c h r(4) show ?thesis by (intro exI [of _ c]) (simp add: same_but_def)
  qed
  ultimately show ?thesis by (auto simp: pinned_def)
qed

text \<open>Reading a pinned block, and reading a block that is not pinned.\<close>

lemma read_pinned:
  assumes "pinned dv blk D I pins s" "caches p dv pins H s" "i \<in> I" "has_read b dv (blk i) pins s t"
  shows "b_data (bufs t b) = D i" "pins b = 1" "b < NBUF"
proof -
  obtain c where c: "holds c dv (blk i) s" "b_data (bufs s c) = D i" using pinnedD(2) [OF assms(1,3)] by blast
  with assms(4) have b: "holds b dv (blk i) s" "b_data (bufs t b) = b_data (bufs s b)"
    by (auto simp: has_read_def split: if_splits)
  with c cachesD(7) [OF assms(2)] show "b_data (bufs t b) = D i" by metis
  from b(1) show "b < NBUF" by (simp add: holds_def)
  with pinnedD(1) [OF assms(1)] assms(3) b(1) show "pins b = 1" by auto
qed

lemma read_clean:
  assumes "pinned dv blk D I pins s" "caches p dv pins H s" "bn \<notin> blk ` I" "has_read b dv bn pins s t" "b \<notin> H"
  shows "b_data (bufs t b) = medium s (unat bn)" "pins b = 0" "b < NBUF"
proof -
  show b: "b < NBUF" using assms(4) by (simp add: has_read_def holds_def)
  have "pins b = 0 \<and> b_data (bufs t b) = medium s (unat bn)"
  proof (cases "holds b dv bn s")
    case True
    then have "\<not> holds b dv (blk i) s" if "i \<in> I" for i using that assms(3) by (auto simp: holds_def)
    then have "pins b = 0" using pinnedD(1) [OF assms(1) b] by auto
    with True assms(4,5) cachesD(6) [OF assms(2) b] show ?thesis
      by (auto simp: has_read_def buf_ok_def Let_def holds_def)
  next
    case False
    then show ?thesis using assms(4) by (simp add: has_read_def)
  qed
  then show "pins b = 0" "b_data (bufs t b) = medium s (unat bn)" by simp_all
qed

lemma pinned_data:
  assumes "pinned dv blk D I pins s" "\<forall>i\<in>I. holds b dv (blk i) s \<longrightarrow> d = D i"
  shows "pinned dv blk D I pins (s\<lparr>bufs := (bufs s)(b := (bufs s b)\<lparr>b_data := d\<rparr>)\<rparr>)" (is "pinned dv blk D I pins ?t")
proof -
  have h: "holds c dv x ?t = holds c dv x s" for c x by (auto simp: holds_def)
  show ?thesis using assms unfolding pinned_def h by (auto split: if_splits) metis
qed

text \<open>Fewer pinned and locked buffers than there are leave one that can be recycled.\<close>

lemma pinned_card:
  assumes "pinned dv blk D I pins s" "caches p dv pins H s" "finite I"
  shows "card {b. b < NBUF \<and> pins b \<noteq> 0} \<le> card I"
proof -
  let ?P = "{b. b < NBUF \<and> pins b \<noteq> 0}" and ?bn = "\<lambda>b. b_blockno (bufs s b)"
  have h: "\<exists>i\<in>I. holds b dv (blk i) s" if "b \<in> ?P" for b
    using that pinnedD(1) [OF assms(1), of b] by (auto split: if_splits)
  have "inj_on ?bn ?P"
  proof (rule inj_onI)
    fix b c assume "b \<in> ?P" "c \<in> ?P" "?bn b = ?bn c"
    moreover obtain i j where "holds b dv (blk i) s" "holds c dv (blk j) s" using calculation h by blast
    ultimately show "b = c" using cachesD(7) [OF assms(2), of b "?bn b" c] by (simp add: holds_def)
  qed
  then have "card ?P = card (?bn ` ?P)" by (simp add: card_image)
  also have "\<dots> \<le> card (blk ` I)" using h by (intro card_mono finite_imageI assms(3)) (auto simp: holds_def)
  also have "\<dots> \<le> card I" by (rule card_image_le [OF assms(3)])
  finally show ?thesis .
qed

lemma free_buffer:
  assumes "pinned dv blk D I pins s" "caches p dv pins H s" "finite I" "card I + card H < NBUF"
  shows "\<exists>b<NBUF. pins b = 0 \<and> b \<notin> H"
proof (rule ccontr)
  let ?P = "{b. b < NBUF \<and> pins b \<noteq> 0}"
  assume "\<not> ?thesis"
  then have "{..<NBUF} \<subseteq> ?P \<union> H" by auto
  moreover have "finite H" using cachesD(4) [OF assms(2)] finite_subset by blast
  ultimately have "card {..<NBUF} \<le> card (?P \<union> H)" by (intro card_mono) auto
  also have "\<dots> \<le> card ?P + card H" by (rule card_Un_le)
  finally show False using pinned_card [OF assms(1-3)] assms(4) by simp
qed

section \<open>One block of the log\<close>

text \<open>Where the log is, and that the blocks of the transaction are elsewhere.\<close>

definition log_at :: "u32 \<Rightarrow> nat \<Rightarrow> (nat \<Rightarrow> u32) \<Rightarrow> nat \<Rightarrow> 'a log_scheme \<Rightarrow> bool" where
  "log_at dv st blk n s \<longleftrightarrow> log_dev s = dv \<and> unat (log_start s) = st \<and> st + LOGDATA < 2 ^ 31 \<and> n \<le> LOGDATA \<and>
     (\<forall>i<n. unat (blk i) < 2 ^ 31 \<and> \<not> (st \<le> unat (blk i) \<and> unat (blk i) \<le> st + LOGDATA)) \<and> inj_on blk {..<n}"

lemma log_at_same: "same_log s t \<Longrightarrow> log_at dv st blk n t = log_at dv st blk n s"
  by (simp add: log_at_def same_log_def)

lemma log_addr:
  assumes "log_at dv st blk n s" "i < LOGDATA"
  shows "unat (log_start s + of_nat i + 1) = st + i + 1" "log_start s + of_nat i + 1 \<notin> blk ` {..<n}"
    "unat (log_start s) = st" "log_start s \<notin> blk ` {..<n}"
proof -
  have a: "unat (log_start s) = st" "st + LOGDATA < 2 ^ 31" using assms(1) by (auto simp: log_at_def)
  have "of_nat st = log_start s" unfolding a(1) [symmetric] by simp
  then have "log_start s + of_nat i + 1 = of_nat (st + i + 1)" by simp
  then show u: "unat (log_start s + of_nat i + 1) = st + i + 1"
    using a(2) assms(2) by (simp only: unat_of_nat) (simp add: take_bit_nat_eq_self)
  show "log_start s + of_nat i + 1 \<notin> blk ` {..<n}"
    using assms u by (auto simp: log_at_def)
  show "unat (log_start s) = st" by (rule a)
  show "log_start s \<notin> blk ` {..<n}" using assms a by (auto simp: log_at_def)
qed

lemma unpin_pinned:
  assumes "pinned dv blk D I pins s" "caches p dv pins H s" "inj_on blk I" "i \<in> I" "holds b dv (blk i) s"
  shows "pinned dv blk D (I - {i}) (pins(b := 0)) s"
proof -
  have nb: "\<not> holds b dv (blk j) s" if "j \<in> I - {i}" for j
    using that assms(3-5) by (auto simp: holds_def dest: inj_onD)
  have "holds c dv (blk i) s \<Longrightarrow> c = b" for c using cachesD(7) [OF assms(2)] assms(5) by blast
  then have "(\<exists>j\<in>I. holds c dv (blk j) s) = (\<exists>j\<in>I - {i}. holds c dv (blk j) s)" if "c \<noteq> b" for c
    using that by blast
  then have "(pins(b := 0)) c = of_bool (\<exists>j\<in>I - {i}. holds c dv (blk j) s)" if "c < NBUF" for c
    using pinnedD(1) [OF assms(1) that] nb by (cases "c = b") auto
  moreover have "\<exists>b. holds b dv (blk j) s \<and> b_data (bufs s b) = D j" if "j \<in> I - {i}" for j
    using pinnedD(2) [OF assms(1), of j] that by blast
  ultimately show ?thesis by (simp add: pinned_def)
qed

text \<open>Giving back two buffers that are pinned or agree with the medium.\<close>

definition clean :: "(nat \<Rightarrow> nat) \<Rightarrow> 'a vdisk_scheme \<Rightarrow> nat \<Rightarrow> bool" where
  "clean pins s b \<longleftrightarrow> (pins b = 0 \<longrightarrow> b_data (bufs s b) = medium s (unat (b_blockno (bufs s b))))"

lemma brelse_two:
  assumes "caches p dv pins H s" "H = {x, y}" "x \<noteq> y" "clean pins s x" "clean pins s y"
  obtains t u where "brelse x s = Inr ((), t)" "brelse y t = Inr ((), u)" "caches p dv pins {} u" "same_but {} s u"
    "medium u = medium s" "vdisk.more u = vdisk.more s"
proof -
  obtain t where t: "brelse x s = Inr ((), t)" "caches p dv pins (H - {x}) t" "same_but {} s t" "medium t = medium s" "vdisk.more t = vdisk.more s"
    using brelse_run [OF assms(1), of x] assms(2,4) by (auto simp: clean_def)
  have "H - {x} = {y}" using assms(2,3) by auto
  moreover have "clean pins t y" using assms(5) t(3,4) by (simp add: clean_def same_but_def)
  ultimately obtain u where "brelse y t = Inr ((), u)" "caches p dv pins {} u" "same_but {} t u" "medium u = medium t" "vdisk.more u = vdisk.more t"
    using brelse_run [OF t(2), of y] by (auto simp: clean_def)
  with t that show ?thesis by (auto simp: same_but_def)
qed

lemma header_loop:
  "kfor [0..<n] (\<lambda>i. kbind (kgets (\<lambda>s. lh_block s i)) (\<lambda>bn.
     bset b (\<lambda>x. x\<lparr>b_data := put32 (4 + 4 * i) bn (b_data x)\<rparr>))) s =
   Inr ((), s\<lparr>bufs := (bufs s)(b := (bufs s b)\<lparr>b_data := fold (\<lambda>i d. put32 (4 + 4 * i) (lh_block s i) d) [0..<n] (b_data (bufs s b))\<rparr>)\<rparr>)"
proof (induction n)
  case (Suc n)
  have up: "[0..<Suc n] = [0..<n] @ [n]" by simp
  show ?case unfolding up kfor_append Suc.IH by (simp add: k_simps bset_def) (simp add: fun_upd_def)
qed (simp add: k_simps)

lemma log_at_entries: "log_at dv st blk n s \<Longrightarrow> entries_ok st n (\<lambda>i. unat (blk i))"
  by (auto simp: log_at_def entries_ok_def inj_on_def word_unat_eq_iff)

lemma header_same: "(\<And>i. i < n \<Longrightarrow> f i = g i) \<Longrightarrow> header n w f d = header n w g d"
  unfolding header_def by (rule fold_cong) auto

lemma read_loop:
  "kfor [0..<n] (\<lambda>i. kupd (\<lambda>s. s\<lparr>lh_block := (lh_block s)(i := f i)\<rparr>)) s = Inr ((), s\<lparr>lh_block := (\<lambda>i. if i < n then f i else lh_block s i)\<rparr>)"
proof (induction n)
  case (Suc n)
  have up: "[0..<Suc n] = [0..<n] @ [n]" by simp
  have "(\<lambda>i. if i < n then f i else lh_block s i)(n := f n) = (\<lambda>i. if i < Suc n then f i else lh_block s i)" by (auto simp: fun_eq_iff)
  then show ?case unfolding up kfor_append Suc.IH by (simp add: k_simps)
qed (simp add: k_simps)

lemma hdr_log_at:
  assumes "hdr_ok st m" "log_dev s = dv" "unat (log_start s) = st" "st + LOGDATA < 2 ^ 31"
  shows "log_at dv st (\<lambda>i. get32 (m st) (4 + 4 * i)) (hdr_n st m) s"
proof -
  have "inj_on (\<lambda>i. get32 (m st) (4 + 4 * i)) {..<hdr_n st m}"
    using assms(1) by (auto simp: hdr_ok_def hdr_block_def inj_on_def)
  then show ?thesis using assms by (simp add: log_at_def hdr_ok_def hdr_block_def)
qed

text \<open>The cache does not look at the log.\<close>

lemma caches_log:
  "caches p dv pins H (s\<lparr>lh_n := x\<rparr>) = caches p dv pins H s" "caches p dv pins H (s\<lparr>lh_block := y\<rparr>) = caches p dv pins H s"
  by (simp_all add: caches_def quiet_def idle_disk_def buf_ok_def holds_def Let_def)

lemma pinned_log:
  "pinned dv blk D I pins (s\<lparr>lh_n := x\<rparr>) = pinned dv blk D I pins s" "pinned dv blk D I pins (s\<lparr>lh_block := y\<rparr>) = pinned dv blk D I pins s"
  by (simp_all add: pinned_def holds_def)

locale log_disk = block_disk e p note_write live
  for e :: "'a traced_scheme env" and p :: nat and live :: bool
begin

text \<open>
  Both loops read the log block and the home block of one entry: the second is pinned in \<open>commit\<close>,
  and nothing is pinned in recovery.
\<close>

lemma read_pair:
  assumes "live" "caches p dv pins {} s" "pinned dv blk D I pins s" "log_at dv st blk n s" "i < n" "lh_block s i = blk i"
    and "I \<subseteq> {..<n}" "card I < NBUF" "if recovering then I = {} else i \<in> I"
  obtains a t1 b t2 where "bread e (log_dev s) (log_start s + of_nat i + 1) s = Inr (a, t1)" "lh_block t1 i = blk i"
    "bread e (log_dev s) (blk i) t1 = Inr (b, t2)" "b \<noteq> a" "caches p dv pins {b, a} t2" "pinned dv blk D I pins t2"
    "holds a dv (log_start s + of_nat i + 1) t2" "holds b dv (blk i) t2" "b_data (bufs t2 a) = medium s (st + i + 1)"
    "pins a = 0" "if recovering then pins b = 0 else pins b = 1 \<and> b_data (bufs t2 b) = D i"
    "medium t2 = medium s" "vdisk.more t2 = vdisk.more s"
proof -
  let ?la = "log_start s + of_nat i + 1"
  have il: "i < LOGDATA" using assms(4,5) by (auto simp: log_at_def)
  note la = log_addr [OF assms(4) il]
  have dv: "log_dev s = dv" "unat ?la < 2 ^ 31" "unat (blk i) < 2 ^ 31" "?la \<noteq> blk i" "?la \<notin> blk ` I"
    using assms(4,5,7) la il by (auto simp: log_at_def)
  have fin: "finite I" using assms(7) finite_subset by blast
  obtain f where "f < NBUF" "pins f = 0" using free_buffer [OF assms(3,2) fin] assms(8) by auto
  then obtain a t1 where t1: "bread e dv ?la s = Inr (a, t1)" "caches p dv pins {a} t1" "has_read a dv ?la pins s t1"
    using bread_run [OF assms(1,2) dv(2)] by auto
  have a: "b_data (bufs t1 a) = medium s (st + i + 1)" "pins a = 0" "a < NBUF"
    using read_clean [OF assms(3,2) dv(5) t1(3)] la(1) by auto
  have p1: "pinned dv blk D I pins t1" by (rule pinned_read [OF assms(3) t1(3) a(3)])
  have ha: "holds a dv ?la t1" using t1(3) by (simp add: has_read_def)
  have nh: "\<forall>c\<in>{a}. \<not> holds c dv (blk i) t1" using ha dv(4) by (auto simp: holds_def)
  have "(\<exists>c. holds c dv (blk i) t1) \<or> (\<exists>c<NBUF. pins c = 0 \<and> c \<notin> {a})"
  proof (cases recovering)
    case True
    let ?c = "if a = 0 then 1 else 0 :: nat"
    have "?c < NBUF" "?c \<noteq> a" by (auto simp: NBUF_def)
    then show ?thesis using pinnedD(1) [OF p1, of ?c] assms(9) True by auto
  next
    case False
    then show ?thesis using pinnedD(2) [OF p1, of i] assms(9) by auto
  qed
  then obtain b t2 where t2: "bread e dv (blk i) t1 = Inr (b, t2)" "b \<noteq> a" "caches p dv pins {b, a} t2" "has_read b dv (blk i) pins t1 t2"
    using bread_run [OF assms(1) t1(2) dv(3) nh] by auto
  have b: "b < NBUF" "holds b dv (blk i) t2" using t2(4) by (auto simp: has_read_def holds_def)
  have pb: "if recovering then pins b = 0 else pins b = 1 \<and> b_data (bufs t2 b) = D i"
    using read_pinned [OF p1 t1(2) _ t2(4)] read_clean [OF p1 t1(2) _ t2(4)] t2(2) assms(9) by (cases recovering) auto
  have p2: "pinned dv blk D I pins t2" by (rule pinned_read [OF p1 t2(4) b(1)])
  have d2: "b_data (bufs t2 a) = medium s (st + i + 1)" "holds a dv ?la t2"
    using t2(2,4) a(1) ha by (auto simp: has_read_def same_but_def holds_def)
  have "lh_block t1 i = blk i"
    using more_same [of t1 s] t1(3) assms(6) by (simp add: has_read_def same_log_def)
  then show ?thesis using that t1 t2 b(2) pb p2 d2 a(2) dv(1) by (simp add: has_read_def)
qed

lemma log_block_run:
  assumes "live" "caches p dv pins {} s" "pinned dv blk D {..<n} pins s" "log_at dv st blk n s" "i < n" "lh_block s i = blk i" "n < NBUF"
  shows "\<exists>t. log_block e i s = Inr ((), t) \<and> caches p dv pins {} t \<and> pinned dv blk D {..<n} pins t \<and>
    medium t = (medium s)(st + i + 1 := D i) \<and> same_log s t \<and> media t = media s @ [medium t]"
proof -
  let ?la = "log_start s + of_nat i + 1"
  have il: "i < LOGDATA" using assms(4,5) by (auto simp: log_at_def)
  note la = log_addr [OF assms(4) il]
  obtain a t1 b t2 where t: "bread e (log_dev s) ?la s = Inr (a, t1)" "lh_block t1 i = blk i"
    "bread e (log_dev s) (blk i) t1 = Inr (b, t2)" "b \<noteq> a" "caches p dv pins {b, a} t2" "pinned dv blk D {..<n} pins t2"
    "holds a dv ?la t2" "pins a = 0" "pins b = 1" "b_data (bufs t2 b) = D i" "medium t2 = medium s" "vdisk.more t2 = vdisk.more s"
    by (rule read_pair [OF assms(1-6), of False]) (use assms(5,7) in auto)
  let ?t3 = "t2\<lparr>bufs := (bufs t2)(a := (bufs t2 a)\<lparr>b_data := D i\<rparr>)\<rparr>"
  have "\<not> holds a dv (blk j) t2" if "j \<in> {..<n}" for j
    using pinnedD(1) [OF t(6), of a] t(7,8) that by (auto simp: holds_def)
  then have p3: "pinned dv blk D {..<n} pins ?t3" by (intro pinned_data [OF t(6)]) blast
  have h3: "holds a dv ?la ?t3" using t(7) by (auto simp: holds_def)
  obtain t4 where t4: "bwrite e a ?t3 = Inr ((), t4)" "caches p dv pins {b, a} t4" "same_but {} ?t3 t4"
    "medium t4 = (medium s)(st + i + 1 := D i)" "vdisk.more t4 = note_write (medium t4) (vdisk.more s)"
    using bwrite_run [OF assms(1) caches_data [OF t(5)] _ h3] t(11,12) la(1) by auto
  have "clean pins t4 b" "clean pins t4 a"
    using t(9) t4(3,4) h3 la(1) by (auto simp: clean_def same_but_def holds_def)
  then obtain t5 t6 where t6: "brelse b t4 = Inr ((), t5)" "brelse a t5 = Inr ((), t6)" "caches p dv pins {} t6" "same_but {} t4 t6"
    "medium t6 = medium t4" "vdisk.more t6 = vdisk.more t4"
    by (rule brelse_two [OF t4(2) refl t(4)])
  have "log_block e i s = Inr ((), t6)"
    using t(1-3,10) t4(1) t6(1,2) by (simp add: log_block_def k_simps bget_field_def bset_def)
  moreover have "pinned dv blk D {..<n} pins t6" using p3 t4(3) t6(4) by (blast intro: pinned_same)
  moreover have "same_log s t6 \<and> media t6 = media s @ [medium t6]" using more_note [of t6 "medium t4" s] t4 t6 by simp
  ultimately show ?thesis using t6(3,5) t4(4) by auto
qed

text \<open>Installing one block: in \<open>commit\<close> it is unpinned.\<close>

lemma maybe_unpin:
  assumes "caches p dv pins H s" "pinned dv blk D I pins s" "b \<in> H" "holds b dv (blk i) s" "inj_on blk I"
    and "if recovering then I = {} \<and> pins b = 0 else i \<in> I \<and> pins b = 1"
  obtains t where "kwhen (\<not> recovering) (bunpin b) s = Inr ((), t)" "caches p dv (pins(b := 0)) H t"
    "pinned dv blk D (I - {i}) (pins(b := 0)) t" "same_but {} s t" "medium t = medium s" "vdisk.more t = vdisk.more s"
proof (cases recovering)
  case True
  moreover have "pins(b := 0) = pins" using True assms(6) by auto
  ultimately show ?thesis using assms that [of s] by (simp add: k_simps same_but_def)
next
  case False
  then obtain t where t: "bunpin b s = Inr ((), t)" "caches p dv (pins(b := 0)) H t" "same_but {} s t"
    "medium t = medium s" "vdisk.more t = vdisk.more s"
    using bunpin_run [OF assms(1,3)] assms(6) by auto
  moreover have "pinned dv blk D (I - {i}) (pins(b := 0)) t"
    using pinned_same [OF t(3) unpin_pinned [OF assms(2,1,5) _ assms(4)]] assms(6) False by simp
  ultimately show ?thesis using False that [of t] by (simp add: k_simps)
qed

lemma install_block_run:
  assumes "live" "caches p dv pins {} s" "pinned dv blk D I pins s" "log_at dv st blk n s" "i < n" "lh_block s i = blk i"
    and "I \<subseteq> {..<n}" "card I < NBUF" "if recovering then I = {} else i \<in> I" "medium s (st + i + 1) = D i"
  shows "\<exists>t pins'. install_block e recovering i s = Inr ((), t) \<and> caches p dv pins' {} t \<and> pinned dv blk D (I - {i}) pins' t \<and>
    medium t = (medium s)(unat (blk i) := D i) \<and> same_log s t \<and> media t = media s @ [medium t]"
proof -
  let ?la = "log_start s + of_nat i + 1"
  have il: "i < LOGDATA" using assms(4,5) by (auto simp: log_at_def)
  note la = log_addr [OF assms(4) il]
  obtain a t1 b t2 where t: "bread e (log_dev s) ?la s = Inr (a, t1)" "lh_block t1 i = blk i"
    "bread e (log_dev s) (blk i) t1 = Inr (b, t2)" "b \<noteq> a" "caches p dv pins {b, a} t2" "pinned dv blk D I pins t2"
    "holds a dv ?la t2" "holds b dv (blk i) t2" "b_data (bufs t2 a) = D i" "pins a = 0"
    "if recovering then pins b = 0 else pins b = 1" "medium t2 = medium s" "vdisk.more t2 = vdisk.more s"
    by (rule read_pair [OF assms(1-9)]) (use assms(10) in \<open>auto split: if_splits\<close>)
  have inj: "inj_on blk I" using assms(4,7) by (auto simp: log_at_def intro: inj_on_subset)
  have ne: "st + i + 1 \<noteq> unat (blk i)" using la(1,2) assms(5) by (metis image_eqI lessThan_iff word_unat_eq_iff)
  let ?t3 = "t2\<lparr>bufs := (bufs t2)(b := (bufs t2 b)\<lparr>b_data := D i\<rparr>)\<rparr>"
  have "\<forall>j\<in>I. holds b dv (blk j) t2 \<longrightarrow> D i = D j"
    using t(8) assms(4,5,7) by (auto simp: holds_def log_at_def dest: inj_onD)
  then have p3: "pinned dv blk D I pins ?t3" by (rule pinned_data [OF t(6)])
  have h3: "holds b dv (blk i) ?t3" "b_data (bufs ?t3 a) = D i" "b_blockno (bufs ?t3 a) = ?la"
    using t(4,7-9) by (auto simp: holds_def)
  obtain t4 where t4: "bwrite e b ?t3 = Inr ((), t4)" "caches p dv pins {b, a} t4" "same_but {} ?t3 t4"
    "medium t4 = (medium s)(unat (blk i) := D i)" "vdisk.more t4 = note_write (medium t4) (vdisk.more s)"
    using bwrite_run [OF assms(1) caches_data [OF t(5)] _ h3(1)] t(12,13) by auto
  have p4: "pinned dv blk D I pins t4" by (rule pinned_same [OF t4(3) p3])
  have "holds b dv (blk i) t4" using h3(1) same_holds [OF t4(3)] by blast
  then obtain t5 where t5: "kwhen (\<not> recovering) (bunpin b) t4 = Inr ((), t5)" "caches p dv (pins(b := 0)) {b, a} t5"
    "pinned dv blk D (I - {i}) (pins(b := 0)) t5" "same_but {} t4 t5" "medium t5 = medium t4" "vdisk.more t5 = vdisk.more t4"
    by (rule maybe_unpin [OF t4(2) p4 insertI1 _ inj]) (use t(11) assms(9) in \<open>auto split: if_splits\<close>)
  have "clean (pins(b := 0)) t5 a" "clean (pins(b := 0)) t5 b"
    using t4(3,4) t5(4,5) h3 la(1) ne assms(10) by (auto simp: clean_def same_but_def holds_def)
  then obtain t6 t7 where t7: "brelse a t5 = Inr ((), t6)" "brelse b t6 = Inr ((), t7)" "caches p dv (pins(b := 0)) {} t7" "same_but {} t5 t7"
    "medium t7 = medium t5" "vdisk.more t7 = vdisk.more t5"
    by (rule brelse_two [OF t5(2) insert_commute t(4) [symmetric]])
  have "install_block e recovering i s = Inr ((), t7)"
    using t(1-3,9) t4(1) t5(1) t7(1,2) by (simp add: install_block_def k_simps bget_field_def bset_def)
  moreover have "same_log s t7 \<and> media t7 = media s @ [medium t7]" using more_note [of t7 "medium t4" s] t4 t5 t7 by simp
  ultimately show ?thesis using t7(3,5) t5(5) t4(4) pinned_same [OF t7(4) t5(3)] by auto
qed

text \<open>The loops.\<close>

lemma write_log_upto:
  assumes "live" "caches p dv pins {} s" "pinned dv blk D {..<n} pins s" "log_at dv st blk n s" "\<forall>i<n. lh_block s i = blk i" "n < NBUF" "k \<le> n"
  shows "\<exists>t. kfor [0..<k] (log_block e) s = Inr ((), t) \<and> caches p dv pins {} t \<and> pinned dv blk D {..<n} pins t \<and>
    medium t = logged st D k (medium s) \<and> same_log s t \<and> media t = media s @ map (\<lambda>j. logged st D (Suc j) (medium s)) [0..<k]"
  using assms(7)
proof (induction k)
  case 0
  then show ?case using assms(2,3) by (simp add: k_simps logged_def same_log_def)
next
  case (Suc k)
  then obtain t where t: "kfor [0..<k] (log_block e) s = Inr ((), t)" "caches p dv pins {} t" "pinned dv blk D {..<n} pins t"
    "medium t = logged st D k (medium s)" "same_log s t" "media t = media s @ map (\<lambda>j. logged st D (Suc j) (medium s)) [0..<k]" by auto
  have lt: "log_at dv st blk n t" "lh_block t k = blk k" and kn: "k < n"
    using assms(4,5) Suc.prems t(5) log_at_same [OF t(5)] by (simp_all add: same_log_def)
  obtain u where u: "log_block e k t = Inr ((), u)" "caches p dv pins {} u" "pinned dv blk D {..<n} pins u"
    "medium u = (medium t)(st + k + 1 := D k)" "same_log t u" "media u = media t @ [medium u]"
    using log_block_run [OF assms(1) t(2,3) lt(1) kn lt(2) assms(6)] by blast
  have "kfor [0..<Suc k] (log_block e) s = Inr ((), u)"
    using t(1) u(1) by (simp add: kfor_append k_simps)
  moreover have "medium u = logged st D (Suc k) (medium s)" using u(4) t(4) by (simp add: logged_def)
  ultimately show ?case using u t same_log_trans by auto
qed

lemma install_upto:
  assumes "live" "caches p dv pins {} s" "pinned dv blk D (if recovering then {} else {..<n}) pins s" "log_at dv st blk n s"
    and "\<forall>i<n. lh_block s i = blk i" "recovering \<or> n < NBUF" "\<forall>i<n. medium s (st + i + 1) = D i" "k \<le> n"
  shows "\<exists>t pins'. kfor [0..<k] (install_block e recovering) s = Inr ((), t) \<and> caches p dv pins' {} t \<and>
    pinned dv blk D (if recovering then {} else {k..<n}) pins' t \<and>
    medium t = installed (\<lambda>i. unat (blk i)) D k (medium s) \<and> same_log s t \<and>
    media t = media s @ map (\<lambda>j. installed (\<lambda>i. unat (blk i)) D (Suc j) (medium s)) [0..<k]"
  using assms(8)
proof (induction k)
  case 0
  then show ?case using assms(2,3) by (auto simp: k_simps installed_def same_log_def atLeast0LessThan)
next
  case (Suc k)
  let ?I = "if recovering then {} else {k..<n}"
  obtain t pins' where t: "kfor [0..<k] (install_block e recovering) s = Inr ((), t)" "caches p dv pins' {} t" "pinned dv blk D ?I pins' t"
    "medium t = installed (\<lambda>i. unat (blk i)) D k (medium s)" "same_log s t"
    "media t = media s @ map (\<lambda>j. installed (\<lambda>i. unat (blk i)) D (Suc j) (medium s)) [0..<k]"
    using Suc by auto
  have lt: "log_at dv st blk n t" "lh_block t k = blk k" and kn: "k < n"
    using assms(4,5) Suc.prems t(5) log_at_same [OF t(5)] by (simp_all add: same_log_def)
  have card: "?I \<subseteq> {..<n}" "card ?I < NBUF" "if recovering then ?I = {} else k \<in> ?I"
    using assms(6) Suc.prems by (auto simp: NBUF_def)
  have mk: "medium t (st + k + 1) = D k"
    using assms(4,7) Suc.prems installed_log [of k n st "\<lambda>i. unat (blk i)" k D "medium s"] t(4) by (auto simp: log_at_def)
  obtain u pins2 where u: "install_block e recovering k t = Inr ((), u)" "caches p dv pins2 {} u" "pinned dv blk D (?I - {k}) pins2 u"
    "medium u = (medium t)(unat (blk k) := D k)" "same_log t u" "media u = media t @ [medium u]"
    using install_block_run [OF assms(1) t(2,3) lt(1) kn lt(2) card mk] by blast
  have "kfor [0..<Suc k] (install_block e recovering) s = Inr ((), u)"
    using t(1) u(1) by (simp add: kfor_append k_simps)
  moreover have "medium u = installed (\<lambda>i. unat (blk i)) D (Suc k) (medium s)" using u(4) t(4) by (simp add: installed_def)
  moreover have "?I - {k} = (if recovering then {} else {Suc k..<n})" by auto
  ultimately show ?case using u t same_log_trans [OF t(5) u(5)] by (intro exI [of _ u] exI [of _ pins2]) simp
qed

text \<open>The header block.\<close>

lemma write_head_run:
  assumes "live" "caches p dv pins {} s" "pinned dv blk D I pins s" "log_at dv st blk n s" "I \<subseteq> {..<n}" "card I < NBUF"
  shows "\<exists>t. write_head e s = Inr ((), t) \<and> caches p dv pins {} t \<and> pinned dv blk D I pins t \<and>
    medium t = (medium s)(st := header (lh_count s) (lh_n s) (lh_block s) (medium s st)) \<and> same_log s t \<and> media t = media s @ [medium t]"
proof -
  have st: "log_dev s = dv" "unat (log_start s) = st" "st < 2 ^ 31" "log_start s \<notin> blk ` I"
    using assms(4,5) log_addr(4) [OF assms(4), of 0] by (auto simp: log_at_def LOGDATA_def LOGSIZE_def)
  have fin: "finite I" using assms(5) finite_subset by blast
  obtain f where "f < NBUF" "pins f = 0" using free_buffer [OF assms(3,2) fin] assms(6) by auto
  then obtain a t1 where t1: "bread e dv (log_start s) s = Inr (a, t1)" "caches p dv pins {a} t1" "has_read a dv (log_start s) pins s t1"
    using bread_run [OF assms(1,2), of "log_start s"] st(2,3) by auto
  have a: "b_data (bufs t1 a) = medium s st" "pins a = 0" "a < NBUF"
    using read_clean [OF assms(3,2) st(4) t1(3)] st(2) by auto
  have p1: "pinned dv blk D I pins t1" by (rule pinned_read [OF assms(3) t1(3) a(3)])
  have m1: "lh_n t1 = lh_n s" "lh_block t1 = lh_block s" "lh_count t1 = lh_count s"
    using more_same [of t1 s] t1(3) by (simp_all add: has_read_def same_log_def lh_count_def)
  let ?h = "header (lh_count s) (lh_n s) (lh_block s) (medium s st)"
  let ?t2 = "t1\<lparr>bufs := (bufs t1)(a := (bufs t1 a)\<lparr>b_data := ?h\<rparr>)\<rparr>"
  have "\<not> holds a dv (blk j) t1" if "j \<in> I" for j
    using pinnedD(1) [OF p1 a(3)] a(2) that by auto
  then have p2: "pinned dv blk D I pins ?t2" by (intro pinned_data [OF p1]) blast
  have h2: "holds a dv (log_start s) ?t2" using t1(3) by (auto simp: holds_def has_read_def)
  obtain t3 where t3: "bwrite e a ?t2 = Inr ((), t3)" "caches p dv pins {a} t3" "same_but {} ?t2 t3"
    "medium t3 = (medium s)(st := ?h)" "vdisk.more t3 = note_write (medium t3) (vdisk.more s)"
    using bwrite_run [OF assms(1) caches_data [OF t1(2)] _ h2] t1(3) st(2) by (auto simp: has_read_def)
  have "b_data (bufs t3 a) = ?h" "unat (b_blockno (bufs t3 a)) = st"
    using t3(3) h2 st(2) by (auto simp: same_but_def holds_def)
  then obtain t4 where t4: "brelse a t3 = Inr ((), t4)" "caches p dv pins {} t4" "same_but {} t3 t4"
    "medium t4 = medium t3" "vdisk.more t4 = vdisk.more t3"
    using brelse_run [OF t3(2), of a] t3(4) by auto
  have "write_head e s = Inr ((), t4)"
    using t1(1) t3(1) t4(1) header_loop [of "lh_count s" a "t1\<lparr>bufs := (bufs t1)(a := (bufs t1 a)\<lparr>b_data := put32 0 (lh_n s) (medium s st)\<rparr>)\<rparr>"]
    by (simp add: write_head_def k_simps st(1) bset_def m1 a(1) header_def lh_count_def)
  moreover have "same_log s t4 \<and> media t4 = media s @ [medium t4]" using more_note [of t4 "medium t3" s] t3 t4 by simp
  moreover have "pinned dv blk D I pins t4" using p2 t3(3) t4(3) by (blast intro: pinned_same)
  ultimately show ?thesis using t4(2,4) t3(4) by auto
qed

section \<open>commit\<close>

lemma commit_run:
  assumes "live" "caches p dv pins {} s" "pinned dv blk D {..<n} pins s" "log_at dv st blk n s" "\<forall>i<n. lh_block s i = blk i"
    and "n < NBUF" "0 < n" "sint (lh_n s) = int n" "hdr_n st (medium s) = 0" "length (medium s st) = BSIZE"
  shows "\<exists>t pins'. commit e s = Inr ((), t) \<and> caches p dv pins' {} t \<and> pinned dv blk D {} pins' t \<and> same_log (s\<lparr>lh_n := 0\<rparr>) t \<and>
    media t = media s @ logging st D n (medium s) @ installing st (lh_n s) blk D n (medium s) \<and>
    medium t = last (installing st (lh_n s) blk D n (medium s))"
proof -
  let ?B = "\<lambda>i. unat (blk i)"
  have ent: "entries_ok st n ?B" by (rule log_at_entries [OF assms(4)])
  have ct: "lh_count s = n" using assms(8) by (simp add: lh_count_def)
  obtain t1 where t1: "kfor [0..<n] (log_block e) s = Inr ((), t1)" "caches p dv pins {} t1" "pinned dv blk D {..<n} pins t1"
    "medium t1 = logged st D n (medium s)" "same_log s t1" "media t1 = media s @ logging st D n (medium s)"
    using write_log_upto [OF assms(1-6) order_refl] unfolding logging_def by blast
  have m1: "medium t1 st = medium s st" "lh_n t1 = lh_n s" "lh_count t1 = n" "\<forall>i<n. lh_block t1 i = blk i"
    using t1(4,5) assms(5) ct by (simp_all add: logged_other same_log_def lh_count_def)
  have l1: "log_at dv st blk n t1" using assms(4) log_at_same [OF t1(5)] by blast
  obtain t2 where t2: "write_head e t1 = Inr ((), t2)" "caches p dv pins {} t2" "pinned dv blk D {..<n} pins t2"
    "medium t2 = (medium t1)(st := header n (lh_n s) (lh_block t1) (medium s st))" "same_log t1 t2" "media t2 = media t1 @ [medium t2]"
    using write_head_run [OF assms(1) t1(2,3) l1] m1 assms(6) by auto
  have c2: "medium t2 = committed st (lh_n s) blk D n (medium s)"
    unfolding t2(4) t1(4) committed_def using header_same [of n "lh_block t1" blk] m1(4) by simp
  have l2: "log_at dv st blk n t2" "\<forall>i<n. lh_block t2 i = blk i" "lh_count t2 = n"
    using l1 log_at_same [OF t2(5)] m1(3,4) t2(5) by (simp_all add: same_log_def lh_count_def)
  have d2: "\<forall>i<n. medium t2 (st + i + 1) = D i"
    unfolding c2 using committed_fields(4) [where st = st and m = "medium s", OF _ assms(8,10)] ent by (simp add: entries_ok_def)
  obtain t3 pins' where t3: "kfor [0..<n] (install_block e False) t2 = Inr ((), t3)" "caches p dv pins' {} t3" "pinned dv blk D {} pins' t3"
    "medium t3 = installed ?B D n (medium t2)" "same_log t2 t3" "media t3 = media t2 @ map (\<lambda>j. installed ?B D (Suc j) (medium t2)) [0..<n]"
    using install_upto [OF assms(1) t2(2) _ l2(1,2) _ d2 order_refl, of False] t2(3) assms(6) by auto
  let ?t3 = "t3\<lparr>lh_n := 0\<rparr>"
  have l3: "log_at dv st blk n ?t3" using l2(1) t3(5) by (simp add: log_at_def same_log_def)
  obtain t4 where t4: "write_head e ?t3 = Inr ((), t4)" "caches p dv pins' {} t4" "pinned dv blk D {} pins' t4"
    "medium t4 = (medium t3)(st := header 0 0 (lh_block t3) (medium t3 st))" "same_log ?t3 t4" "media t4 = media t3 @ [medium t4]"
    using write_head_run [of dv pins' ?t3 blk D "{}" st n] assms(1) t3(2,3) l3 by (auto simp: caches_log pinned_log lh_count_def NBUF_def)
  have "commit e s = Inr ((), t4)"
    using assms(7,8) t1(1) t2(1) t3(1) t4(1) ct l2(3) by (simp add: commit_def write_log_def install_trans_def k_simps)
  moreover have "medium t4 = (medium t3)(st := header 0 0 blk (medium t3 st))" using t4(4) by (simp add: header_def)
  moreover have "same_log (s\<lparr>lh_n := 0\<rparr>) t4" using t1(5) t2(5) t3(5) t4(5) by (simp add: same_log_def)
  ultimately show ?thesis using t4(2,3,6) t1(6) t2(6) t3(4,6) c2 by (intro exI [of _ t4] exI [of _ pins']) (simp add: installing_def Let_def)
qed

section \<open>Recovery\<close>

lemma read_head_run:
  assumes "live" "caches p dv pins {} s" "\<forall>b<NBUF. pins b = 0" "log_at dv st blk 0 s"
  shows "\<exists>t. read_head e s = Inr ((), t) \<and> caches p dv pins {} t \<and> medium t = medium s \<and> media t = media s \<and>
    log_dev t = log_dev s \<and> log_start t = log_start s \<and> lh_n t = get32 (medium s st) 0 \<and>
    (\<forall>i<hdr_n st (medium s). lh_block t i = get32 (medium s st) (4 + 4 * i))"
proof -
  have pn: "pinned dv blk (\<lambda>_. []) {} pins s" using assms(3) by (simp add: pinned_empty)
  have st: "log_dev s = dv" "unat (log_start s) = st" "st < 2 ^ 31" using assms(4) by (auto simp: log_at_def LOGDATA_def LOGSIZE_def)
  have "(0::nat) < NBUF" "pins 0 = 0" using assms(3) by (simp_all add: NBUF_def)
  then obtain a t1 where t1: "bread e dv (log_start s) s = Inr (a, t1)" "caches p dv pins {a} t1" "has_read a dv (log_start s) pins s t1"
    using bread_run [OF assms(1,2), of "log_start s"] st(2,3) by auto
  have a: "b_data (bufs t1 a) = medium s st" "pins a = 0" using read_clean [OF pn assms(2) _ t1(3)] st(2) by auto
  have m1: "medium t1 = medium s" "media t1 = media s" "log_dev t1 = log_dev s" "log_start t1 = log_start s" "unat (b_blockno (bufs t1 a)) = st"
    using more_same [of t1 s] t1(3) st(2) by (auto simp: has_read_def same_log_def holds_def)
  let ?d = "medium s st" and ?n = "hdr_n st (medium s)"
  let ?t2 = "t1\<lparr>lh_n := get32 ?d 0, lh_block := (\<lambda>i. if i < ?n then get32 ?d (4 + 4 * i) else lh_block t1 i)\<rparr>"
  have "caches p dv pins {a} ?t2" using t1(2) by (simp add: caches_log)
  then obtain t3 where t3: "brelse a ?t2 = Inr ((), t3)" "caches p dv pins {} t3" "medium t3 = medium ?t2" "vdisk.more t3 = vdisk.more ?t2"
    using brelse_run [of p dv pins "{a}" ?t2 a] a(1) m1(1,5) by auto
  have "read_head e s = Inr ((), t3)"
    using t1(1) t3(1) st(1) a(1) by (simp add: read_head_def k_simps bget_field_def lh_count_def hdr_n_def [symmetric] read_loop cong: if_cong)
  moreover have "same_log ?t2 t3 \<and> media t3 = media ?t2" using t3(4) by (rule more_same)
  ultimately show ?thesis using t3(2,3) m1 by (auto simp: same_log_def)
qed

lemma recover_run:
  assumes "live" "caches p dv pins {} s" "\<forall>b<NBUF. pins b = 0" "log_at dv st blk 0 s" "hdr_ok st (medium s)"
  shows "\<exists>t tr pins'. recover_from_log e s = Inr ((), t) \<and> caches p dv pins' {} t \<and> media t = media s @ tr \<and> lh_n t = 0 \<and>
    home st (medium t) = replay st (medium s) \<and> hdr_n st (medium t) = 0 \<and>
    (\<forall>m\<in>set tr. replay st m = replay st (medium s) \<and> hdr_ok st m)"
proof -
  let ?m = "medium s" and ?n = "hdr_n st (medium s)"
  let ?blk = "\<lambda>i. get32 (?m st) (4 + 4 * i)" and ?D = "\<lambda>i. ?m (st + i + 1)"
  have B: "(\<lambda>i. unat (?blk i)) = hdr_block st ?m" by (simp add: hdr_block_def fun_eq_iff)
  obtain t1 where t1: "read_head e s = Inr ((), t1)" "caches p dv pins {} t1" "medium t1 = ?m" "media t1 = media s"
    "log_dev t1 = log_dev s" "log_start t1 = log_start s" "lh_n t1 = get32 (?m st) 0" "\<forall>i<?n. lh_block t1 i = ?blk i"
    using read_head_run [OF assms(1-4)] by blast
  have ct: "lh_count t1 = ?n" using t1(7) by (simp add: lh_count_def hdr_n_def)
  have l1: "log_at dv st ?blk ?n t1" by (rule hdr_log_at [OF assms(5)]) (use assms(4) t1(5,6) in \<open>auto simp: log_at_def\<close>)
  obtain t2 pins' where t2: "kfor [0..<?n] (install_block e True) t1 = Inr ((), t2)" "caches p dv pins' {} t2" "pinned dv ?blk ?D {} pins' t2"
    "medium t2 = installed (\<lambda>i. unat (?blk i)) ?D ?n ?m" "same_log t1 t2"
    "media t2 = media s @ map (\<lambda>j. installed (\<lambda>i. unat (?blk i)) ?D (Suc j) ?m) [0..<?n]"
    using install_upto [OF assms(1) t1(2) _ l1 t1(8) _ _ order_refl, of ?D True] assms(3) t1(3,4) by (auto simp: pinned_empty)
  let ?t2 = "t2\<lparr>lh_n := 0\<rparr>"
  have l2: "log_at dv st ?blk ?n ?t2" using l1 t2(5) by (simp add: log_at_def same_log_def)
  obtain t3 where t3: "write_head e ?t2 = Inr ((), t3)" "caches p dv pins' {} t3"
    "medium t3 = (medium t2)(st := header 0 0 (lh_block t2) (medium t2 st))" "same_log ?t2 t3" "media t3 = media t2 @ [medium t3]"
    using write_head_run [of dv pins' ?t2 ?blk ?D "{}" st ?n] assms(1) t2(2,3) l2 by (auto simp: caches_log pinned_log lh_count_def NBUF_def)
  have "recover_from_log e s = Inr ((), t3)"
    using t1(1) t2(1) t3(1) ct by (simp add: recover_from_log_def install_trans_def k_simps)
  moreover let ?tr = "map (\<lambda>j. installed (hdr_block st ?m) ?D (Suc j) ?m) [0..<?n] @ [medium t3]"
  have "media t3 = media s @ ?tr" using t2(6) t3(5) unfolding B by simp
  moreover have "\<forall>k\<le>?n. replay st (installed (hdr_block st ?m) ?D k ?m) = replay st ?m \<and> hdr_ok st (installed (hdr_block st ?m) ?D k ?m)"
    using replay_installed [OF assms(5)] by blast
  moreover have "home st (medium t3) = replay st ?m" "hdr_n st (medium t3) = 0" "hdr_ok st (medium t3)" "replay st (medium t3) = replay st ?m"
    using replay_cleared [OF assms(5), of "lh_block t2"] t3(3) unfolding t2(4) B by auto
  moreover have "lh_n t3 = 0" using t3(4) by (simp add: same_log_def)
  ultimately show ?thesis using t3(2) by (intro exI [of _ t3] exI [of _ ?tr] exI [of _ pins']) (auto simp: Suc_le_eq)
qed

end

end
