(* ===== verification/Xv6_Txn.thy ===== *)
theory Xv6_Txn
  imports Xv6_Commit
begin

unbundle bit_operations_syntax

text \<open>
  A transaction in progress: what the blocks of the disk look like to the file system between
  \<^verbatim>\<open>begin_op\<close> and \<^verbatim>\<open>end_op\<close>, and what \<^verbatim>\<open>bread\<close>, \<^verbatim>\<open>log_write\<close> and \<^verbatim>\<open>brelse\<close> do to them.
\<close>

section \<open>The blocks as the file system sees them\<close>

text \<open>
  The blocks that the header in memory names are pinned in the cache with the contents \<open>D\<close>, and the
  log on the medium is empty. The process \<open>p\<close> holds the buffers \<open>H\<close>.
\<close>

definition txn :: "nat \<Rightarrow> u32 \<Rightarrow> nat \<Rightarrow> (nat \<Rightarrow> u8 list) \<Rightarrow> nat set \<Rightarrow> 'a log_scheme \<Rightarrow> bool" where
  "txn p dv st D H s \<longleftrightarrow> (\<exists>pins. caches p dv pins H s \<and> pinned dv (lh_block s) D {..<lh_count s} pins s) \<and>
     log_at dv st (lh_block s) (lh_count s) s \<and> sint (lh_n s) = int (lh_count s) \<and> sint (log_size s) = int LOGSIZE \<and>
     hdr_n st (medium s) = 0 \<and> length (medium s st) = BSIZE"

definition fs_view :: "(nat \<Rightarrow> u8 list) \<Rightarrow> 'a log_scheme \<Rightarrow> nat \<Rightarrow> u8 list" where
  "fs_view D s = installed (\<lambda>i. unat (lh_block s i)) D (lh_count s) (medium s)"

text \<open>What these operations leave alone: the medium, the state of the log but for its header, and all that is above the log.\<close>

definition kept :: "'a log_scheme \<Rightarrow> 'a log_scheme \<Rightarrow> bool" where
  "kept s t \<longleftrightarrow> medium t = medium s \<and> log.more t = log.more s \<and> log_size t = log_size s \<and> log_start t = log_start s \<and>
     log_outstanding t = log_outstanding s \<and> log_committing t = log_committing s"

lemma kept_trans: "kept s t \<Longrightarrow> kept t u \<Longrightarrow> kept s u"
  by (simp add: kept_def)

text \<open>The blocks outside the log.\<close>

definition in_fs :: "nat \<Rightarrow> u32 \<Rightarrow> bool" where
  "in_fs st bn \<longleftrightarrow> unat bn < 2 ^ 31 \<and> \<not> (st \<le> unat bn \<and> unat bn \<le> st + LOGDATA)"

lemma installed_but:
  assumes "\<And>i. i < n \<Longrightarrow> B i \<noteq> b \<Longrightarrow> E i = D i"
  shows "(installed B E n m)(b := d) = (installed B D n m)(b := d)"
proof -
  have "installed B E n m a = installed B D n m a" if "a \<noteq> b" for a
    using assms by (induction n) (use that in \<open>auto simp: installed_def\<close>)
  then show ?thesis by auto
qed

lemma installed_snoc: "installed (B(n := b)) (D(n := d)) (Suc n) m = (installed B D n m)(b := d)"
proof -
  have "installed (B(n := b)) (D(n := d)) n m = installed B D n m" by (rule installed_same) auto
  then show ?thesis by (simp add: installed_def)
qed

text \<open>Pinning one more block, and changing one that is pinned.\<close>

lemma pin_pinned:
  assumes "pinned dv blk D I pins s" "caches p dv pins H s" "holds b dv bn s" "bn \<notin> blk ` I" "i \<notin> I" "b_data (bufs s b) = d"
  shows "pinned dv (blk(i := bn)) (D(i := d)) (insert i I) (pins(b := 1)) s"
proof -
  have "holds c dv bn s \<longleftrightarrow> c = b" for c using cachesD(7) [OF assms(2)] assms(3) by blast
  moreover have "(\<exists>j\<in>insert i I. holds c dv ((blk(i := bn)) j) s) \<longleftrightarrow> holds c dv bn s \<or> (\<exists>j\<in>I. holds c dv (blk j) s)" for c
    using assms(5) by auto
  ultimately have "(pins(b := 1)) c = of_bool (\<exists>j\<in>insert i I. holds c dv ((blk(i := bn)) j) s)" if "c < NBUF" for c
    using pinnedD(1) [OF assms(1) that] by auto
  moreover have "\<exists>c. holds c dv ((blk(i := bn)) j) s \<and> b_data (bufs s c) = (D(i := d)) j" if "j \<in> insert i I" for j
    using that assms(3,5,6) pinnedD(2) [OF assms(1), of j] by (cases "j = i") auto
  ultimately show ?thesis unfolding pinned_def by blast
qed

lemma repin_data:
  assumes "pinned dv blk D I pins s" "holds b dv bn s"
  shows "pinned dv blk (\<lambda>i. if blk i = bn then d else D i) I pins (s\<lparr>bufs := (bufs s)(b := (bufs s b)\<lparr>b_data := d\<rparr>)\<rparr>)"
    (is "pinned dv blk ?D I pins ?t")
proof -
  have h: "holds c dv x ?t = holds c dv x s" for c x by (auto simp: holds_def)
  have "\<exists>c. holds c dv (blk j) ?t \<and> b_data (bufs ?t c) = ?D j" if j: "j \<in> I" for j
  proof (cases "blk j = bn")
    case True
    then show ?thesis using assms(2) h by (intro exI [of _ b]) simp
  next
    case False
    obtain c where c: "holds c dv (blk j) s" "b_data (bufs s c) = D j" using pinnedD(2) [OF assms(1) j] by blast
    with False assms(2) have "c \<noteq> b" by (auto simp: holds_def)
    with c h False show ?thesis by (intro exI [of _ c]) simp
  qed
  then show ?thesis using assms(1) h unfolding pinned_def by simp
qed

lemma caches_cong:
  assumes "caches p dv pins H s" "quiet p t" "idle_disk t" "bufs t = bufs s" "slk t = slk s" "medium t = medium s"
    and "p_pid (proc_tab t p) = p_pid (proc_tab s p)"
  shows "caches p dv pins H t"
  using assms by (simp add: caches_def buf_ok_def holds_def Let_def)

lemma sint_suc:
  assumes "sint (w :: u32) = int k" "k < 2 ^ 30"
  shows "sint (w + 1) = int (Suc k)"
proof -
  have "w = of_int (sint w)" by simp
  then have w: "w = of_nat k" unfolding assms(1) by simp
  then have "w + 1 = of_nat (Suc k)" by simp
  moreover have "sint (of_nat (Suc k) :: u32) = int (Suc k)"
    using assms(2) by (simp only: signed_of_nat) (simp add: signed_take_bit_int_eq_self)
  ultimately show ?thesis by (simp only:)
qed

section \<open>log_write\<close>

lemma log_slot_cases:
  obtains (absorb) "log_slot s bn < lh_count s" "lh_block s (log_slot s bn) = bn"
  | (append) "log_slot s bn = lh_count s" "\<forall>i<lh_count s. lh_block s i \<noteq> bn"
proof (cases "find (\<lambda>i. lh_block s i = bn) [0..<lh_count s]")
  case None
  then have "log_slot s bn = lh_count s" by (simp add: log_slot_def)
  moreover have "\<forall>i<lh_count s. lh_block s i \<noteq> bn" using None by (auto simp: find_None_iff)
  ultimately show ?thesis by (rule append)
next
  case (Some i)
  then have "log_slot s bn = i" by (simp add: log_slot_def)
  moreover have "i < lh_count s" "lh_block s i = bn" using Some by (auto simp: find_Some_iff)
  ultimately show ?thesis using absorb by simp
qed

lemma log_slot_upd [simp]:
  "log_slot (s\<lparr>lks := a\<rparr>) bn = log_slot s bn" "log_slot (s\<lparr>cpus := b\<rparr>) bn = log_slot s bn" "log_slot (s\<lparr>sstatus := c\<rparr>) bn = log_slot s bn"
  by (simp_all add: log_slot_def lh_count_def split: option.split)

lemma log_write_absorbs:
  assumes "quiet p s" "sint (lh_n s) = int k" "k < LOGDATA" "sint (log_size s) = int LOGSIZE" "1 \<le> log_outstanding s"
    and "b_blockno (bufs s b) = bn" "log_slot s bn = i" "i < k" "lh_block s i = bn"
  shows "log_write b s = Inr ((), noted s)"
proof -
  have "(lh_block s)(i := bn) = lh_block s" using assms(9) by auto
  then show ?thesis using assms(2-8) quiet_fields [OF assms(1)]
    by (simp add: log_write_def k_simps lock_simps bget_field_def noted_eq LOGDATA_def LOGSIZE_def)
qed

lemma log_write_appends:
  assumes "quiet p s" "sint (lh_n s) = int k" "k < LOGDATA" "sint (log_size s) = int LOGSIZE" "1 \<le> log_outstanding s"
    and "b_blockno (bufs s b) = bn" "log_slot s bn = k"
  shows "log_write b s = Inr ((), (noted s)\<lparr>bufs := (bufs s)(b := (bufs s b)\<lparr>b_refcnt := b_refcnt (bufs s b) + 1\<rparr>),
    lh_block := (lh_block s)(k := bn), lh_n := lh_n s + 1\<rparr>)"
  using assms(2-7) quiet_fields [OF assms(1)]
  by (simp add: log_write_def k_simps lock_simps bget_field_def bpin_def bset_def noted_eq LOGDATA_def LOGSIZE_def)

lemma noted_log [simp]:
  "log_start (noted s) = log_start s" "log_size (noted s) = log_size s" "log_dev (noted s) = log_dev s" "lh_n (noted s) = lh_n s"
  "lh_block (noted s) = lh_block s" "log_outstanding (noted s) = log_outstanding s" "log_committing (noted s) = log_committing s"
  "log.more (noted s) = log.more s" "lh_count (noted s) = lh_count s"
  by (simp_all add: noted_eq lh_count_def)

text \<open>\<open>log_write\<close> of a buffer that is held pins the block and enters it into the header, unless it is there.\<close>

lemma log_write_run:
  assumes "caches p dv pins H s" "holds b dv bn s" "log_at dv st (lh_block s) k s" "k = lh_count s" "k < LOGDATA"
    and "sint (lh_n s) = int k" "sint (log_size s) = int LOGSIZE" "1 \<le> log_outstanding s"
    and "unat bn < 2 ^ 31" "\<not> (st \<le> unat bn \<and> unat bn \<le> st + LOGDATA)" "b_data (bufs s b) = d"
    and "pinned dv (lh_block s) E {..<k} pins s" "\<forall>i<k. lh_block s i = bn \<longrightarrow> E i = d" "b \<in> H"
  shows "\<exists>t E' pins'. log_write b s = Inr ((), t) \<and> caches p dv pins' H t \<and> pinned dv (lh_block t) E' {..<lh_count t} pins' t \<and>
    log_at dv st (lh_block t) (lh_count t) t \<and> sint (lh_n t) = int (lh_count t) \<and> lh_count t \<le> Suc k \<and> pins' b = 1 \<and>
    fs_view E' t = (fs_view E s)(unat bn := d) \<and> same_but {} s t \<and> kept s t"
proof (cases rule: log_slot_cases [of s bn])
  case absorb
  let ?i = "log_slot s bn"
  note c = cachesD [OF assms(1)]
  have bn: "b_blockno (bufs s b) = bn" "b < NBUF" using assms(2) by (auto simp: holds_def)
  have "log_write b s = Inr ((), noted s)"
    using absorb assms(4-8) bn by (intro log_write_absorbs [OF c(1)]) auto
  moreover have "caches p dv pins H (noted s)" by (rule caches_cong [OF assms(1)]) (use c in auto)
  moreover have sb: "same_but {} s (noted s)" by (simp add: same_but_def)
  moreover have "pinned dv (lh_block s) E {..<k} pins (noted s)" by (rule pinned_same [OF sb assms(12)])
  moreover have "\<exists>i\<in>{..<k}. holds b dv (lh_block s i) s" using absorb assms(2,4) by (intro bexI [of _ ?i]) auto
  then have "pins b = 1" using pinnedD(1) [OF assms(12) bn(2)] by simp
  moreover have "inj_on (\<lambda>i. unat (lh_block s i)) {..<k}" using log_at_entries [OF assms(3)] by (simp add: entries_ok_def)
  then have "fs_view E s (unat bn) = d"
    using installed_at [of "\<lambda>i. unat (lh_block s i)" k ?i E "medium s"] absorb assms(4,13) by (simp add: fs_view_def)
  then have "fs_view E (noted s) = (fs_view E s)(unat bn := d)" by (auto simp: fs_view_def)
  moreover have "log_at dv st (lh_block s) k (noted s)" using assms(3) by (simp add: log_at_def)
  ultimately show ?thesis using assms(4,6)
    by (intro exI [of _ "noted s"] exI [of _ E] exI [of _ pins]) (simp add: kept_def)
next
  case append
  note c = cachesD [OF assms(1)]
  have bn: "b_blockno (bufs s b) = bn" "b < NBUF" "bn \<notin> lh_block s ` {..<k}" using assms(2,4) append by (auto simp: holds_def)
  have b0: "pins b = 0" using pinnedD(1) [OF assms(12) bn(2)] bn by (auto simp: holds_def)
  let ?u = "(noted s)\<lparr>bufs := (bufs s)(b := (bufs s b)\<lparr>b_refcnt := b_refcnt (bufs s b) + 1\<rparr>)\<rparr>"
  let ?t = "?u\<lparr>lh_block := (lh_block s)(k := bn), lh_n := lh_n s + 1\<rparr>"
  have w: "log_write b s = Inr ((), ?t)"
    using append assms(4-8) bn by (intro log_write_appends [OF c(1)]) auto
  have "bpin b s = Inr ((), ?u)"
    using quiet_fields [OF c(1)] by (simp add: bpin_def k_simps bset_def lock_simps noted_eq)
  then have "caches p dv (pins(b := 1)) H ?u" using bpin_run [OF assms(1,14) b0] by auto
  then have ct: "caches p dv (pins(b := 1)) H ?t" by (simp add: caches_log)
  have sb: "same_but {} s ?t" by (simp add: same_but_def)
  have n: "sint (lh_n s + 1) = int (Suc k)" "lh_count ?t = Suc k"
    using sint_suc [OF assms(6)] assms(5) by (simp_all add: lh_count_def LOGDATA_def LOGSIZE_def)
  have "pinned dv ((lh_block s)(k := bn)) (E(k := d)) {..<Suc k} (pins(b := 1)) s"
    using pin_pinned [OF assms(12,1,2) bn(3) _ assms(11)] unfolding lessThan_Suc by simp
  then have "pinned dv (lh_block ?t) (E(k := d)) {..<lh_count ?t} (pins(b := 1)) ?t" using pinned_same [OF sb] n(2) by simp
  moreover have "log_at dv st (lh_block ?t) (lh_count ?t) ?t"
    using assms(3,5,9,10) bn(3) unfolding n(2) by (auto simp: log_at_def less_Suc_eq lessThan_Suc inj_on_def)
  moreover have "fs_view (E(k := d)) ?t = (fs_view E s)(unat bn := d)"
    using installed_snoc [of "\<lambda>i. unat (lh_block s i)" k "unat bn" E d "medium s"] n(2) assms(4) by (simp add: fs_view_def fun_upd_def if_distrib [of unat])
  ultimately show ?thesis using w ct sb n
    by (intro exI [of _ ?t] exI [of _ "E(k := d)"] exI [of _ "pins(b := 1)"]) (simp add: kept_def)
qed

lemma read_view:
  assumes "pinned dv (lh_block s) D {..<lh_count s} pins s" "caches p dv pins H s" "log_at dv st (lh_block s) (lh_count s) s"
    and "has_read b dv bn pins s t" "b \<notin> H"
  shows "b_data (bufs t b) = fs_view D s (unat bn)"
proof (cases "bn \<in> lh_block s ` {..<lh_count s}")
  case True
  then obtain i where i: "i < lh_count s" "bn = lh_block s i" by auto
  have "inj_on (\<lambda>i. unat (lh_block s i)) {..<lh_count s}" using log_at_entries [OF assms(3)] by (simp add: entries_ok_def)
  then have "fs_view D s (unat bn) = D i" using installed_at [of "\<lambda>i. unat (lh_block s i)" _ i D "medium s"] i by (simp add: fs_view_def)
  then show ?thesis using read_pinned(1) [OF assms(1,2) _ assms(4) [unfolded i(2)]] i by simp
next
  case False
  then have "fs_view D s (unat bn) = medium s (unat bn)" unfolding fs_view_def by (intro installed_other) (auto dest: word_unat_eq_iff [THEN iffD2])
  then show ?thesis using read_clean(1) [OF assms(1,2) False assms(4,5)] by simp
qed


lemma txnD:
  assumes "txn p dv st D H s"
  shows "quiet p s" "idle_disk s"
  using assms cachesD(1,2) unfolding txn_def by blast+

lemma txn_cong:
  assumes "txn p dv st D H s" "quiet p t" "idle_disk t" "bufs t = bufs s" "slk t = slk s" "medium t = medium s"
    and "p_pid (proc_tab t p) = p_pid (proc_tab s p)" "lh_n t = lh_n s" "lh_block t = lh_block s"
    and "log_dev t = log_dev s" "log_start t = log_start s" "log_size t = log_size s"
  shows "txn p dv st D H t"
proof -
  obtain pins where c: "caches p dv pins H s" "pinned dv (lh_block s) D {..<lh_count s} pins s" using assms(1) unfolding txn_def by blast
  have n: "lh_count t = lh_count s" using assms(8) by (simp add: lh_count_def)
  have "caches p dv pins H t" by (rule caches_cong [OF c(1) assms(2-7)])
  moreover have "pinned dv (lh_block t) D {..<lh_count t} pins t" using c(2) assms(4,9) n by (simp add: pinned_def holds_def)
  ultimately show ?thesis using assms(1,6,8-12) n by (auto simp: txn_def log_at_def)
qed

text \<open>Changing the data of a buffer and logging it.\<close>

lemma write_txn:
  assumes "txn p dv st D H s" "b \<in> H" "holds b dv bn s" "in_fs st bn" "lh_count s < LOGDATA" "1 \<le> log_outstanding s"
  shows "\<exists>t E. log_write b (s\<lparr>bufs := (bufs s)(b := (bufs s b)\<lparr>b_data := d\<rparr>)\<rparr>) = Inr ((), t) \<and> txn p dv st E H t \<and>
    fs_view E t = (fs_view D s)(unat bn := d) \<and> holds b dv bn t \<and> b_data (bufs t b) = d \<and> same_but {b} s t \<and> lh_count t \<le> Suc (lh_count s) \<and> kept s t"
proof -
  let ?k = "lh_count s" and ?blk = "lh_block s" and ?E = "\<lambda>i. if lh_block s i = bn then d else D i"
  let ?t = "s\<lparr>bufs := (bufs s)(b := (bufs s b)\<lparr>b_data := d\<rparr>)\<rparr>"
  obtain pins where c: "caches p dv pins H s" "pinned dv ?blk D {..<?k} pins s" and l: "log_at dv st ?blk ?k s"
    and x: "sint (lh_n s) = int ?k" "sint (log_size s) = int LOGSIZE" "hdr_n st (medium s) = 0" "length (medium s st) = BSIZE"
    using assms(1) unfolding txn_def by blast
  have f2: "lh_count ?t = ?k" "lh_block ?t = ?blk" by (simp_all add: lh_count_def)
  have x2: "holds b dv bn ?t" "log_at dv st (lh_block ?t) ?k ?t" "sint (lh_n ?t) = int ?k"
    "sint (log_size ?t) = int LOGSIZE" "1 \<le> log_outstanding ?t" "b_data (bufs ?t b) = d" "\<forall>i<?k. lh_block ?t i = bn \<longrightarrow> ?E i = d"
    using assms(3,6) l x(1,2) by (simp_all add: holds_def log_at_def)
  have p2: "pinned dv (lh_block ?t) ?E {..<?k} pins ?t" unfolding f2 by (rule repin_data [OF c(2) assms(3)])
  have bn: "unat bn < 2 ^ 31" "\<not> (st \<le> unat bn \<and> unat bn \<le> st + LOGDATA)" using assms(4) by (simp_all add: in_fs_def)
  obtain t E pins' where t: "log_write b ?t = Inr ((), t)" "caches p dv pins' H t"
    "pinned dv (lh_block t) E {..<lh_count t} pins' t" "log_at dv st (lh_block t) (lh_count t) t"
    "sint (lh_n t) = int (lh_count t)" "lh_count t \<le> Suc ?k" "fs_view E t = (fs_view ?E ?t)(unat bn := d)" "same_but {} ?t t" "kept ?t t"
    using log_write_run [OF caches_data [OF c(1) assms(2)] x2(1,2) f2(1) [symmetric] assms(5) x2(3-5) bn x2(6) p2 x2(7) assms(2)] by blast
  have k: "kept s t" using t(9) by (simp add: kept_def)
  have "txn p dv st E H t" unfolding txn_def using t(2-5) k x by (auto simp: kept_def)
  moreover have "fs_view ?E ?t = installed (\<lambda>i. unat (?blk i)) ?E ?k (medium s)" by (simp add: fs_view_def lh_count_def)
  then have "(fs_view ?E ?t)(unat bn := d) = (fs_view D s)(unat bn := d)"
    unfolding fs_view_def [of D s] by (simp only:) (rule installed_but, auto)
  moreover have "holds b dv bn t" "b_data (bufs t b) = d" "same_but {b} s t" using t(8) assms(3) by (simp_all add: same_but_def holds_def)
  ultimately show ?thesis using t(1,6,7) k by auto
qed

text \<open>Giving up a buffer that shows the block.\<close>

lemma brelse_txn:
  assumes "txn p dv st D H s" "b \<in> H" "holds b dv bn s" "b_data (bufs s b) = fs_view D s (unat bn)"
  shows "\<exists>t. brelse b s = Inr ((), t) \<and> txn p dv st D (H - {b}) t \<and> fs_view D t = fs_view D s \<and> same_but {} s t \<and>
    lh_count t = lh_count s \<and> kept s t"
proof -
  obtain pins where c: "caches p dv pins H s" "pinned dv (lh_block s) D {..<lh_count s} pins s" and l: "log_at dv st (lh_block s) (lh_count s) s"
    using assms(1) unfolding txn_def by blast
  have b: "b_dev (bufs s b) = dv" "b_blockno (bufs s b) = bn" "b < NBUF" using assms(3) by (auto simp: holds_def)
  have "b_data (bufs s b) = medium s (unat bn)" if "pins b = 0"
  proof -
    have "lh_block s i \<noteq> bn" if "i < lh_count s" for i
      using pinnedD(1) [OF c(2) b(3)] \<open>pins b = 0\<close> assms(3) that by (auto split: if_splits)
    then have "fs_view D s (unat bn) = medium s (unat bn)"
      unfolding fs_view_def by (intro installed_other) (auto dest: word_unat_eq_iff [THEN iffD2])
    then show ?thesis using assms(4) by simp
  qed
  then obtain t where t: "brelse b s = Inr ((), t)" "caches p dv pins (H - {b}) t" "same_but {} s t" "medium t = medium s" "vdisk.more t = vdisk.more s"
    using brelse_run [OF c(1) assms(2)] b by auto
  have m: "same_log s t" "log.more t = log.more s" using more_log [OF t(5)] by auto
  then have f: "lh_block t = lh_block s" "lh_count t = lh_count s" "lh_n t = lh_n s" by (simp_all add: same_log_def lh_count_def)
  have "txn p dv st D (H - {b}) t"
    using assms(1) t(2,4) pinned_same [OF t(3) c(2)] m f log_at_same [OF m(1)] unfolding txn_def by (auto simp: same_log_def)
  moreover have "kept s t" "fs_view D t = fs_view D s" using m t(4) f by (simp_all add: kept_def same_log_def fs_view_def)
  ultimately show ?thesis using t(1,3) f(2) by blast
qed

text \<open>How the file system changes a block, as the comment on \<^verbatim>\<open>log_write\<close> has it.\<close>

definition log_update :: "'a log_scheme env \<Rightarrow> u32 \<Rightarrow> u32 \<times> (u8 list \<Rightarrow> u8 list) \<Rightarrow> ('a log_scheme, unit) kf" where
  "log_update e dev u = (case u of (bn, f) \<Rightarrow> kbind (bread e dev bn) (\<lambda>b. block [
     bset b (\<lambda>x. x\<lparr>b_data := f (b_data x)\<rparr>),
     log_write b,
     brelse b]))"

text \<open>A transaction is a list of updates of blocks outside the log.\<close>

definition apply_updates :: "(u32 \<times> (u8 list \<Rightarrow> u8 list)) list \<Rightarrow> (nat \<Rightarrow> u8 list) \<Rightarrow> (nat \<Rightarrow> u8 list)" where
  "apply_updates us m = fold (\<lambda>(bn, f) m. m(unat bn := f (m (unat bn)))) us m"

text \<open>No transaction: the header is empty, and nobody is in the file system.\<close>

definition at_rest :: "nat \<Rightarrow> u32 \<Rightarrow> nat \<Rightarrow> 'a log_scheme \<Rightarrow> bool" where
  "at_rest p dv st s \<longleftrightarrow> txn p dv st (\<lambda>_. []) {} s \<and> lh_n s = 0 \<and> log_outstanding s = 0 \<and> log_committing s = 0"

lemma rest_upd [simp]:
  "quiet p (s\<lparr>log_outstanding := x\<rparr>) = quiet p s" "quiet p (s\<lparr>log_committing := x\<rparr>) = quiet p s"
  "idle_disk (s\<lparr>log_outstanding := x\<rparr>) = idle_disk s" "idle_disk (s\<lparr>log_committing := x\<rparr>) = idle_disk s"
  by (simp_all add: quiet_def idle_disk_def)

lemma quiet_log: "quiet p (s\<lparr>lh_n := x\<rparr>) = quiet p s"
  by (simp add: quiet_def)

lemma begin_op_run:
  assumes "quiet p s" "log_committing s = 0" "sint (lh_n s) + (log_outstanding s + 1) * int MAXOPBLOCKS \<le> int LOGSIZE"
  shows "begin_op e s = Inr ((), (noted s)\<lparr>log_outstanding := log_outstanding s + 1\<rparr>)"
  using assms quiet_fields [OF assms(1)] by (simp add: begin_op_def k_simps lock_simps noted_eq kwaiting_exit)

lemma modify_txn:
  assumes "txn p dv st D (insert b H) s" "b \<notin> H" "holds b dv bn s" "in_fs st bn" "lh_count s < LOGDATA" "1 \<le> log_outstanding s"
  shows "\<exists>t u E. log_write b (s\<lparr>bufs := (bufs s)(b := (bufs s b)\<lparr>b_data := d\<rparr>)\<rparr>) = Inr ((), t) \<and> brelse b t = Inr ((), u) \<and>
    txn p dv st E H u \<and> fs_view E u = (fs_view D s)(unat bn := d) \<and> same_but (- H) s u \<and> lh_count u \<le> Suc (lh_count s) \<and> kept s u"
proof -
  obtain t E where t: "log_write b (s\<lparr>bufs := (bufs s)(b := (bufs s b)\<lparr>b_data := d\<rparr>)\<rparr>) = Inr ((), t)" "txn p dv st E (insert b H) t"
    "fs_view E t = (fs_view D s)(unat bn := d)" "holds b dv bn t" "b_data (bufs t b) = d" "same_but {b} s t" "lh_count t \<le> Suc (lh_count s)" "kept s t"
    using write_txn [OF assms(1) insertI1 assms(3-6)] by blast
  obtain u where u: "brelse b t = Inr ((), u)" "txn p dv st E (insert b H - {b}) u" "fs_view E u = fs_view E t" "same_but {} t u"
    "lh_count u = lh_count t" "kept t u"
    using brelse_txn [OF t(2) insertI1 t(4)] t(3,5) by auto
  have "same_but (- H) s u" using assms(2) t(6) u(4) by (auto simp: same_but_def)
  moreover have "kept s u" using t(8) u(6) kept_trans by blast
  ultimately show ?thesis using t(1,3,7) u(1-3,5) assms(2) by (intro exI [of _ t] exI [of _ u] exI [of _ E]) simp
qed

locale cached_log = block_disk e p tr live
  for e :: "'a log_scheme env" and p :: nat and tr :: "(nat \<Rightarrow> u8 list) \<Rightarrow> 'a log_ext \<Rightarrow> 'a log_ext" and live :: bool
begin

lemma bread_txn:
  assumes "live" "txn p dv st D H s" "unat bn < 2 ^ 31" "\<forall>b\<in>H. \<not> holds b dv bn s" "lh_count s + card H < NBUF"
  shows "\<exists>b t. bread e dv bn s = Inr (b, t) \<and> b \<notin> H \<and> txn p dv st D (insert b H) t \<and> holds b dv bn t \<and>
    b_data (bufs t b) = fs_view D s (unat bn) \<and> fs_view D t = fs_view D s \<and> same_but {b} s t \<and> lh_count t = lh_count s \<and> kept s t"
proof -
  obtain pins where c: "caches p dv pins H s" "pinned dv (lh_block s) D {..<lh_count s} pins s" and l: "log_at dv st (lh_block s) (lh_count s) s"
    using assms(2) unfolding txn_def by blast
  have "\<exists>b<NBUF. pins b = 0 \<and> b \<notin> H" using free_buffer [OF c(2,1)] assms(5) by simp
  then obtain b t where t: "bread e dv bn s = Inr (b, t)" "b \<notin> H" "caches p dv pins (insert b H) t" "has_read b dv bn pins s t"
    using bread_run [OF assms(1) c(1) assms(3,4)] by auto
  have h: "holds b dv bn t" "b < NBUF" "medium t = medium s" "same_but {b} s t" using t(4) by (auto simp: has_read_def holds_def)
  have m: "same_log s t" "log.more t = log.more s" using more_log [of t s] t(4) by (auto simp: has_read_def)
  then have f: "lh_block t = lh_block s" "lh_count t = lh_count s" "lh_n t = lh_n s" by (simp_all add: same_log_def lh_count_def)
  have "txn p dv st D (insert b H) t"
    using assms(2) t(3) pinned_read [OF c(2) t(4) h(2)] m f h(3) log_at_same [OF m(1)] unfolding txn_def by (auto simp: same_log_def)
  moreover have "kept s t" "fs_view D t = fs_view D s" using m h(3) f by (simp_all add: kept_def same_log_def fs_view_def)
  ultimately show ?thesis using t(1,2) h(1,4) f(2) read_view [OF c(2,1) l t(4,2)] by blast
qed

lemma update_run:
  assumes "live" "txn p dv st D H s" "in_fs st bn" "\<forall>b\<in>H. \<not> holds b dv bn s" "card H \<le> 1" "lh_count s < LOGDATA" "1 \<le> log_outstanding s"
  shows "\<exists>t E. log_update e dv (bn, f) s = Inr ((), t) \<and> txn p dv st E H t \<and> fs_view E t = (fs_view D s)(unat bn := f (fs_view D s (unat bn))) \<and>
    same_but (- H) s t \<and> lh_count t \<le> Suc (lh_count s) \<and> kept s t"
proof -
  let ?d = "f (fs_view D s (unat bn))"
  have bn: "unat bn < 2 ^ 31" "lh_count s + card H < NBUF" using assms(3,5,6) by (simp_all add: in_fs_def LOGDATA_def LOGSIZE_def NBUF_def)
  obtain b t1 where t1: "bread e dv bn s = Inr (b, t1)" "b \<notin> H" "txn p dv st D (insert b H) t1" "holds b dv bn t1"
    "b_data (bufs t1 b) = fs_view D s (unat bn)" "fs_view D t1 = fs_view D s" "same_but {b} s t1" "lh_count t1 = lh_count s" "kept s t1"
    using bread_txn [OF assms(1,2) bn(1) assms(4) bn(2)] by blast
  have o: "lh_count t1 < LOGDATA" "1 \<le> log_outstanding t1" using t1(8,9) assms(6,7) by (simp_all add: kept_def)
  obtain t2 t3 E where t3: "log_write b (t1\<lparr>bufs := (bufs t1)(b := (bufs t1 b)\<lparr>b_data := ?d\<rparr>)\<rparr>) = Inr ((), t2)" "brelse b t2 = Inr ((), t3)"
    "txn p dv st E H t3" "fs_view E t3 = (fs_view D t1)(unat bn := ?d)" "same_but (- H) t1 t3" "lh_count t3 \<le> Suc (lh_count t1)" "kept t1 t3"
    using modify_txn [OF t1(3,2,4) assms(3) o] by blast
  have "log_update e dv (bn, f) s = Inr ((), t3)" using t1(1,5) t3(1,2) by (simp add: log_update_def k_simps bset_def)
  moreover have "same_but (- H) s t3" using t1(2,7) t3(5) by (auto simp: same_but_def)
  moreover have "kept s t3" using t1(9) t3(7) kept_trans by blast
  ultimately show ?thesis using t3(3,4,6) t1(6,8) by (intro exI [of _ t3] exI [of _ E]) simp
qed

lemma updates_run:
  assumes "live" "txn p dv st D {} s" "lh_count s + length us \<le> LOGDATA" "1 \<le> log_outstanding s" "\<forall>u\<in>set us. in_fs st (fst u)"
  shows "\<exists>t D'. kfor us (log_update e dv) s = Inr ((), t) \<and> txn p dv st D' {} t \<and> fs_view D' t = apply_updates us (fs_view D s) \<and> kept s t"
  using assms(2-5)
proof (induction us arbitrary: s D)
  case Nil
  then show ?case by (auto simp: k_simps apply_updates_def kept_def)
next
  case (Cons u us)
  obtain bn f where u: "u = (bn, f)" by (cases u)
  obtain t E where t: "log_update e dv (bn, f) s = Inr ((), t)" "txn p dv st E {} t" "lh_count t \<le> Suc (lh_count s)"
    "fs_view E t = (fs_view D s)(unat bn := f (fs_view D s (unat bn)))" "kept s t"
    using update_run [OF assms(1) Cons.prems(1), of bn f] Cons.prems(2-4) u by auto
  obtain t' D' where t': "kfor us (log_update e dv) t = Inr ((), t')" "txn p dv st D' {} t'" "fs_view D' t' = apply_updates us (fs_view E t)" "kept t t'"
    using Cons.IH [OF t(2)] Cons.prems(2-4) t(3,5) by (auto simp: kept_def)
  show ?case using t t' u by (intro exI [of _ t'] exI [of _ D']) (auto simp: k_simps apply_updates_def kept_def)
qed

end

interpretation fslog: cached_log "disk_env regs dev p n" p tr "serves tr dev \<and> 1 \<le> n" for regs dev p n tr
  by unfold_locales

end
