(* ===== verification/Xv6_Crash.thy ===== *)
theory Xv6_Crash
  imports Xv6_Txn
begin

unbundle bit_operations_syntax

text \<open>
  File system transactions: what a system call writes between \<^verbatim>\<open>begin_op\<close> and \<^verbatim>\<open>end_op\<close> is atomic
  with respect to crashes.
\<close>

section \<open>The end of a transaction\<close>

lemma media_noted [simp]: "media (noted s) = media s"
  by (simp add: noted_eq)

lemma kept_media: "kept s t \<Longrightarrow> media t = media s"
  for s t :: "'a traced_scheme"
  by (cases s; cases t) (simp add: kept_def)

context log_disk
begin

lemma txn_commit:
  assumes "live" "txn p dv st D {} s"
  shows "\<exists>t pre post. commit e s = Inr ((), t) \<and> txn p dv st (\<lambda>_. []) {} t \<and> same_log (s\<lparr>lh_n := 0\<rparr>) t \<and> media t = media s @ pre @ post \<and>
    (\<forall>m\<in>set pre. replay st m = home st (medium s) \<and> hdr_ok st m) \<and>
    (\<forall>m\<in>set post. replay st m = home st (fs_view D s) \<and> hdr_ok st m) \<and> home st (medium t) = home st (fs_view D s) \<and>
    medium t = last (medium s # pre @ post)"
proof -
  let ?k = "lh_count s" and ?blk = "lh_block s"
  obtain pins where c: "caches p dv pins {} s" "pinned dv ?blk D {..<?k} pins s" and l: "log_at dv st ?blk ?k s"
    and x: "sint (lh_n s) = int ?k" "sint (log_size s) = int LOGSIZE" "hdr_n st (medium s) = 0" "length (medium s st) = BSIZE"
    using assms(2) unfolding txn_def by blast
  show ?thesis
  proof (cases "?k = 0")
    case True
    have "lh_n s = of_int (sint (lh_n s))" by simp
    also have "\<dots> = 0" unfolding x(1) True by simp
    finally have "commit e s = Inr ((), s)" "same_log (s\<lparr>lh_n := 0\<rparr>) s" by (simp_all add: commit_def k_simps same_log_def)
    moreover have "txn p dv st (\<lambda>_. []) {} s" using assms(2) True by (simp add: txn_def pinned_empty)
    moreover have "fs_view D s = medium s" using True by (simp add: fs_view_def installed_def)
    ultimately show ?thesis by (intro exI [of _ s] exI [of _ "[]"]) simp
  next
    case False
    let ?pre = "logging st D ?k (medium s)" and ?post = "installing st (lh_n s) ?blk D ?k (medium s)"
    have "?k < NBUF" using l by (simp add: log_at_def LOGDATA_def LOGSIZE_def NBUF_def)
    then obtain t pins' where t: "commit e s = Inr ((), t)" "caches p dv pins' {} t" "pinned dv ?blk D {} pins' t" "same_log (s\<lparr>lh_n := 0\<rparr>) t"
      "media t = media s @ ?pre @ ?post" "medium t = last ?post"
      using commit_run [OF assms(1) c l _ _ _ x(1,3,4)] False by auto
    note e = log_at_entries [OF l]
    note i = installing_replay [where st = st and D = D and m = "medium s", OF e x(1,4), folded fs_view_def]
    have "length (medium t st) = BSIZE" using i(1) t(6) by (auto simp: hdr_ok_def installing_def Let_def)
    then have "txn p dv st (\<lambda>_. []) {} t"
      using t(2,3,4,6) l x(2) i(3) by (auto simp: txn_def same_log_def lh_count_def pinned_empty log_at_def)
    moreover have "medium t = last (medium s # ?pre @ ?post)" using t(6) by (simp add: installing_def Let_def)
    moreover have "\<forall>m\<in>set ?pre. replay st m = home st (medium s) \<and> hdr_ok st m" using logging_replay [OF e x(3,4)] by blast
    moreover have "home st (medium t) = home st (fs_view D s)" using i(2) t(6) by simp
    ultimately show ?thesis using t(1,4,5) i(1) by blast
  qed
qed

lemma end_op_run:
  assumes "live" "txn p dv st D {} s" "log_outstanding s = 1" "log_committing s = 0"
  shows "\<exists>t pre post. end_op e s = Inr ((), t) \<and> at_rest p dv st t \<and> log_start t = log_start s \<and> media t = media s @ pre @ post \<and>
    (\<forall>m\<in>set pre. replay st m = home st (medium s) \<and> hdr_ok st m) \<and>
    (\<forall>m\<in>set post. replay st m = home st (fs_view D s) \<and> hdr_ok st m) \<and> home st (medium t) = home st (fs_view D s) \<and>
    medium t = last (medium s # pre @ post)"
proof -
  let ?s = "noted (s\<lparr>log_outstanding := 0, log_committing := 1\<rparr>)"
  note q = txnD [OF assms(2)]
  have "txn p dv st D {} ?s" by (rule txn_cong [OF assms(2)]) (simp_all add: q)
  then obtain t pre post where t: "commit e ?s = Inr ((), t)" "txn p dv st (\<lambda>_. []) {} t" "same_log (?s\<lparr>lh_n := 0\<rparr>) t" "media t = media ?s @ pre @ post"
    "\<forall>m\<in>set pre. replay st m = home st (medium ?s) \<and> hdr_ok st m" "\<forall>m\<in>set post. replay st m = home st (fs_view D ?s) \<and> hdr_ok st m"
    "home st (medium t) = home st (fs_view D ?s)" "medium t = last (medium ?s # pre @ post)"
    using txn_commit [OF assms(1)] by blast
  note qt = txnD [OF t(2)]
  let ?t = "noted (t\<lparr>log_committing := 0, proc_tab := woken (Some ChanLog) (Some p) (proc_tab t) NPROC\<rparr>)"
  have "end_op e s = Inr ((), ?t)"
    using assms(3,4) quiet_fields [OF q(1)] quiet_fields [OF qt(1)] t(1) by (simp add: end_op_def k_simps lock_simps noted_eq Let_def)
  moreover have "txn p dv st (\<lambda>_. []) {} ?t" by (rule txn_cong [OF t(2)]) (simp_all add: qt woken_pid)
  then have "at_rest p dv st ?t" using t(3) by (simp add: at_rest_def same_log_def)
  moreover have "fs_view D ?s = fs_view D s" by (simp add: fs_view_def lh_count_def)
  moreover have "log_start ?t = log_start s" using t(3) by (simp add: same_log_def)
  ultimately show ?thesis using t(4-8) by (intro exI [of _ ?t] exI [of _ pre] exI [of _ post]) simp
qed

end

interpretation logd: log_disk "disk_env regs dev p n" p "serves note_write dev \<and> 1 \<le> n" for regs dev p n
  by unfold_locales

section \<open>Crashes\<close>

text \<open>
  A machine that has booted after a crash: the medium is as the crash left it, the buffer cache is
  as \<^verbatim>\<open>binit\<close> leaves it.
\<close>

definition booted :: "nat \<Rightarrow> u32 \<Rightarrow> (nat \<Rightarrow> u8 list) \<Rightarrow> 'a vdisk_scheme \<Rightarrow> bool" where
  "booted p dv m r \<longleftrightarrow> caches p dv (\<lambda>_. 0) {} r \<and> medium r = m"

text \<open>The contents a medium can have after crashes during recovery, any number of them.\<close>

inductive crashes :: "'a traced_scheme env \<Rightarrow> nat \<Rightarrow> u32 \<Rightarrow> superblock \<Rightarrow> (nat \<Rightarrow> u8 list) \<Rightarrow> (nat \<Rightarrow> u8 list) \<Rightarrow> bool"
  for e p dv sb m where
  first: "crashes e p dv sb m m"
| again: "crashes e p dv sb m k \<Longrightarrow> booted p dv k r \<Longrightarrow> initlog e dv sb r = Inr ((), t) \<Longrightarrow> media t = media r @ tr \<Longrightarrow>
    m' \<in> set tr \<Longrightarrow> crashes e p dv sb m m'"

lemma caches_initlog:
  assumes "caches p dv pins H s"
  shows "caches p dv pins H (s\<lparr>lks := (lks s)(L_log := (lks s L_log)\<lparr>lk_name := nm, lk_locked := 0, lk_cpu := None\<rparr>),
    log_start := a, log_size := b, log_dev := c\<rparr>)"
  using assms by (auto simp: caches_def quiet_def idle_disk_def buf_ok_def holds_def Let_def lfree_def)

lemma initlog_run:
  assumes "serves note_write dev" "1 \<le> n" "booted p dv m r" "unat (sb_logstart sb) = st" "st + LOGDATA < 2 ^ 31" "hdr_ok st m"
  shows "\<exists>u tr. initlog (disk_env regs dev p n) dv sb r = Inr ((), u) \<and> media u = media r @ tr \<and> lh_n u = 0 \<and>
    home st (medium u) = replay st m \<and> hdr_n st (medium u) = 0 \<and> (\<forall>k\<in>set tr. replay st k = replay st m \<and> hdr_ok st k)"
proof -
  let ?r = "r\<lparr>lks := (lks r)(L_log := (lks r L_log)\<lparr>lk_name := ''log'', lk_locked := 0, lk_cpu := None\<rparr>),
    log_start := sb_logstart sb, log_size := sb_nlog sb, log_dev := dv\<rparr>"
  have r: "caches p dv (\<lambda>_. 0) {} ?r" "medium ?r = m" using assms(3) caches_initlog unfolding booted_def by auto
  have l: "log_at dv st blk 0 ?r" for blk using assms(4,5) by (simp add: log_at_def)
  obtain u tr where u: "recover_from_log (disk_env regs dev p n) ?r = Inr ((), u)" "media u = media ?r @ tr" "lh_n u = 0"
    "home st (medium u) = replay st m" "hdr_n st (medium u) = 0" "\<forall>k\<in>set tr. replay st k = replay st m \<and> hdr_ok st k"
    using logd.recover_run [of dev n p dv "\<lambda>_. 0" ?r st _ regs, OF _ r(1) _ l] assms(1,2,6) r(2) by auto
  from u(1) have "initlog (disk_env regs dev p n) dv sb r = Inr ((), u)"
    by (simp add: initlog_def initlock_run k_simps BSIZE_def LOGSIZE_def)
  with u(2-6) show ?thesis by auto
qed

lemma crashes_replay:
  assumes "crashes (disk_env regs dev p n) p dv sb m k" "serves note_write dev" "1 \<le> n"
    and "unat (sb_logstart sb) = st" "st + LOGDATA < 2 ^ 31" "hdr_ok st m"
  shows "replay st k = replay st m \<and> hdr_ok st k"
  using assms
proof (induction rule: crashes.induct)
  case (again k r t tr m')
  then have "hdr_ok st k" "replay st k = replay st m" by auto
  with initlog_run [OF again.prems(1,2) again.hyps(2) again.prems(3,4), where regs = regs] again.hyps(3,4,5)
  show ?case by auto
qed simp

text \<open>What \<^verbatim>\<open>initlog\<close> makes of the file system after such crashes.\<close>

definition recovers :: "'a traced_scheme env \<Rightarrow> nat \<Rightarrow> u32 \<Rightarrow> superblock \<Rightarrow> nat \<Rightarrow> (nat \<Rightarrow> u8 list) \<Rightarrow> (nat \<Rightarrow> u8 list) \<Rightarrow> bool" where
  "recovers e p dv sb st m h \<longleftrightarrow> (\<forall>m' r. crashes e p dv sb m m' \<and> booted p dv m' r \<longrightarrow>
     (\<exists>u. initlog e dv sb r = Inr ((), u) \<and> home st (medium u) = h \<and> hdr_n st (medium u) = 0 \<and> lh_n u = 0))"

lemma recovers_replay:
  fixes dev :: "('a traced_scheme, unit) kf"
  assumes "serves note_write dev" "1 \<le> n" "unat (sb_logstart sb) = st" "st + LOGDATA < 2 ^ 31" "hdr_ok st m"
  shows "recovers (disk_env regs dev p n) p dv sb st m (replay st m)"
  unfolding recovers_def
proof (intro allI impI, elim conjE)
  fix m' and r :: "'a traced_scheme"
  assume c: "crashes (disk_env regs dev p n) p dv sb m m'" "booted p dv m' r"
  have "replay st m' = replay st m" "hdr_ok st m'" using crashes_replay [OF c(1) assms] by auto
  then show "\<exists>u. initlog (disk_env regs dev p n) dv sb r = Inr ((), u) \<and> home st (medium u) = replay st m \<and> hdr_n st (medium u) = 0 \<and> lh_n u = 0"
    using initlog_run [OF assms(1,2) c(2) assms(3,4), of regs] by auto
qed

text \<open>
  C2. A file system transaction is atomic. A system call that starts when the log is at rest calls
  \<^verbatim>\<open>begin_op\<close>, changes at most \<open>MAXOPBLOCKS\<close> blocks through \<^verbatim>\<open>bread\<close>, \<^verbatim>\<open>log_write\<close> and \<^verbatim>\<open>brelse\<close>, where each
  change sees the earlier ones, and calls \<^verbatim>\<open>end_op\<close>. With a disk that serves its requests this
  returns, with the log at rest again and exactly these changes on the disk. The block writes it makes fall
  into two runs. If the machine stops before the first write or after one of the first run, and
  then any number of times while it recovers, \<^verbatim>\<open>initlog\<close> restores the file system as it was before
  the call; if it stops after a write of the second run, or after \<^verbatim>\<open>end_op\<close> has returned,
  \<^verbatim>\<open>initlog\<close> gives it all changes.
\<close>

theorem transaction_atomic:
  assumes "serves note_write dev" "1 \<le> n" "at_rest p dv st s" "length us \<le> MAXOPBLOCKS" "\<forall>u\<in>set us. in_fs st (fst u)"
    and "sb_logstart sb = log_start s" "e = disk_env regs dev p n" "new = apply_updates us (medium s)"
  shows "\<exists>t pre post. block [begin_op e, kfor us (log_update e dv), end_op e] s = Inr ((), t) \<and> at_rest p dv st t \<and>
    home st (medium t) = home st new \<and> media t = media s @ pre @ post \<and> medium t = last (medium s # pre @ post) \<and>
    (\<forall>m\<in>set (medium s # pre). recovers e p dv sb st m (home st (medium s))) \<and>
    (\<forall>m\<in>set (post @ [medium t]). recovers e p dv sb st m (home st new))"
proof -
  have tx: "txn p dv st (\<lambda>_. []) {} s" and z: "lh_n s = 0" "log_outstanding s = 0" "log_committing s = 0"
    using assms(3) by (simp_all add: at_rest_def)
  let ?s = "(noted s)\<lparr>log_outstanding := 1\<rparr>"
  have b: "begin_op e s = Inr ((), ?s)"
    using begin_op_run [OF txnD(1) [OF tx]] z by (simp add: MAXOPBLOCKS_def LOGSIZE_def)
  have "txn p dv st (\<lambda>_. []) {} ?s" by (rule txn_cong [OF tx]) (simp_all add: txnD [OF tx])
  moreover have "lh_count ?s + length us \<le> LOGDATA" using z assms(4) by (simp add: lh_count_def MAXOPBLOCKS_def LOGDATA_def LOGSIZE_def)
  ultimately obtain t1 D where t1: "kfor us (log_update e dv) ?s = Inr ((), t1)" "txn p dv st D {} t1"
    "fs_view D t1 = apply_updates us (fs_view (\<lambda>_. []) ?s)" "kept ?s t1"
    using fslog.updates_run [of note_write dev n p dv st "\<lambda>_. []" ?s us regs] assms(1,2,5) unfolding assms(7) by auto
  have v: "fs_view D t1 = new" "medium t1 = medium s"
    using t1(3,4) z(1) assms(8) by (simp_all add: fs_view_def lh_count_def installed_def kept_def)
  obtain t pre post where t: "end_op e t1 = Inr ((), t)" "at_rest p dv st t" "media t = media t1 @ pre @ post"
    "\<forall>m\<in>set pre. replay st m = home st (medium s) \<and> hdr_ok st m" "\<forall>m\<in>set post. replay st m = home st new \<and> hdr_ok st m"
    "home st (medium t) = home st new" "medium t = last (medium s # pre @ post)"
    using logd.end_op_run [OF _ t1(2), of dev n regs] assms(1,2) t1(4) z(3) unfolding assms(7) v by (auto simp: kept_def)
  have sb: "unat (sb_logstart sb) = st" "st + LOGDATA < 2 ^ 31" using tx assms(6) by (simp_all add: txn_def log_at_def)
  have r: "recovers e p dv sb st m h" if "replay st m = h" "hdr_ok st m" for m h
    unfolding assms(7) using recovers_replay [OF assms(1,2) sb that(2)] that(1) by simp
  have "replay st (medium s) = home st (medium s)" "hdr_ok st (medium s)"
    using tx by (simp_all add: txn_def replay_empty hdr_ok_empty)
  then have "\<forall>m\<in>set (medium s # pre). recovers e p dv sb st m (home st (medium s))" using t(4) by (auto intro!: r)
  moreover have "replay st (medium t) = home st new" "hdr_ok st (medium t)"
    using t(2,6) by (simp_all add: at_rest_def txn_def replay_empty hdr_ok_empty)
  then have "\<forall>m\<in>set (post @ [medium t]). recovers e p dv sb st m (home st new)" using t(5) by (auto intro!: r)
  moreover have "block [begin_op e, kfor us (log_update e dv), end_op e] s = Inr ((), t)"
    using b t1(1) t(1) by (simp add: k_simps)
  moreover have "media t = media s @ pre @ post" using t(3) kept_media [OF t1(4)] by simp
  ultimately show ?thesis using t(2,6,7) by blast
qed

text \<open>A machine that has booted from an empty disk.\<close>

definition demo_log :: "(nat \<Rightarrow> u8 list) \<Rightarrow> traced" where
  "demo_log m = log.extend (vdisk.extend (demo_vdisk 3 sleepy_table (\<lambda>_. blank_buf) m) (log.fields 2 30 0 0 1 0 (\<lambda>_. 0))) (traced.fields [])"

lemma demo_log_ok:
  "quiet 3 (demo_log m)" "idle_disk (demo_log m)" "bufs (demo_log m) = (\<lambda>_. blank_buf)" "medium (demo_log m) = m"
  "log_start (demo_log m) = 2" "log_size (demo_log m) = 30" "log_outstanding (demo_log m) = 0" "log_committing (demo_log m) = 0"
  "log_dev (demo_log m) = 1" "lh_n (demo_log m) = 0" "media (demo_log m) = []"
  using demo_vdisk_ok [of 3 sleepy_table "\<lambda>_. blank_buf" m]
  by (simp_all add: demo_log_def log.defs vdisk.defs traced.defs quiet_def idle_disk_def NPROC_def)

definition demo_env :: "traced env" where
  "demo_env = disk_env (\<lambda>_ _. 1) (demo_dev note_write) 3 1"

definition demo_sb :: superblock where
  "demo_sb = \<lparr>sb_magic = 0x10203040, sb_size = 2000, sb_nblocks = 1954, sb_ninodes = 200, sb_nlog = 30, sb_logstart = 2,
     sb_inodestart = 32, sb_bmapstart = 45\<rparr>"

definition demo_updates :: "(u32 \<times> (u8 list \<Rightarrow> u8 list)) list" where
  "demo_updates = [(70, \<lambda>_. replicate BSIZE 5), (71, \<lambda>_. replicate BSIZE 6), (70, map (\<lambda>x. x + 1))]"

lemma demo_log_boots:
  "\<exists>s. binit (demo_log m) = Inr ((), s) \<and> booted 3 1 m s \<and> same_log (demo_log m) s"
proof -
  obtain s where s: "binit (demo_log m) = Inr ((), s)" "caches 3 1 (\<lambda>_. 0) {} s" "medium s = m" "vdisk.more s = vdisk.more (demo_log m)"
    using binit_caches [OF demo_log_ok(1,2), of 1] by (auto simp: demo_log_ok blank_buf_def)
  then show ?thesis using more_same [OF s(4)] by (auto simp: booted_def)
qed

lemma demo_at_rest:
  assumes "booted 3 1 (\<lambda>_. replicate BSIZE 0) s" "same_log (demo_log (\<lambda>_. replicate BSIZE 0)) s"
  shows "at_rest 3 1 2 s"
proof -
  have "hdr_n 2 (medium s) = 0" using assms(1) by (simp add: booted_def hdr_n_def get32_def BSIZE_def upt_conv_Cons)
  then show ?thesis using assms
    by (auto simp: booted_def at_rest_def txn_def same_log_def demo_log_ok lh_count_def pinned_empty log_at_def LOGDATA_def LOGSIZE_def)
qed

theorem transaction_atomic_witness:
  "\<exists>s t r u. binit (demo_log (\<lambda>_. replicate BSIZE 0)) = Inr ((), s) \<and>
     block [begin_op demo_env, kfor demo_updates (log_update demo_env 1), end_op demo_env] s = Inr ((), t) \<and>
     medium t 70 = replicate BSIZE 6 \<and> medium t 71 = replicate BSIZE 6 \<and> medium t 72 = replicate BSIZE 0 \<and>
     binit (demo_log (medium t)) = Inr ((), r) \<and> initlog demo_env 1 demo_sb r = Inr ((), u) \<and> medium u 70 = replicate BSIZE 6"
proof -
  let ?z = "\<lambda>_. replicate BSIZE 0" and ?new = "apply_updates demo_updates (\<lambda>_. replicate BSIZE 0)"
  obtain s where s: "binit (demo_log ?z) = Inr ((), s)" "booted 3 1 ?z s" "same_log (demo_log ?z) s" using demo_log_boots by blast
  have m: "medium s = ?z" "log_start s = 2" using s(2,3) by (simp_all add: booted_def same_log_def demo_log_ok)
  have n: "?new 70 = replicate BSIZE 6" "?new 71 = replicate BSIZE 6" "?new 72 = replicate BSIZE 0"
    by (simp_all add: apply_updates_def demo_updates_def)
  have h: "home 2 k b = k b" if "b \<in> {70, 71, 72}" for k b using that by (auto simp: home_def LOGDATA_def LOGSIZE_def)
  have "length demo_updates \<le> MAXOPBLOCKS" "\<forall>u\<in>set demo_updates. in_fs 2 (fst u)" "sb_logstart demo_sb = log_start s"
    by (simp_all add: demo_updates_def MAXOPBLOCKS_def in_fs_def demo_sb_def m LOGDATA_def LOGSIZE_def)
  from transaction_atomic [OF demo_dev_serves order_refl demo_at_rest [OF s(2,3)] this demo_env_def refl]
  obtain t where t: "block [begin_op demo_env, kfor demo_updates (log_update demo_env 1), end_op demo_env] s = Inr ((), t)"
    "home 2 (medium t) = home 2 ?new" "recovers demo_env 3 1 demo_sb 2 (medium t) (home 2 ?new)" unfolding m(1) by auto
  obtain r where r: "binit (demo_log (medium t)) = Inr ((), r)" "booted 3 1 (medium t) r" using demo_log_boots by blast
  obtain u where u: "initlog demo_env 1 demo_sb r = Inr ((), u)" "home 2 (medium u) = home 2 ?new"
    using t(3) r(2) crashes.first unfolding recovers_def by blast
  have "medium t b = ?new b" "medium u b = ?new b" if "b \<in> {70, 71, 72}" for b
    using fun_cong [OF t(2), of b] fun_cong [OF u(2), of b] h [OF that] by simp_all
  then show ?thesis using s(1) t(1) r(1) u(1) n by (intro exI [of _ s] exI [of _ t] exI [of _ r] exI [of _ u]) simp
qed

section \<open>The capacity of the log\<close>



end
