(* ===== verification/Xv6_Blocks.thy ===== *)
theory Xv6_Blocks
  imports Xv6_Fs Xv6_Txn
begin

unbundle bit_operations_syntax

text \<open>
  The block allocator (\<^verbatim>\<open>balloc\<close>, \<^verbatim>\<open>bfree\<close> and \<^verbatim>\<open>bzero\<close> of \<^verbatim>\<open>fs.c\<close>) against the set of the blocks in use,
  as the file system sees the bitmap in a transaction.
\<close>

section \<open>The bitmap\<close>

definition bmap_block :: "superblock \<Rightarrow> nat \<Rightarrow> nat" where
  "bmap_block sb0 b = unat (sb_bmapstart sb0) + b div BPB"

definition in_use :: "superblock \<Rightarrow> (nat \<Rightarrow> u8 list) \<Rightarrow> nat \<Rightarrow> bool" where
  "in_use sb0 V b \<longleftrightarrow> V (bmap_block sb0 b) ! (b mod BPB div 8) AND bit_mask (b mod BPB) \<noteq> 0"

definition mark :: "superblock \<Rightarrow> nat \<Rightarrow> (nat \<Rightarrow> u8 list) \<Rightarrow> (nat \<Rightarrow> u8 list)" where
  "mark sb0 b V = V(bmap_block sb0 b := (V (bmap_block sb0 b))
     [b mod BPB div 8 := V (bmap_block sb0 b) ! (b mod BPB div 8) OR bit_mask (b mod BPB)])"

definition unmark :: "superblock \<Rightarrow> nat \<Rightarrow> (nat \<Rightarrow> u8 list) \<Rightarrow> (nat \<Rightarrow> u8 list)" where
  "unmark sb0 b V = V(bmap_block sb0 b := (V (bmap_block sb0 b))
     [b mod BPB div 8 := V (bmap_block sb0 b) ! (b mod BPB div 8) AND NOT (bit_mask (b mod BPB))])"

text \<open>The first block that is not in use.\<close>

definition free_block :: "superblock \<Rightarrow> (nat \<Rightarrow> u8 list) \<Rightarrow> nat option" where
  "free_block sb0 V = find (\<lambda>b. \<not> in_use sb0 V b) [0..<unat (sb_size sb0)]"

text \<open>
  A disk as \<^verbatim>\<open>mkfs\<close> lays it out: the log is before the bitmap, and all blocks up to the end of the
  bitmap are in use.
\<close>

definition last_meta :: "superblock \<Rightarrow> nat" where
  "last_meta sb0 = bmap_block sb0 (unat (sb_size sb0) - 1)"

definition bitmap_ok :: "superblock \<Rightarrow> nat \<Rightarrow> (nat \<Rightarrow> u8 list) \<Rightarrow> bool" where
  "bitmap_ok sb0 st V \<longleftrightarrow> unat (sb_size sb0) < 2 ^ 31 \<and> last_meta sb0 < unat (sb_size sb0) \<and> st + LOGDATA < unat (sb_bmapstart sb0) \<and>
     (\<forall>b<unat (sb_size sb0). length (V (bmap_block sb0 b)) = BSIZE) \<and> (\<forall>b\<le>last_meta sb0. in_use sb0 V b)"

lemma BPB_pos: "0 < BPB" "BPB = 8192" "8 dvd BPB"
  by (simp_all add: BPB_def BSIZE_def)

lemma bit_index: "b mod BPB div 8 < BSIZE"
  using mod_less_divisor [OF BPB_pos(1), of b] by (simp add: BPB_def BSIZE_def)

lemma in_use_bit: "in_use sb0 V b \<longleftrightarrow> bit (V (bmap_block sb0 b) ! (b mod BPB div 8)) (b mod 8)"
  by (auto simp: in_use_def bit_mask_def push_bit_of_1 and_exp_eq_0_iff_not_bit mod_mod_cancel [OF BPB_pos(3)])

lemma bmap_block_mono: "b \<le> c \<Longrightarrow> bmap_block sb0 b \<le> bmap_block sb0 c"
  by (simp add: bmap_block_def div_le_mono)

lemma same_bit:
  assumes "bmap_block sb0 b = bmap_block sb0 c" "b mod BPB div 8 = c mod BPB div 8" "b mod 8 = c mod 8"
  shows "b = c"
proof -
  have m: "b mod BPB mod 8 = b mod 8" for b by (simp add: mod_mod_cancel [OF BPB_pos(3)])
  have "b mod BPB = c mod BPB" using assms(2,3) m [of b] m [of c] by (metis div_mult_mod_eq)
  moreover have "b div BPB = c div BPB" using assms(1) by (simp add: bmap_block_def)
  ultimately show ?thesis by (metis div_mult_mod_eq)
qed

lemma in_use_mark:
  assumes "length (V (bmap_block sb0 b)) = BSIZE"
  shows "in_use sb0 (mark sb0 b V) c \<longleftrightarrow> c = b \<or> in_use sb0 V c"
proof -
  have b: "bit (bit_mask (b mod BPB)) n \<longleftrightarrow> n = b mod 8 \<and> n < 8" for n
    by (auto simp: bit_mask_def push_bit_of_1 bit_exp_iff mod_mod_cancel [OF BPB_pos(3)] possible_bit_def)
  show ?thesis
  proof (cases "bmap_block sb0 c = bmap_block sb0 b \<and> c mod BPB div 8 = b mod BPB div 8")
    case True
    then show ?thesis using assms bit_index [of b] b same_bit [of sb0 c b] by (auto simp: in_use_bit mark_def bit_or_iff)
  next
    case False
    then show ?thesis using assms bit_index by (auto simp: in_use_bit mark_def nth_list_update)
  qed
qed

lemma in_use_unmark:
  assumes "length (V (bmap_block sb0 b)) = BSIZE"
  shows "in_use sb0 (unmark sb0 b V) c \<longleftrightarrow> c \<noteq> b \<and> in_use sb0 V c"
proof -
  have b: "bit (NOT (bit_mask (b mod BPB))) n \<longleftrightarrow> n \<noteq> b mod 8 \<and> n < 8" for n
    by (auto simp: bit_mask_def push_bit_of_1 bit_exp_iff bit_not_iff mod_mod_cancel [OF BPB_pos(3)] possible_bit_def)
  show ?thesis
  proof (cases "bmap_block sb0 c = bmap_block sb0 b \<and> c mod BPB div 8 = b mod BPB div 8")
    case True
    then show ?thesis using assms bit_index [of b] b same_bit [of sb0 c b] by (auto simp: in_use_bit unmark_def bit_and_iff)
  next
    case False
    then show ?thesis using assms bit_index by (auto simp: in_use_bit unmark_def nth_list_update)
  qed
qed

lemma unmark_mark:
  assumes "length (V (bmap_block sb0 b)) = BSIZE" "\<not> in_use sb0 V b"
  shows "unmark sb0 b (mark sb0 b V) = V"
proof -
  let ?x = "V (bmap_block sb0 b) ! (b mod BPB div 8)" and ?m = "bit_mask (b mod BPB)"
  have "?x AND ?m = 0" using assms(2) by (simp add: in_use_def)
  then have "\<not> (bit ?x n \<and> bit ?m n)" for n by (metis bit_0_eq bit_and_iff bot_apply bot_bool_def)
  then have "(?x OR ?m) AND NOT ?m = ?x" by (intro bit_eqI) (auto simp: bit_or_iff bit_and_iff bit_not_iff)
  then show ?thesis using assms(1) bit_index [of b] by (simp add: unmark_def mark_def)
qed

lemma bitmap_ok_blocks:
  assumes "bitmap_ok sb0 st V" "b < unat (sb_size sb0)"
  shows "unat (BBLOCK (of_nat b) sb0) = bmap_block sb0 b" "in_fs st (BBLOCK (of_nat b) sb0)" "length (V (bmap_block sb0 b)) = BSIZE"
    "unat (of_nat b :: u32) = b" "\<not> in_use sb0 V b \<Longrightarrow> last_meta sb0 < b \<and> in_fs st (of_nat b)" "bmap_block sb0 b \<le> last_meta sb0"
proof -
  have o: "unat (sb_size sb0) < 2 ^ 31" "last_meta sb0 < unat (sb_size sb0)" "st + LOGDATA < unat (sb_bmapstart sb0)"
    using assms(1) by (auto simp: bitmap_ok_def)
  show ub: "unat (of_nat b :: u32) = b" using o(1) assms(2) by (simp add: unat_of_nat take_bit_nat_eq_self)
  show le: "bmap_block sb0 b \<le> last_meta sb0" unfolding last_meta_def by (rule bmap_block_mono) (use assms(2) in simp)
  have p: "unat (of_nat BPB :: u32) = BPB" by (simp add: BPB_pos)
  have "unat (of_nat b div of_nat BPB :: u32) = b div BPB" by (simp only: unat_div_distrib ub p)
  moreover have "b div BPB + unat (sb_bmapstart sb0) < 2 ^ 31" using le o(1,2) by (simp add: bmap_block_def)
  ultimately show bb: "unat (BBLOCK (of_nat b) sb0) = bmap_block sb0 b"
    unfolding BBLOCK_def bmap_block_def by (subst unat_add_lem [THEN iffD1]) simp_all
  show "length (V (bmap_block sb0 b)) = BSIZE" using assms by (simp add: bitmap_ok_def)
  have "unat (sb_bmapstart sb0) \<le> bmap_block sb0 b" by (simp add: bmap_block_def)
  then show "in_fs st (BBLOCK (of_nat b) sb0)" using le o bb by (simp add: in_fs_def)
  assume "\<not> in_use sb0 V b"
  then have "last_meta sb0 < b" using assms(1) by (auto simp: bitmap_ok_def not_le [symmetric])
  moreover have "unat (sb_bmapstart sb0) \<le> last_meta sb0" by (simp add: last_meta_def bmap_block_def)
  ultimately show "last_meta sb0 < b \<and> in_fs st (of_nat b)" using o assms(2) ub by (simp add: in_fs_def)
qed

text \<open>The scan of one bitmap block is a part of the scan for a free block.\<close>

lemma find_append: "find P (xs @ ys) = (case find P xs of None \<Rightarrow> find P ys | Some x \<Rightarrow> Some x)"
  by (induction xs) auto

lemma find_map: "find P (map f xs) = map_option f (find (\<lambda>x. P (f x)) xs)"
  by (induction xs) auto

lemma free_bit_find:
  "map_option (\<lambda>bi. k * BPB + bi) (free_bit (V (unat (sb_bmapstart sb0) + k)) m) = find (\<lambda>b. \<not> in_use sb0 V b) [k * BPB..<k * BPB + m]"
  if "m \<le> BPB"
proof -
  have "[k * BPB..<k * BPB + m] = map (\<lambda>bi. k * BPB + bi) [0..<m]" by (simp add: map_add_upt add.commute)
  moreover have "in_use sb0 V (k * BPB + bi) \<longleftrightarrow> V (unat (sb_bmapstart sb0) + k) ! (bi div 8) AND bit_mask bi \<noteq> 0" if "bi < m" for bi
    using that \<open>m \<le> BPB\<close> by (simp add: in_use_def bmap_block_def div_mult_self3)
  ultimately show ?thesis unfolding free_bit_def
    by (simp add: find_map) (rule arg_cong [of _ _ "map_option _"], rule find_cong, auto)
qed

section \<open>Steps of a transaction\<close>

text \<open>A step that makes the blocks look like \<open>V\<close>, logs at most \<open>j\<close> blocks more, and leaves the buffers \<open>H\<close> alone.\<close>

definition txn_step :: "nat \<Rightarrow> u32 \<Rightarrow> nat \<Rightarrow> nat set \<Rightarrow> nat \<Rightarrow> (nat \<Rightarrow> u8 list) \<Rightarrow> 'a log_scheme \<Rightarrow> (nat \<Rightarrow> u8 list) \<Rightarrow> 'a log_scheme \<Rightarrow> bool" where
  "txn_step p dv st H j V s E t \<longleftrightarrow> txn p dv st E H t \<and> fs_view E t = V \<and> same_but (- H) s t \<and> lh_count t \<le> lh_count s + j \<and> kept s t"

lemma txn_step_trans:
  assumes "txn_step p dv st H i V s E t" "txn_step p dv st H j W t F u"
  shows "txn_step p dv st H (i + j) W s F u"
  using assms kept_trans by (auto simp: txn_step_def same_but_def)

lemma txn_step_more: "txn_step p dv st H i V s E t \<Longrightarrow> i \<le> j \<Longrightarrow> txn_step p dv st H j V s E t"
  by (simp add: txn_step_def)

context cached_log
begin

text \<open>A block is read, perhaps changed, and released.\<close>

lemma open_block:
  assumes "live" "txn p dv st D H s" "unat bn < 2 ^ 31" "\<forall>b\<in>H. \<not> holds b dv bn s" "card H \<le> 1" "lh_count s < LOGDATA"
  obtains b t u where "bread e dv bn s = Inr (b, t)" "b_data (bufs t b) = fs_view D s (unat bn)"
    "brelse b t = Inr ((), u)" "txn_step p dv st H 0 (fs_view D s) s D u"
    "\<And>d. in_fs st bn \<Longrightarrow> 1 \<le> log_outstanding s \<Longrightarrow> \<exists>t' u' E. log_write b (t\<lparr>bufs := (bufs t)(b := (bufs t b)\<lparr>b_data := d\<rparr>)\<rparr>) = Inr ((), t') \<and>
       brelse b t' = Inr ((), u') \<and> txn_step p dv st H 1 ((fs_view D s)(unat bn := d)) s E u'"
proof -
  have k: "lh_count s + card H < NBUF" using assms(5,6) by (simp add: LOGDATA_def LOGSIZE_def NBUF_def)
  obtain b t where t: "bread e dv bn s = Inr (b, t)" "b \<notin> H" "txn p dv st D (insert b H) t" "holds b dv bn t"
    "b_data (bufs t b) = fs_view D s (unat bn)" "fs_view D t = fs_view D s" "same_but {b} s t" "lh_count t = lh_count s" "kept s t"
    using bread_txn [OF assms(1-4) k] by blast
  obtain u where u: "brelse b t = Inr ((), u)" "txn p dv st D (insert b H - {b}) u" "fs_view D u = fs_view D t" "same_but {} t u"
    "lh_count u = lh_count t" "kept t u"
    using brelse_txn [OF t(3) insertI1 t(4)] t(5,6) by auto
  have "txn_step p dv st H 0 (fs_view D s) s D u"
    using t(2,6-9) u(2-6) kept_trans [OF t(9) u(6)] by (auto simp: txn_step_def same_but_def)
  moreover have "\<exists>t' u' E. log_write b (t\<lparr>bufs := (bufs t)(b := (bufs t b)\<lparr>b_data := d\<rparr>)\<rparr>) = Inr ((), t') \<and>
      brelse b t' = Inr ((), u') \<and> txn_step p dv st H 1 ((fs_view D s)(unat bn := d)) s E u'" if w: "in_fs st bn" "1 \<le> log_outstanding s" for d
  proof -
    have "lh_count t < LOGDATA" "1 \<le> log_outstanding t" using t(8,9) assms(6) w(2) by (simp_all add: kept_def)
    then obtain t' u' E where m: "log_write b (t\<lparr>bufs := (bufs t)(b := (bufs t b)\<lparr>b_data := d\<rparr>)\<rparr>) = Inr ((), t')" "brelse b t' = Inr ((), u')"
      "txn p dv st E H u'" "fs_view E u' = (fs_view D t)(unat bn := d)" "same_but (- H) t u'" "lh_count u' \<le> Suc (lh_count t)" "kept t u'"
      using modify_txn [OF t(3,2,4) w(1)] by blast
    have "txn_step p dv st H 1 ((fs_view D s)(unat bn := d)) s E u'"
      using m(3-6) t(2,6-8) kept_trans [OF t(9) m(7)] by (auto simp: txn_step_def same_but_def)
    with m(1,2) show ?thesis by blast
  qed
  ultimately show thesis using that t(1,5) u(1) by blast
qed

end

section \<open>balloc and bfree\<close>

text \<open>The buffers that the caller holds are not those of the bitmap or of a free block.\<close>

definition apart :: "superblock \<Rightarrow> (nat \<Rightarrow> u8 list) \<Rightarrow> u32 \<Rightarrow> nat set \<Rightarrow> 'a vdisk_scheme \<Rightarrow> bool" where
  "apart sb0 V dv H s \<longleftrightarrow> (\<forall>c\<in>H. \<exists>bn. holds c dv bn s \<and> last_meta sb0 < unat bn \<and> in_use sb0 V (unat bn))"

lemma apart_same: "apart sb0 V dv H s \<Longrightarrow> same_but (- H) s t \<Longrightarrow> apart sb0 V dv H t"
  by (fastforce simp: apart_def same_but_def holds_def)

lemma apart_holds:
  assumes "apart sb0 V dv H s" "unat bn \<le> last_meta sb0 \<or> \<not> in_use sb0 V (unat bn)"
  shows "\<forall>b\<in>H. \<not> holds b dv bn s"
  using assms by (fastforce simp: apart_def holds_def)

lemma kept_itable: "kept s t \<Longrightarrow> sb t = sb s \<and> inodes t = inodes s"
  for s t :: "'a itable_scheme"
  by (cases s; cases t) (simp add: kept_def)

lemma bzero_update: "bzero e dev bno = log_update e dev (bno, \<lambda>_. replicate BSIZE 0)"
  by (simp add: bzero_def log_update_def)

lemma less_ceil: "j < (n + BPB - 1) div BPB \<longleftrightarrow> j * BPB < n"
  unfolding BPB_pos(2) by linarith

locale fs_blocks = cached_log e p tr live
  for e :: "'a itable_scheme env" and p :: nat and tr :: "(nat \<Rightarrow> u8 list) \<Rightarrow> 'a itable_ext log_ext \<Rightarrow> 'a itable_ext log_ext" and live :: bool
begin

lemma bzero_run:
  assumes "live" "txn p dv st D H s" "in_fs st bn" "\<forall>b\<in>H. \<not> holds b dv bn s" "card H \<le> 1" "lh_count s < LOGDATA" "1 \<le> log_outstanding s"
  shows "\<exists>t E. bzero e dv bn s = Inr ((), t) \<and> txn_step p dv st H 1 ((fs_view D s)(unat bn := replicate BSIZE 0)) s E t"
  using update_run [OF assms, of "\<lambda>_. replicate BSIZE 0"] by (auto simp: bzero_update txn_step_def)

lemma balloc_round_run:
  assumes "live" "txn p dv st D H s" "bitmap_ok sb0 st (fs_view D s)" "apart sb0 (fs_view D s) dv H s" "card H \<le> 1"
    and "lh_count s + 2 \<le> LOGDATA" "1 \<le> log_outstanding s" "k * BPB < unat (sb_size sb0)"
  defines "V \<equiv> fs_view D s"
  shows "case find (\<lambda>b. \<not> in_use sb0 V b) [k * BPB..<k * BPB + min BPB (unat (sb_size sb0) - k * BPB)] of
      None \<Rightarrow> \<exists>t. balloc_round e dv sb0 (k * BPB) s = Inr (None, t) \<and> txn_step p dv st H 0 V s D t
    | Some b \<Rightarrow> \<exists>t E. balloc_round e dv sb0 (k * BPB) s = Inr (Some (of_nat b), t) \<and>
        txn_step p dv st H 2 ((mark sb0 b V)(b := replicate BSIZE 0)) s E t"
proof -
  let ?bn = "BBLOCK (of_nat (k * BPB)) sb0" and ?m = "min BPB (unat (sb_size sb0) - k * BPB)"
  note kb = bitmap_ok_blocks [OF assms(3,8), folded V_def]
  have kk: "bmap_block sb0 (k * BPB) = unat (sb_bmapstart sb0) + k" using BPB_pos(1) by (simp add: bmap_block_def)
  have bn: "unat ?bn < 2 ^ 31" "\<forall>b\<in>H. \<not> holds b dv ?bn s" "lh_count s < LOGDATA"
    using kb(1,2,6) assms(6) apart_holds [OF assms(4)] by (auto simp: in_fs_def)
  obtain b t u where t: "bread e dv ?bn s = Inr (b, t)" "b_data (bufs t b) = V (unat ?bn)"
    "brelse b t = Inr ((), u)" "txn_step p dv st H 0 V s D u"
    "\<And>d. in_fs st ?bn \<Longrightarrow> 1 \<le> log_outstanding s \<Longrightarrow> \<exists>t' u' E. log_write b (t\<lparr>bufs := (bufs t)(b := (bufs t b)\<lparr>b_data := d\<rparr>)\<rparr>) = Inr ((), t') \<and>
       brelse b t' = Inr ((), u') \<and> txn_step p dv st H 1 (V(unat ?bn := d)) s E u'"
    using open_block [OF assms(1,2) bn(1,2) assms(5) bn(3), folded V_def] by blast
  note f = free_bit_find [of ?m k V sb0, symmetric]
  show ?thesis
  proof (cases "free_bit (V (unat (sb_bmapstart sb0) + k)) ?m")
    case None
    then have "balloc_round e dv sb0 (k * BPB) s = Inr (None, u)"
      using t(1-3) kb(1) kk by (simp add: balloc_round_def k_simps bget_field_def)
    with t(4) None f show ?thesis by auto
  next
    case (Some bi)
    let ?b = "k * BPB + bi" and ?d = "V (unat ?bn)"
    have bi: "bi < BPB" "?b < unat (sb_size sb0)" using Some by (auto simp: free_bit_def find_Some_iff)
    have fb: "find (\<lambda>b. \<not> in_use sb0 V b) [k * BPB..<k * BPB + ?m] = Some ?b" using f Some by simp
    then have nu: "\<not> in_use sb0 V ?b" by (auto simp: find_Some_iff)
    have mk: "mark sb0 ?b V = V(unat ?bn := ?d[bi div 8 := ?d ! (bi div 8) OR bit_mask bi])"
      using kb(1) kk bi(1) BPB_pos(1) by (simp add: mark_def bmap_block_def)
    obtain t' u' E where w: "log_write b (t\<lparr>bufs := (bufs t)(b := (bufs t b)\<lparr>b_data := ?d[bi div 8 := ?d ! (bi div 8) OR bit_mask bi]\<rparr>)\<rparr>) = Inr ((), t')"
      "brelse b t' = Inr ((), u')" "txn_step p dv st H 1 (mark sb0 ?b V) s E u'"
      using t(5) [OF kb(2) assms(7)] unfolding mk by blast
    note bb = bitmap_ok_blocks [OF assms(3) bi(2), folded V_def]
    have x: "txn p dv st E H u'" "fs_view E u' = mark sb0 ?b V" "lh_count u' < LOGDATA" "1 \<le> log_outstanding u'" "in_fs st (of_nat ?b)"
      using w(3) assms(6,7) bb(5) [OF nu] by (auto simp: txn_step_def kept_def)
    have "apart sb0 V dv H u'" using apart_same assms(4) w(3) unfolding V_def txn_step_def by blast
    then have "\<forall>c\<in>H. \<not> holds c dv (of_nat ?b) u'" using nu bb(4) by (intro apart_holds) auto
    then obtain v F where v: "bzero e dv (of_nat ?b) u' = Inr ((), v)" "txn_step p dv st H 1 ((mark sb0 ?b V)(?b := replicate BSIZE 0)) u' F v"
      using bzero_run [OF assms(1) x(1,5) _ assms(5) x(3,4)] bb(4) x(2) by auto
    have "balloc_round e dv sb0 (k * BPB) s = Inr (Some (of_nat ?b), v)"
      using t(1,2) w(1,2) v(1) kb(1) kk Some by (simp add: balloc_round_def k_simps bget_field_def bset_def)
    moreover have "txn_step p dv st H 2 ((mark sb0 ?b V)(?b := replicate BSIZE 0)) s F v"
      using txn_step_trans [OF w(3) v(2)] by (simp add: numeral_2_eq_2)
    ultimately show ?thesis using fb by auto
  qed
qed

lemma balloc_scan_run:
  assumes "live" "bitmap_ok sb0 st V" "card H \<le> 1" "nb = (unat (sb_size sb0) + BPB - 1) div BPB" "j \<le> nb"
    and "txn p dv st D H s" "fs_view D s = V" "apart sb0 V dv H s" "lh_count s + 2 \<le> LOGDATA" "1 \<le> log_outstanding s"
  shows "case find (\<lambda>b. \<not> in_use sb0 V b) [j * BPB..<unat (sb_size sb0)] of
      None \<Rightarrow> \<exists>t. kfind (map (\<lambda>k. k * BPB) [j..<nb]) (balloc_round e dv sb0) s = Inr (None, t) \<and> txn_step p dv st H 0 V s D t
    | Some b \<Rightarrow> \<exists>t E. kfind (map (\<lambda>k. k * BPB) [j..<nb]) (balloc_round e dv sb0) s = Inr (Some (of_nat b), t) \<and>
        txn_step p dv st H 2 ((mark sb0 b V)(b := replicate BSIZE 0)) s E t"
  using assms(5-10)
proof (induction "nb - j" arbitrary: j s)
  case 0
  then have "[j * BPB..<unat (sb_size sb0)] = []" using assms(4) less_ceil [of j "unat (sb_size sb0)"] by auto
  with 0 show ?case by (auto simp: k_simps txn_step_def same_but_def kept_def)
next
  case (Suc d)
  let ?n = "unat (sb_size sb0)" and ?P = "\<lambda>b. \<not> in_use sb0 V b" and ?m = "min BPB (unat (sb_size sb0) - j * BPB)"
  have j: "j < nb" using Suc.hyps(2) by simp
  then have jn: "j * BPB < ?n" unfolding assms(4) less_ceil .
  from j have up: "[j..<nb] = j # [Suc j..<nb]" by (simp add: upt_conv_Cons)
  have sp: "[j * BPB..<?n] = [j * BPB..<j * BPB + ?m] @ [Suc j * BPB..<?n]"
    using jn upt_add_eq_append [of "j * BPB" "Suc j * BPB" "?n - Suc j * BPB"] by (cases "BPB \<le> ?n - j * BPB") (auto simp: add.commute)
  have F: "find ?P [j * BPB..<?n] = (case find ?P [j * BPB..<j * BPB + ?m] of None \<Rightarrow> find ?P [Suc j * BPB..<?n] | Some b \<Rightarrow> Some b)"
    unfolding sp find_append ..
  note r = balloc_round_run [OF assms(1) Suc.prems(2), unfolded Suc.prems(3), OF assms(2) Suc.prems(4) assms(3) Suc.prems(5,6) jn]
  show ?case
  proof (cases "find ?P [j * BPB..<j * BPB + ?m]")
    case None
    with r obtain u where u: "balloc_round e dv sb0 (j * BPB) s = Inr (None, u)" "txn_step p dv st H 0 V s D u" by auto
    have pre: "txn p dv st D H u" "fs_view D u = V" "apart sb0 V dv H u" "lh_count u + 2 \<le> LOGDATA" "1 \<le> log_outstanding u"
      using u(2) Suc.prems(5,6) apart_same [OF Suc.prems(4)] by (auto simp: txn_step_def kept_def)
    have "d = nb - Suc j" "Suc j \<le> nb" using Suc.hyps(2) by auto
    note IH = Suc.hyps(1) [OF this pre]
    have "txn_step p dv st H i W u E t \<Longrightarrow> txn_step p dv st H i W s E t" for i W E t using txn_step_trans [OF u(2)] by simp
    then show ?thesis using IH u(1) unfolding F None up
      by (auto simp: k_simps split: option.splits) blast+
  next
    case (Some b)
    with r show ?thesis unfolding F up by (auto simp: k_simps)
  qed
qed

lemma balloc_run:
  assumes "live" "txn p dv st D H s" "bitmap_ok (sb s) st (fs_view D s)" "apart (sb s) (fs_view D s) dv H s" "card H \<le> 1"
    and "lh_count s + 2 \<le> LOGDATA" "1 \<le> log_outstanding s"
  defines "V \<equiv> fs_view D s"
  shows "case free_block (sb s) V of
      None \<Rightarrow> \<exists>t. balloc e dv s = Inr (0, t) \<and> txn_step p dv st H 0 V s D t
    | Some b \<Rightarrow> \<exists>t E. balloc e dv s = Inr (of_nat b, t) \<and> txn_step p dv st H 2 ((mark (sb s) b V)(b := replicate BSIZE 0)) s E t"
  using balloc_scan_run [OF assms(1,3,5) refl le0 assms(2) refl assms(4,6,7), folded V_def]
  by (auto simp: free_block_def balloc_def k_simps split: option.splits)

lemma bfree_run:
  assumes "live" "txn p dv st D H s" "bitmap_ok (sb s) st (fs_view D s)" "apart (sb s) (fs_view D s) dv H s" "card H \<le> 1"
    and "lh_count s + 1 \<le> LOGDATA" "1 \<le> log_outstanding s" "b < unat (sb_size (sb s))"
  defines "V \<equiv> fs_view D s"
  shows "if in_use (sb s) V b then \<exists>t E. bfree e dv (of_nat b) s = Inr ((), t) \<and> txn_step p dv st H 1 (unmark (sb s) b V) s E t
    else bfree e dv (of_nat b) s = Inl (Panic ''freeing free block'')"
proof -
  let ?bn = "BBLOCK (of_nat b) (sb s)" and ?bi = "b mod BPB"
  note bb = bitmap_ok_blocks [OF assms(3,8), folded V_def]
  have bn: "unat ?bn < 2 ^ 31" "\<forall>b\<in>H. \<not> holds b dv ?bn s" "lh_count s < LOGDATA"
    using bb(1,2,6) assms(6) apart_holds [OF assms(4)] by (auto simp: in_fs_def)
  obtain c t u where t: "bread e dv ?bn s = Inr (c, t)" "b_data (bufs t c) = V (unat ?bn)"
    "brelse c t = Inr ((), u)" "txn_step p dv st H 0 V s D u"
    "\<And>d. in_fs st ?bn \<Longrightarrow> 1 \<le> log_outstanding s \<Longrightarrow> \<exists>t' u' E. log_write c (t\<lparr>bufs := (bufs t)(c := (bufs t c)\<lparr>b_data := d\<rparr>)\<rparr>) = Inr ((), t') \<and>
       brelse c t' = Inr ((), u') \<and> txn_step p dv st H 1 (V(unat ?bn := d)) s E u'"
    using open_block [OF assms(1,2) bn(1,2) assms(5) bn(3), folded V_def] by blast
  show ?thesis
  proof (cases "in_use (sb s) V b")
    case True
    then have u: "V (unat ?bn) ! (?bi div 8) AND bit_mask ?bi \<noteq> 0" using bb(1) by (simp add: in_use_def)
    have "unmark (sb s) b V = V(unat ?bn := (V (unat ?bn))[?bi div 8 := V (unat ?bn) ! (?bi div 8) AND NOT (bit_mask ?bi)])"
      using bb(1) by (simp add: unmark_def)
    then obtain t' u' E where w: "log_write c (t\<lparr>bufs := (bufs t)(c := (bufs t c)\<lparr>b_data := (V (unat ?bn))[?bi div 8 := V (unat ?bn) ! (?bi div 8) AND NOT (bit_mask ?bi)]\<rparr>)\<rparr>) = Inr ((), t')"
      "brelse c t' = Inr ((), u')" "txn_step p dv st H 1 (unmark (sb s) b V) s E u'"
      using t(5) [OF bb(2) assms(7)] by metis
    then have "bfree e dv (of_nat b) s = Inr ((), u')"
      using t(1,2) u bb(4) by (simp add: bfree_def k_simps bget_field_def bset_def Let_def)
    with w(3) True show ?thesis by auto
  next
    case False
    then have "V (unat ?bn) ! (?bi div 8) AND bit_mask ?bi = 0" using bb(1) by (simp add: in_use_def)
    then have "bfree e dv (of_nat b) s = Inl (Panic ''freeing free block'')"
      using t(1,2) bb(4) by (simp add: bfree_def k_simps bget_field_def Let_def)
    with False show ?thesis by simp
  qed
qed

end

interpretation blocks: fs_blocks "disk_env regs dev p n" p tr "serves tr dev \<and> 1 \<le> n" for regs dev p n tr
  by unfold_locales

end
