(* ===== verification/Xv6_Files.thy ===== *)
theory Xv6_Files
  imports Xv6_Blocks
begin

unbundle bit_operations_syntax

text \<open>
  The content of files (\<^verbatim>\<open>bmap\<close>, \<^verbatim>\<open>readi\<close>, \<^verbatim>\<open>writei\<close> of \<^verbatim>\<open>fs.c\<close>): an inode describes a sequence of bytes,
  and the functions read and write that sequence.
\<close>

section \<open>The blocks of a file\<close>

text \<open>The number of block \<open>k\<close> of the file, 0 for a hole.\<close>

definition file_block :: "(nat \<Rightarrow> u8 list) \<Rightarrow> inode \<Rightarrow> nat \<Rightarrow> nat" where
  "file_block V i k = unat (if k < NDIRECT then i_addrs i k else if i_addrs i NDIRECT = 0 then 0
     else get32 (V (unat (i_addrs i NDIRECT))) (4 * (k - NDIRECT)))"

definition file_byte :: "(nat \<Rightarrow> u8 list) \<Rightarrow> inode \<Rightarrow> nat \<Rightarrow> u8" where
  "file_byte V i off = (let b = file_block V i (off div BSIZE) in if b = 0 then 0 else V b ! (off mod BSIZE))"

text \<open>The blocks that belong to the file: those of its data and the indirect block.\<close>

definition ind_block :: "inode \<Rightarrow> nat" where
  "ind_block i = unat (i_addrs i NDIRECT)"

definition file_blocks :: "(nat \<Rightarrow> u8 list) \<Rightarrow> inode \<Rightarrow> nat set" where
  "file_blocks V i = insert (ind_block i) (file_block V i ` {..<MAXFILE}) - {0}"

definition data_block :: "superblock \<Rightarrow> (nat \<Rightarrow> u8 list) \<Rightarrow> nat \<Rightarrow> bool" where
  "data_block sb0 V b \<longleftrightarrow> last_meta sb0 < b \<and> b < unat (sb_size sb0) \<and> in_use sb0 V b \<and> length (V b) = BSIZE"

definition inode_ok :: "superblock \<Rightarrow> (nat \<Rightarrow> u8 list) \<Rightarrow> inode \<Rightarrow> bool" where
  "inode_ok sb0 V i \<longleftrightarrow> (\<forall>b\<in>file_blocks V i. data_block sb0 V b) \<and>
     (\<forall>j<MAXFILE. \<forall>k<MAXFILE. file_block V i j = file_block V i k \<and> file_block V i j \<noteq> 0 \<longrightarrow> j = k) \<and>
     (\<forall>k<MAXFILE. file_block V i k \<noteq> 0 \<longrightarrow> file_block V i k \<noteq> ind_block i)"

lemma inode_okD:
  assumes "inode_ok sb0 V i"
  shows "k < MAXFILE \<Longrightarrow> file_block V i k \<noteq> 0 \<Longrightarrow> data_block sb0 V (file_block V i k)"
    "ind_block i \<noteq> 0 \<Longrightarrow> data_block sb0 V (ind_block i)"
    "j < MAXFILE \<Longrightarrow> k < MAXFILE \<Longrightarrow> file_block V i j = file_block V i k \<Longrightarrow> file_block V i j \<noteq> 0 \<Longrightarrow> j = k"
    "k < MAXFILE \<Longrightarrow> file_block V i k \<noteq> 0 \<Longrightarrow> file_block V i k \<noteq> ind_block i"
proof -
  note o = assms [unfolded inode_ok_def]
  note a = o [THEN conjunct1] and b = o [THEN conjunct2, THEN conjunct1] and c = o [THEN conjunct2, THEN conjunct2]
  show "k < MAXFILE \<Longrightarrow> file_block V i k \<noteq> 0 \<Longrightarrow> data_block sb0 V (file_block V i k)" using a by (simp add: file_blocks_def)
  show "ind_block i \<noteq> 0 \<Longrightarrow> data_block sb0 V (ind_block i)" using a by (simp add: file_blocks_def)
  show "j < MAXFILE \<Longrightarrow> k < MAXFILE \<Longrightarrow> file_block V i j = file_block V i k \<Longrightarrow> file_block V i j \<noteq> 0 \<Longrightarrow> j = k" using b by metis
  show "k < MAXFILE \<Longrightarrow> file_block V i k \<noteq> 0 \<Longrightarrow> file_block V i k \<noteq> ind_block i" using c by simp
qed

lemma ind_zero: "ind_block i = 0 \<longleftrightarrow> i_addrs i NDIRECT = 0"
  by (simp add: ind_block_def unsigned_eq_0_iff)

lemma file_block_cong:
  assumes "i_addrs i' = i_addrs i" "ind_block i \<noteq> 0 \<Longrightarrow> V' (ind_block i) = V (ind_block i)"
  shows "file_block V' i' = file_block V i"
  using assms by (auto simp: file_block_def ind_block_def [symmetric] ind_zero fun_eq_iff)

text \<open>
  A view \<open>V'\<close> and an inode \<open>i'\<close> that may have more blocks, but the same content, and that leave the other
  blocks that are in use alone.
\<close>

definition meta_block :: "superblock \<Rightarrow> nat \<Rightarrow> bool" where
  "meta_block sb0 b \<longleftrightarrow> b < unat (sb_bmapstart sb0)"

definition grown :: "superblock \<Rightarrow> nat \<Rightarrow> (nat \<Rightarrow> u8 list) \<Rightarrow> inode \<Rightarrow> (nat \<Rightarrow> u8 list) \<Rightarrow> inode \<Rightarrow> bool" where
  "grown sb0 st V i V' i' \<longleftrightarrow> bitmap_ok sb0 st V' \<and> inode_ok sb0 V' i' \<and>
     (\<forall>k<MAXFILE. file_block V i k \<noteq> 0 \<longrightarrow> file_block V' i' k = file_block V i k) \<and>
     (\<forall>off<MAXFILE * BSIZE. file_byte V' i' off = file_byte V i off) \<and>
     (\<forall>b. data_block sb0 V b \<longrightarrow> data_block sb0 V' b \<and> (b \<notin> file_blocks V i \<longrightarrow> V' b = V b \<and> b \<notin> file_blocks V' i')) \<and>
     (\<forall>b. meta_block sb0 b \<longrightarrow> V' b = V b) \<and> i' = i\<lparr>i_addrs := i_addrs i'\<rparr>"

lemma grown_refl: "bitmap_ok sb0 st V \<Longrightarrow> inode_ok sb0 V i \<Longrightarrow> grown sb0 st V i V i"
  by (simp add: grown_def)

lemma grown_trans:
  assumes "grown sb0 st V i V' i'" "grown sb0 st V' i' V'' i''"
  shows "grown sb0 st V i V'' i''"
proof -
  have k: "file_block V'' i'' k = file_block V i k" if "k < MAXFILE" "file_block V i k \<noteq> 0" for k
    using that assms unfolding grown_def by metis
  have b: "data_block sb0 V'' b \<and> (b \<notin> file_blocks V i \<longrightarrow> V'' b = V b \<and> b \<notin> file_blocks V'' i'')" if "data_block sb0 V b" for b
    using that assms unfolding grown_def by metis
  have o: "file_byte V'' i'' off = file_byte V i off" if "off < MAXFILE * BSIZE" for off
    using that assms unfolding grown_def by metis
  have m: "V'' b = V b" if "meta_block sb0 b" for b using that assms unfolding grown_def by metis
  have "i'' = i\<lparr>i_addrs := i_addrs i''\<rparr>" using assms unfolding grown_def by (metis inode.surjective inode.update_convs(10))
  then show ?thesis using k b o m assms(2) unfolding grown_def by blast
qed

section \<open>One more block\<close>

text \<open>What \<open>balloc\<close> does to the view when it finds a free block.\<close>

lemma alloc_view:
  assumes "bitmap_ok sb0 st V" "free_block sb0 V = Some b"
  defines "W \<equiv> (mark sb0 b V)(b := replicate BSIZE 0)"
  shows "0 < b" "unat (of_nat b :: u32) = b" "\<not> data_block sb0 V b" "bitmap_ok sb0 st W" "data_block sb0 W b" "W b = replicate BSIZE 0"
    "data_block sb0 V c \<Longrightarrow> W c = V c \<and> data_block sb0 W c" "meta_block sb0 c \<Longrightarrow> W c = V c"
proof -
  have b: "b < unat (sb_size sb0)" "\<not> in_use sb0 V b" using assms(2) by (auto simp: free_block_def find_Some_iff)
  note bb = bitmap_ok_blocks [OF assms(1) b(1)]
  have lm: "last_meta sb0 < b" using bb(5) [OF b(2)] by simp
  have ms: "unat (sb_bmapstart sb0) \<le> bmap_block sb0 c" for c by (simp add: bmap_block_def)
  have le: "bmap_block sb0 c \<le> last_meta sb0" if "c < unat (sb_size sb0)" for c using bitmap_ok_blocks(6) [OF assms(1) that] .
  have Wm: "W c = mark sb0 b V c" if "c \<noteq> b" for c using that by (simp add: W_def)
  have Wb: "W (bmap_block sb0 c) = mark sb0 b V (bmap_block sb0 c)" if "c < unat (sb_size sb0)" for c using le [OF that] lm Wm by simp
  have use: "in_use sb0 W c \<longleftrightarrow> c = b \<or> in_use sb0 V c" if "c < unat (sb_size sb0)" for c
    using in_use_mark [of V sb0 b c, OF bb(3)] Wb [OF that] by (simp add: in_use_def)
  have len: "length (mark sb0 b V c) = length (V c)" for c by (simp add: mark_def)
  show "0 < b" using lm by simp
  show "unat (of_nat b :: u32) = b" by (rule bb(4))
  show "\<not> data_block sb0 V b" using b(2) by (simp add: data_block_def)
  show "W b = replicate BSIZE 0" by (simp add: W_def)
  show "data_block sb0 W b" using lm b(1) use [OF b(1)] by (simp add: data_block_def W_def)
  show "bitmap_ok sb0 st W" using assms(1) use Wb len by (auto simp: bitmap_ok_def)
  show "W c = V c \<and> data_block sb0 W c" if "data_block sb0 V c"
  proof -
    have c: "last_meta sb0 < c" "c < unat (sb_size sb0)" "c \<noteq> b" using that b(2) by (auto simp: data_block_def)
    then have "W c = V c" using le [OF b(1)] Wm [of c] by (simp add: mark_def)
    then show ?thesis using that use [OF c(2)] by (simp add: data_block_def)
  qed
  show "W c = V c" if "meta_block sb0 c" using that ms [of b] ms [of "unat (sb_size sb0) - 1"] lm Wm [of c] by (auto simp: meta_block_def mark_def last_meta_def)
qed

lemma grown_add:
  assumes "inode_ok sb0 V i" "bitmap_ok sb0 st W" "\<And>c. data_block sb0 V c \<Longrightarrow> data_block sb0 W c \<and> (c \<noteq> ind_block i \<longrightarrow> W c = V c)"
    and "\<And>c. meta_block sb0 c \<Longrightarrow> W c = V c" "k < MAXFILE" "file_block V i k = 0" "0 < b" "\<not> data_block sb0 V b" "data_block sb0 W b" "W b = replicate BSIZE 0"
    and "\<And>j. j < MAXFILE \<Longrightarrow> file_block W i' j = (if j = k then b else file_block V i j)" "ind_block i' = ind_block i" "i' = i\<lparr>i_addrs := i_addrs i'\<rparr>"
  shows "grown sb0 st V i W i'"
proof -
  note ok = inode_okD [OF assms(1)]
  have fresh: "c \<noteq> b" if "data_block sb0 V c" for c using that assms(8) by auto
  have sub: "file_blocks W i' \<subseteq> insert b (file_blocks V i)" using assms(11,12) by (auto simp: file_blocks_def)
  have fb: "data_block sb0 V c" if "c \<in> file_blocks V i" for c using that assms(1) by (simp add: inode_ok_def)
  have "data_block sb0 W c" if "c \<in> file_blocks W i'" for c using that sub fb assms(3,9) by blast
  moreover have "j = l" if "j < MAXFILE" "l < MAXFILE" "file_block W i' j = file_block W i' l" "file_block W i' j \<noteq> 0" for j l
    using that assms(11) ok(1,3) fresh by (metis (full_types))
  moreover have "file_block W i' j \<noteq> ind_block i'" if "j < MAXFILE" "file_block W i' j \<noteq> 0" for j
    using that assms(7,11,12) ok(2,4) fresh by (metis (full_types) less_irrefl)
  ultimately have io: "inode_ok sb0 W i'" unfolding inode_ok_def by blast
  have "file_byte W i' off = file_byte V i off" if "off < MAXFILE * BSIZE" for off
  proof -
    have j: "off div BSIZE < MAXFILE" using that by (simp add: div_less_iff_less_mult BSIZE_def)
    have "off mod BSIZE < BSIZE" by (simp add: BSIZE_def)
    then show ?thesis using j assms(3,6,7,10,11) ok(1,4) by (auto simp: file_byte_def Let_def)
  qed
  moreover have "W c = V c \<and> c \<notin> file_blocks W i'" if "data_block sb0 V c" "c \<notin> file_blocks V i" for c
  proof -
    have "c \<noteq> 0" using that(1) by (auto simp: data_block_def)
    then have "c \<noteq> ind_block i" using that(2) by (auto simp: file_blocks_def)
    then show ?thesis using that assms(3) sub fresh by blast
  qed
  ultimately show ?thesis unfolding grown_def using io assms(2,3,4,6,11,13) by (metis (full_types))
qed

lemma grown_direct:
  assumes "bitmap_ok sb0 st V" "inode_ok sb0 V i" "free_block sb0 V = Some b" "k < NDIRECT" "i_addrs i k = 0"
  defines "W \<equiv> (mark sb0 b V)(b := replicate BSIZE 0)" and "i' \<equiv> i\<lparr>i_addrs := (i_addrs i)(k := of_nat b)\<rparr>"
  shows "grown sb0 st V i W i'" "file_block W i' k = b"
proof -
  note a = alloc_view [OF assms(1,3), folded W_def]
  have n: "ind_block i' = ind_block i" using assms(4) by (simp add: ind_block_def i'_def)
  have "W (ind_block i) = V (ind_block i)" if "ind_block i \<noteq> 0" using a(7) inode_okD(2) [OF assms(2) that] by blast
  then have f: "file_block W i' j = (if j = k then b else file_block V i j)" for j
    using assms(4) a(2) by (auto simp: file_block_def i'_def ind_block_def [symmetric] ind_zero)
  then show "file_block W i' k = b" by simp
  show "grown sb0 st V i W i'"
    by (rule grown_add [OF assms(2) a(4) _ a(8) _ _ a(1,3,5,6) f n]) (use a(7) assms(4,5) in \<open>auto simp: MAXFILE_def file_block_def i'_def\<close>)
qed

lemma get32_zero: "p + 4 \<le> n \<Longrightarrow> get32 (replicate n 0) p = 0"
  by (rule bit_word_eqI) (simp add: bit_get32 div_less_iff_less_mult)

lemma grown_ind:
  assumes "bitmap_ok sb0 st V" "inode_ok sb0 V i" "free_block sb0 V = Some b" "i_addrs i NDIRECT = 0"
  defines "W \<equiv> (mark sb0 b V)(b := replicate BSIZE 0)" and "i' \<equiv> i\<lparr>i_addrs := (i_addrs i)(NDIRECT := of_nat b)\<rparr>"
  shows "grown sb0 st V i W i'" "ind_block i' = b"
proof -
  note a = alloc_view [OF assms(1,3), folded W_def]
  note ok = inode_okD [OF assms(2)]
  show n: "ind_block i' = b" using a(2) by (simp add: ind_block_def i'_def)
  have f: "file_block W i' j = file_block V i j" if "j < MAXFILE" for j
  proof -
    have "4 * (j - NDIRECT) + 4 \<le> BSIZE" using that by (simp add: MAXFILE_def NINDIRECT_def NDIRECT_def BSIZE_def)
    then show ?thesis using assms(4) a(1,2,6) get32_zero by (simp add: file_block_def i'_def)
  qed
  have fb: "data_block sb0 V c" if "c \<in> file_blocks V i" for c using that assms(2) by (simp add: inode_ok_def)
  have fresh: "c \<noteq> b" if "data_block sb0 V c" for c using that a(3) by auto
  have bs: "file_blocks W i' = insert b (file_blocks V i)" using f n a(1) assms(4) ind_zero [of i] by (auto simp: file_blocks_def)
  have "data_block sb0 W c" if "c \<in> file_blocks W i'" for c using that fb a(5,7) unfolding bs by auto
  moreover have "file_block W i' j \<noteq> ind_block i'" if "j < MAXFILE" "file_block W i' j \<noteq> 0" for j
    using that f n ok(1) fresh by metis
  ultimately have io: "inode_ok sb0 W i'" using ok(3) f unfolding inode_ok_def by metis
  have "file_byte W i' off = file_byte V i off" if "off < MAXFILE * BSIZE" for off
  proof -
    have "off div BSIZE < MAXFILE" using that by (simp add: div_less_iff_less_mult BSIZE_def)
    then show ?thesis using f a(7) ok(1) by (auto simp: file_byte_def Let_def)
  qed
  then show "grown sb0 st V i W i'" unfolding grown_def using io a(4,7,8) f bs fresh by (auto simp: i'_def)
qed

lemma grown_entry:
  assumes "bitmap_ok sb0 st V" "inode_ok sb0 V i" "free_block sb0 V = Some b" "ind_block i \<noteq> 0" "j < NINDIRECT" "file_block V i (NDIRECT + j) = 0"
  defines "W \<equiv> (mark sb0 b V)(b := replicate BSIZE 0)"
  defines "W' \<equiv> W(ind_block i := put32 (4 * j) (of_nat b) (W (ind_block i)))"
  shows "grown sb0 st V i W' i" "file_block W' i (NDIRECT + j) = b"
proof -
  note a = alloc_view [OF assms(1,3), folded W_def]
  have d: "data_block sb0 V (ind_block i)" by (rule inode_okD(2) [OF assms(2,4)])
  then have w: "W (ind_block i) = V (ind_block i)" "length (V (ind_block i)) = BSIZE" "ind_block i \<noteq> b" "last_meta sb0 < ind_block i"
    using a(3,7) by (auto simp: data_block_def)
  have jb: "4 * l + 4 \<le> BSIZE" if "l < NINDIRECT" for l using that by (simp add: NINDIRECT_def BSIZE_def)
  have f: "file_block W' i l = (if l = NDIRECT + j then b else file_block V i l)" if "l < MAXFILE" for l
  proof (cases "l < NDIRECT")
    case False
    then have "4 * (l - NDIRECT) + 4 \<le> BSIZE" using that by (intro jb) (simp add: MAXFILE_def)
    moreover have "l \<noteq> NDIRECT + j \<Longrightarrow> 4 * (l - NDIRECT) + 4 \<le> 4 * j \<or> 4 * j + 4 \<le> 4 * (l - NDIRECT)" using False by linarith
    ultimately show ?thesis using False assms(4) a(2) w(1,2) jb [OF assms(5)] get32_put32_other [of "4 * j" "V (ind_block i)" "4 * (l - NDIRECT)" "of_nat b"]
      by (auto simp: file_block_def ind_block_def [symmetric] ind_zero [symmetric] W'_def)
  qed (simp add: file_block_def)
  show "file_block W' i (NDIRECT + j) = b" using f [of "NDIRECT + j"] assms(5) by (simp add: MAXFILE_def)
  have same: "W' c = W c" if "c \<noteq> ind_block i" for c using that by (simp add: W'_def)
  have nb: "bmap_block sb0 c \<noteq> ind_block i" if "c < unat (sb_size sb0)" for c using bitmap_ok_blocks(6) [OF assms(1) that] w(4) by simp
  have use: "in_use sb0 W' c \<longleftrightarrow> in_use sb0 W c" if "c < unat (sb_size sb0)" for c using same [OF nb [OF that]] by (simp add: in_use_def)
  have len: "length (W' c) = length (W c)" for c by (simp add: W'_def)
  have db: "data_block sb0 W' c \<longleftrightarrow> data_block sb0 W c" for c using use len by (auto simp: data_block_def)
  have ok: "bitmap_ok sb0 st W'" using a(4) use len by (auto simp: bitmap_ok_def)
  have mt: "c \<noteq> ind_block i" if "meta_block sb0 c" for c using that w(4) by (auto simp: meta_block_def last_meta_def bmap_block_def)
  show "grown sb0 st V i W' i"
    by (rule grown_add [where k = "NDIRECT + j" and b = b, OF assms(2) ok])
      (use a f db same mt w(3) assms(5,6) in \<open>auto simp: MAXFILE_def\<close>)
qed

section \<open>bmap\<close>

text \<open>A step that also makes the table of inodes \<open>I\<close>.\<close>

definition fstep :: "nat \<Rightarrow> u32 \<Rightarrow> nat \<Rightarrow> nat \<Rightarrow> (nat \<Rightarrow> u8 list) \<Rightarrow> (nat \<Rightarrow> inode) \<Rightarrow> 'a itable_scheme \<Rightarrow> (nat \<Rightarrow> u8 list) \<Rightarrow> 'a itable_scheme \<Rightarrow> bool" where
  "fstep p dv st j V I s E t \<longleftrightarrow> txn_step p dv st {} j V (s\<lparr>inodes := I\<rparr>) E t"

lemma lh_count_inodes [simp]: "lh_count (s\<lparr>inodes := I\<rparr>) = lh_count s"
  by (simp add: lh_count_def)

lemma txn_inodes [simp]: "txn p dv st D H (s\<lparr>inodes := I\<rparr>) = txn p dv st D H s"
  by (simp add: txn_def caches_def quiet_def idle_disk_def buf_ok_def holds_def pinned_def log_at_def Let_def)

lemma fs_view_inodes [simp]: "fs_view D (s\<lparr>inodes := I\<rparr>) = fs_view D s"
  by (simp add: fs_view_def)

lemma fstepD:
  assumes "fstep p dv st j V I s E t"
  shows "txn p dv st E {} t" "fs_view E t = V" "inodes t = I" "sb t = sb s" "lh_count t \<le> lh_count s + j" "log_outstanding t = log_outstanding s"
  using assms kept_itable [of "s\<lparr>inodes := I\<rparr>" t] by (auto simp: fstep_def txn_step_def kept_def)

lemma fstep_step: "txn_step p dv st {} j V s E t \<Longrightarrow> fstep p dv st j V (inodes s) s E t"
  by (simp add: fstep_def)

lemma fstep_trans:
  assumes "fstep p dv st i V I s E t" "fstep p dv st j W J t F u"
  shows "fstep p dv st (i + j) W J s F u"
proof -
  have "kept (s\<lparr>inodes := J\<rparr>) u"
    using assms by (cases s; cases t; cases u) (auto simp: fstep_def txn_step_def kept_def)
  then show ?thesis using assms by (auto simp: fstep_def txn_step_def same_but_def)
qed

lemma fstep_iset:
  assumes "fstep p dv st j V I s E t"
  shows "fstep p dv st j V J s E (t\<lparr>inodes := J\<rparr>)"
proof -
  have "kept (s\<lparr>inodes := J\<rparr>) (t\<lparr>inodes := J\<rparr>)" using assms by (cases s; cases t) (auto simp: fstep_def txn_step_def kept_def)
  then show ?thesis using assms by (auto simp: fstep_def txn_step_def same_but_def)
qed

lemma data_in_fs: "bitmap_ok sb0 st V \<Longrightarrow> data_block sb0 V (unat a) \<Longrightarrow> in_fs st a"
  by (simp add: bitmap_ok_def data_block_def in_fs_def last_meta_def bmap_block_def)

context fs_blocks
begin

lemma balloc_direct_run:
  assumes "live" "txn p dv st D {} s" "bitmap_ok (sb s) st (fs_view D s)" "inode_ok (sb s) (fs_view D s) (inodes s ip)" "i_dev (inodes s ip) = dv"
    and "lh_count s + 2 \<le> LOGDATA" "1 \<le> log_outstanding s" "k \<le> NDIRECT"
  shows "\<exists>a t E V' i'. balloc_direct e ip k s = Inr (a, t) \<and> fstep p dv st 2 V' ((inodes s)(ip := i')) s E t \<and>
    grown (sb s) st (fs_view D s) (inodes s ip) V' i' \<and> a = i_addrs i' k \<and> (a = 0 \<longrightarrow> free_block (sb s) V' = None)"
proof -
  let ?V = "fs_view D s" and ?i = "inodes s ip"
  have "apart (sb s) ?V dv {} s" by (simp add: apart_def)
  note r = balloc_run [OF assms(1-3) this _ assms(6,7)]
  have id: "(inodes s)(ip := ?i) = inodes s" by simp
  consider (old) "i_addrs ?i k \<noteq> 0" | (full) "i_addrs ?i k = 0" "free_block (sb s) ?V = None" | (new) b where "i_addrs ?i k = 0" "free_block (sb s) ?V = Some b"
    by (cases "free_block (sb s) ?V") auto
  then show ?thesis
  proof cases
    case old
    have "fstep p dv st 2 ?V (inodes s) s D s" using assms(2) by (simp add: fstep_def txn_step_def same_but_def kept_def)
    then show ?thesis using old grown_refl [OF assms(3,4)] id
      by (intro exI [of _ "i_addrs ?i k"] exI [of _ s] exI [of _ D] exI [of _ ?V] exI [of _ ?i]) (simp add: balloc_direct_def iget_field_def k_simps)
  next
    case full
    with r obtain t where t: "balloc e dv s = Inr (0, t)" "txn_step p dv st {} 0 ?V s D t" by auto
    have "fstep p dv st 2 ?V (inodes s) s D t" using fstep_step [OF txn_step_more [OF t(2)]] by simp
    then show ?thesis using full t(1) grown_refl [OF assms(3,4)] id assms(5)
      by (intro exI [of _ 0] exI [of _ t] exI [of _ D] exI [of _ ?V] exI [of _ ?i]) (simp add: balloc_direct_def iget_field_def k_simps)
  next
    case new
    let ?W = "(mark (sb s) b ?V)(b := replicate BSIZE 0)" and ?i' = "?i\<lparr>i_addrs := (i_addrs ?i)(k := of_nat b)\<rparr>"
    from new(2) r obtain t E where t: "balloc e dv s = Inr (of_nat b, t)" "txn_step p dv st {} 2 ?W s E t" by auto
    note a = alloc_view(1,2) [OF assms(3) new(2)]
    then have nz: "(of_nat b :: u32) \<noteq> 0" by (metis less_irrefl unsigned_0)
    have i: "inodes t = inodes s" using t(2) kept_itable [of s t] by (simp add: txn_step_def)
    have "fstep p dv st 2 ?W ((inodes s)(ip := ?i')) s E (t\<lparr>inodes := (inodes s)(ip := ?i')\<rparr>)" by (rule fstep_iset [OF fstep_step [OF t(2)]])
    moreover have "grown (sb s) st ?V ?i ?W ?i'"
      using grown_direct(1) [OF assms(3,4) new(2) _ new(1)] grown_ind(1) [OF assms(3,4) new(2)] new(1) assms(8) by (cases "k = NDIRECT") auto
    moreover have "balloc_direct e ip k s = Inr (of_nat b, t\<lparr>inodes := (inodes s)(ip := ?i')\<rparr>)"
      using new(1) t(1) nz i assms(5) by (simp add: balloc_direct_def iget_field_def iset_def k_simps)
    ultimately show ?thesis by (intro exI [of _ "of_nat b"] exI [of _ "t\<lparr>inodes := (inodes s)(ip := ?i')\<rparr>"] exI [of _ E] exI [of _ ?W] exI [of _ ?i']) (use nz in simp)
  qed
qed

text \<open>The indirect block stays locked while \<open>balloc\<close> runs.\<close>

lemma bmap_indirect_run:
  assumes "live" "txn p dv st D {} s" "bitmap_ok (sb s) st (fs_view D s)" "inode_ok (sb s) (fs_view D s) i" "i_addrs i NDIRECT \<noteq> 0"
    and "lh_count s + 3 \<le> LOGDATA" "1 \<le> log_outstanding s" "j < NINDIRECT"
  shows "\<exists>a t E V'. bmap_indirect e dv (i_addrs i NDIRECT) j s = Inr (a, t) \<and> txn_step p dv st {} 3 V' s E t \<and>
    grown (sb s) st (fs_view D s) i V' i \<and> unat a = file_block V' i (NDIRECT + j) \<and> (a = 0 \<longrightarrow> free_block (sb s) V' = None)"
proof -
  let ?V = "fs_view D s" and ?addr = "i_addrs i NDIRECT"
  have ib: "unat ?addr = ind_block i" "ind_block i \<noteq> 0" using assms(5) by (simp_all add: ind_block_def ind_zero [symmetric])
  have db: "data_block (sb s) ?V (unat ?addr)" using inode_okD(2) [OF assms(4) ib(2)] ib(1) by simp
  have ifs: "in_fs st ?addr" "unat ?addr < 2 ^ 31" using data_in_fs [OF assms(3) db] by (simp_all add: in_fs_def)
  have fb: "file_block ?V i (NDIRECT + j) = unat (get32 (?V (unat ?addr)) (4 * j))" using assms(5) by (simp add: file_block_def)
  obtain b t1 where t1: "bread e dv ?addr s = Inr (b, t1)" "txn p dv st D {b} t1" "holds b dv ?addr t1"
    "b_data (bufs t1 b) = ?V (unat ?addr)" "fs_view D t1 = ?V" "lh_count t1 = lh_count s" "kept s t1"
    using bread_txn [OF assms(1,2) ifs(2)] assms(6) by (auto simp: LOGDATA_def LOGSIZE_def NBUF_def)
  have s1: "sb t1 = sb s" "log_outstanding t1 = log_outstanding s" using kept_itable [OF t1(7)] t1(7) by (simp_all add: kept_def)
  have fin: "\<exists>u. brelse b t = Inr ((), u) \<and> txn_step p dv st {} n (fs_view E t) s E u"
    if "txn p dv st E {b} t" "holds b dv ?addr t" "b_data (bufs t b) = fs_view E t (unat ?addr)" "lh_count t \<le> lh_count s + n" "kept t1 t" for t E n
    using brelse_txn [OF that(1) singletonI that(2,3)] that(4) kept_trans [OF t1(7) that(5)] kept_trans
    by (fastforce simp: txn_step_def same_but_def)
  have k1: "kept t1 t1" by (simp add: kept_def)
  have ap: "apart (sb t1) (fs_view D t1) dv {b} t1" using t1(3,5) db s1(1) by (auto simp: apart_def data_block_def)
  note r = balloc_run [OF assms(1) t1(2) _ ap, unfolded t1(5,6) s1, OF assms(3) _ _ assms(7)]
  consider (old) "get32 (?V (unat ?addr)) (4 * j) \<noteq> 0" | (full) "get32 (?V (unat ?addr)) (4 * j) = 0" "free_block (sb s) ?V = None"
    | (new) c where "get32 (?V (unat ?addr)) (4 * j) = 0" "free_block (sb s) ?V = Some c"
    by (cases "free_block (sb s) ?V") auto
  then show ?thesis
  proof cases
    case old
    obtain u where u: "brelse b t1 = Inr ((), u)" "txn_step p dv st {} 3 ?V s D u"
      using fin [OF t1(2,3) _ _ k1, of 3] t1(4-6) by auto
    then show ?thesis using old t1(1,4) fb grown_refl [OF assms(3,4)]
      by (intro exI [of _ "get32 (?V (unat ?addr)) (4 * j)"] exI [of _ u] exI [of _ D] exI [of _ ?V]) (simp add: bmap_indirect_def bget_field_def k_simps)
  next
    case full
    with r obtain t2 where t2: "balloc e dv t1 = Inr (0, t2)" "txn_step p dv st {b} 0 ?V t1 D t2" using assms(6) by auto
    have "holds b dv ?addr t2" "b_data (bufs t2 b) = ?V (unat ?addr)" using t1(3,4) t2(2) by (simp_all add: txn_step_def same_but_def holds_def)
    then obtain u where u: "brelse b t2 = Inr ((), u)" "txn_step p dv st {} 3 ?V s D u"
      using fin [of D t2 3] t2(2) t1(6) by (auto simp: txn_step_def)
    then show ?thesis using full t1(1,4) t2(1) fb grown_refl [OF assms(3,4)]
      by (intro exI [of _ 0] exI [of _ u] exI [of _ D] exI [of _ ?V]) (simp add: bmap_indirect_def bget_field_def k_simps)
  next
    case new
    let ?W = "(mark (sb s) c ?V)(c := replicate BSIZE 0)"
    let ?d = "put32 (4 * j) (of_nat c) (?W (unat ?addr))"
    from new(2) r obtain t2 E where t2: "balloc e dv t1 = Inr (of_nat c, t2)" "txn_step p dv st {b} 2 ?W t1 E t2" using assms(6) by auto
    note a = alloc_view [OF assms(3) new(2)]
    have nz: "(of_nat c :: u32) \<noteq> 0" using a(1,2) by (metis less_irrefl unsigned_0)
    have h2: "holds b dv ?addr t2" "b_data (bufs t2 b) = ?W (unat ?addr)" using t1(3,4) t2(2) a(7) [OF db] by (simp_all add: txn_step_def same_but_def holds_def)
    have x2: "txn p dv st E {b} t2" "fs_view E t2 = ?W" "lh_count t2 \<le> lh_count s + 2" "kept t1 t2" "lh_count t2 < LOGDATA" "1 \<le> log_outstanding t2"
      using t2(2) t1(6) s1(2) assms(6,7) by (auto simp: txn_step_def kept_def)
    obtain t3 F where t3: "log_write b (t2\<lparr>bufs := (bufs t2)(b := (bufs t2 b)\<lparr>b_data := ?d\<rparr>)\<rparr>) = Inr ((), t3)" "txn p dv st F {b} t3"
      "fs_view F t3 = ?W(unat ?addr := ?d)" "holds b dv ?addr t3" "b_data (bufs t3 b) = ?d" "lh_count t3 \<le> Suc (lh_count t2)" "kept t2 t3"
      using write_txn [OF x2(1) singletonI h2(1) ifs(1) x2(5,6)] unfolding x2(2) by blast
    obtain u where u: "brelse b t3 = Inr ((), u)" "txn_step p dv st {} 3 (?W(unat ?addr := ?d)) s F u"
      using fin [OF t3(2,4) _ _ kept_trans [OF x2(4) t3(7)], of 3] t3(3,5,6) x2(3) by auto
    have "bmap_indirect e dv ?addr j s = Inr (of_nat c, u)"
      using new(1) t1(1,4) t2(1) h2(2) t3(1) u(1) nz by (simp add: bmap_indirect_def bget_field_def bset_def k_simps)
    moreover have "file_block ?V i (NDIRECT + j) = 0" using fb new(1) by simp
    note g = grown_entry [OF assms(3,4) new(2) ib(2) assms(8) this, folded ib(1)]
    ultimately show ?thesis using u(2) g a(2) nz by (intro exI [of _ "of_nat c"] exI [of _ u] exI [of _ F] exI [of _ "?W(unat ?addr := ?d)"]) simp
  qed
qed

lemma bmap_run:
  assumes "live" "txn p dv st D {} s" "bitmap_ok (sb s) st (fs_view D s)" "inode_ok (sb s) (fs_view D s) (inodes s ip)" "i_dev (inodes s ip) = dv"
    and "lh_count s + 5 \<le> LOGDATA" "1 \<le> log_outstanding s" "k < MAXFILE"
  shows "\<exists>a t E V' i'. bmap e ip k s = Inr (a, t) \<and> fstep p dv st 5 V' ((inodes s)(ip := i')) s E t \<and>
    grown (sb s) st (fs_view D s) (inodes s ip) V' i' \<and> unat a = file_block V' i' k \<and> (a = 0 \<longrightarrow> free_block (sb s) V' = None)"
proof -
  let ?V = "fs_view D s" and ?i = "inodes s ip"
  have le: "lh_count s + 2 \<le> LOGDATA" "(if k < NDIRECT then k else NDIRECT) \<le> NDIRECT" using assms(6) by auto
  obtain a t E V' i' where t: "balloc_direct e ip (if k < NDIRECT then k else NDIRECT) s = Inr (a, t)" "fstep p dv st 2 V' ((inodes s)(ip := i')) s E t"
    "grown (sb s) st ?V ?i V' i'" "a = i_addrs i' (if k < NDIRECT then k else NDIRECT)" "a = 0 \<longrightarrow> free_block (sb s) V' = None"
    using balloc_direct_run [OF assms(1-5) le(1) assms(7) le(2)] by blast
  note d = fstepD [OF t(2)]
  have more: "fstep p dv st 5 V' ((inodes s)(ip := i')) s E t" using t(2) by (simp add: fstep_def txn_step_def)
  have g: "bitmap_ok (sb t) st (fs_view E t)" "inode_ok (sb t) (fs_view E t) i'" "i_dev i' = dv"
    using t(3) d(2,4) assms(5) unfolding grown_def by (simp, simp, metis inode.select_convs(1) inode.surjective inode.update_convs(10))
  consider (direct) "k < NDIRECT" | (none) "\<not> k < NDIRECT" "a = 0" | (indirect) "\<not> k < NDIRECT" "a \<noteq> 0" by blast
  then show ?thesis
  proof cases
    case direct
    then show ?thesis using t more by (intro exI [of _ a] exI [of _ t] exI [of _ E] exI [of _ V'] exI [of _ i']) (simp add: bmap_def file_block_def)
  next
    case none
    then show ?thesis using t more assms(8)
      by (intro exI [of _ a] exI [of _ t] exI [of _ E] exI [of _ V'] exI [of _ i']) (simp add: bmap_def file_block_def k_simps MAXFILE_def)
  next
    case indirect
    have x: "lh_count t + 3 \<le> LOGDATA" "1 \<le> log_outstanding t" "k - NDIRECT < NINDIRECT" "i_addrs i' NDIRECT \<noteq> 0" "NDIRECT + (k - NDIRECT) = k"
      using d(5,6) assms(6-8) indirect t(4) by (auto simp: MAXFILE_def)
    obtain a' u F W where u: "bmap_indirect e dv (i_addrs i' NDIRECT) (k - NDIRECT) t = Inr (a', u)" "txn_step p dv st {} 3 W t F u"
      "grown (sb t) st (fs_view E t) i' W i'" "unat a' = file_block W i' k" "a' = 0 \<longrightarrow> free_block (sb t) W = None"
      using bmap_indirect_run [OF assms(1) d(1) g(1,2) x(4,1,2,3)] x(5) by auto
    have "fstep p dv st 5 W ((inodes s)(ip := i')) s F u" using fstep_trans [OF t(2) fstep_step [OF u(2)]] d(3) by simp
    moreover have "grown (sb s) st ?V ?i W i'" using grown_trans [OF t(3)] u(3) d(2,4) by simp
    moreover have "bmap e ip k s = Inr (a', u)"
      using indirect t(1,4) u(1) x(3) d(3) g(3) by (simp add: bmap_def k_simps iget_field_def)
    ultimately show ?thesis using u(4,5) d(4) by (intro exI [of _ a'] exI [of _ u] exI [of _ F] exI [of _ W] exI [of _ i']) simp
  qed
qed

text \<open>A block that is there is found without a change.\<close>

lemma bmap_lookup:
  assumes "live" "txn p dv st D {} s" "bitmap_ok (sb s) st (fs_view D s)" "inode_ok (sb s) (fs_view D s) (inodes s ip)" "i_dev (inodes s ip) = dv"
    and "lh_count s < LOGDATA" "k < MAXFILE" "file_block (fs_view D s) (inodes s ip) k \<noteq> 0"
  shows "\<exists>a t. bmap e ip k s = Inr (a, t) \<and> txn_step p dv st {} 0 (fs_view D s) s D t \<and> unat a = file_block (fs_view D s) (inodes s ip) k"
proof (cases "k < NDIRECT")
  case True
  have "txn_step p dv st {} 0 (fs_view D s) s D s" using assms(2) by (simp add: txn_step_def same_but_def kept_def)
  then show ?thesis using True assms(8)
    by (intro exI [of _ "i_addrs (inodes s ip) k"] exI [of _ s]) (auto simp: bmap_def balloc_direct_def iget_field_def k_simps file_block_def)
next
  case False
  let ?addr = "i_addrs (inodes s ip) NDIRECT" and ?j = "k - NDIRECT" and ?V = "fs_view D s"
  have nz: "?addr \<noteq> 0" "get32 (?V (unat ?addr)) (4 * ?j) \<noteq> 0" and fb: "file_block ?V (inodes s ip) k = unat (get32 (?V (unat ?addr)) (4 * ?j))"
    using assms(8) False by (auto simp: file_block_def split: if_splits)
  have "ind_block (inodes s ip) \<noteq> 0" using nz(1) by (simp add: ind_zero)
  then have "in_fs st ?addr" using data_in_fs [OF assms(3)] inode_okD(2) [OF assms(4)] by (simp add: ind_block_def)
  then have "unat ?addr < 2 ^ 31" by (simp add: in_fs_def)
  then obtain b t u where t: "bread e dv ?addr s = Inr (b, t)" "b_data (bufs t b) = ?V (unat ?addr)" "brelse b t = Inr ((), u)" "txn_step p dv st {} 0 ?V s D u"
    using open_block [OF assms(1,2), of ?addr] assms(6) by (metis bot_nat_0.extremum card.empty empty_iff)
  have "bmap e ip k s = Inr (get32 (?V (unat ?addr)) (4 * ?j), u)"
    using False assms(5,7) nz t(1-3) by (simp add: bmap_def balloc_direct_def bmap_indirect_def iget_field_def bget_field_def k_simps MAXFILE_def)
  then show ?thesis using t(4) fb by (intro exI [of _ "get32 (?V (unat ?addr)) (4 * ?j)"] exI [of _ u]) simp
qed

end

end
