(* ===== verification/Xv6_Mkfs.thy ===== *)
theory Xv6_Mkfs
  imports Xv6_Fs
begin

unbundle bit_operations_syntax

text \<open>
  \<^verbatim>\<open>mkfs.c\<close>, the host program that builds the file system image the kernel mounts: the
  layout, inodes, the bitmap and file content, on an image of blocks. The image is a map from
  sectors to their bytes; a sector that has not been written cannot be read. The host is little
  endian. A failing host call or assertion ends the program (\<open>Panic\<close>); the files to be copied
  are given with their content (\<open>None\<close> if they cannot be opened).
\<close>

definition NINODES :: nat where "NINODES = 200"
definition FSSIZE :: nat where "FSSIZE = 2000"
definition nbitmap :: nat where "nbitmap = FSSIZE div BPB + 1"
definition ninodeblocks :: nat where "ninodeblocks = NINODES div IPB + 1"
definition nlog :: nat where "nlog = LOGSIZE"
definition nmeta :: nat where "nmeta = 2 + nlog + ninodeblocks + nbitmap"
definition nblocks :: nat where "nblocks = FSSIZE - nmeta"

record mkfs =
  img :: "nat \<Rightarrow> u8 list option"
  freeinode :: u32
  freeblock :: u32
  msb :: superblock

section \<open>Byte order\<close>

text \<open>The bytes \<^verbatim>\<open>a[0]\<close>, \<^verbatim>\<open>a[1]\<close>, ... of the result, read as an integer.\<close>

definition xshort :: "u16 \<Rightarrow> u16" where
  "xshort x = get16 [ucast x, ucast (drop_bit 8 x)] 0"

definition xint :: "u32 \<Rightarrow> u32" where
  "xint x = get32 [ucast x, ucast (drop_bit 8 x), ucast (drop_bit 16 x), ucast (drop_bit 24 x)] 0"

section \<open>Sectors and inodes\<close>

text \<open>The byte offset of a sector is computed as a \<^verbatim>\<open>uint\<close>.\<close>

definition sector :: "u32 \<Rightarrow> nat" where
  "sector sec = unat (sec * of_nat BSIZE) div BSIZE"

definition wsect :: "u32 \<Rightarrow> u8 list \<Rightarrow> (mkfs, unit) kf" where
  "wsect sec buf = kupd (\<lambda>s. s\<lparr>img := (img s)(sector sec \<mapsto> buf)\<rparr>)"

definition rsect :: "u32 \<Rightarrow> (mkfs, u8 list) kf" where
  "rsect sec = kbind (kgets (\<lambda>s. img s (sector sec))) (\<lambda>b. case b of None \<Rightarrow> panic ''read'' | Some buf \<Rightarrow> kret buf)"

text \<open>A \<open>struct dinode\<close> is its 64 bytes.\<close>

definition winode :: "u32 \<Rightarrow> u8 list \<Rightarrow> (mkfs, unit) kf" where
  "winode inum din =
     kbind (kgets (\<lambda>s. IBLOCK inum (msb s))) (\<lambda>bn.
     kbind (rsect bn) (\<lambda>buf.
     wsect bn (take (dinode_off inum) buf @ din @ drop (dinode_off inum + 64) buf)))"

definition rinode :: "u32 \<Rightarrow> (mkfs, u8 list) kf" where
  "rinode inum =
     kbind (kgets (\<lambda>s. IBLOCK inum (msb s))) (\<lambda>bn.
     kbind (rsect bn) (\<lambda>buf.
     kret (take 64 (drop (dinode_off inum) buf))))"

definition mkfs_ialloc :: "u16 \<Rightarrow> (mkfs, u32) kf" where
  "mkfs_ialloc ty =
     kbind (kgets freeinode) (\<lambda>inum.
     kseq (kupd (\<lambda>s. s\<lparr>freeinode := freeinode s + 1\<rparr>)) (
     kseq (winode inum (put32 8 (xint 0) (put16 6 (xshort 1) (put16 0 (xshort ty) (replicate 64 0))))) (
     kret inum)))"

definition mkfs_balloc :: "nat \<Rightarrow> (mkfs, unit) kf" where
  "mkfs_balloc used =
     (if \<not> used < BPB then panic ''assert'' else
      kbind (kgets msb) (\<lambda>b.
      wsect (sb_bmapstart b)
        (fold (\<lambda>i buf. buf[i div 8 := buf ! (i div 8) OR push_bit (i mod 8) 1]) [0..<used] (replicate BSIZE 0))))"

section \<open>Appending to a file\<close>

definition take_block :: "(mkfs, u32) kf" where
  "take_block = kbind (kgets freeblock) (\<lambda>b. kseq (kupd (\<lambda>s. s\<lparr>freeblock := freeblock s + 1\<rparr>)) (kret b))"

text \<open>The block number of block \<open>fbn\<close> of the file, allocated if necessary, and the inode.\<close>

definition iappend_block :: "u8 list \<Rightarrow> nat \<Rightarrow> (mkfs, u32 \<times> u8 list) kf" where
  "iappend_block din fbn =
     (if fbn < NDIRECT then
        kbind (if xint (get32 din (12 + 4 * fbn)) = 0
          then kbind take_block (\<lambda>b. kret (put32 (12 + 4 * fbn) (xint b) din)) else kret din) (\<lambda>din.
        kret (xint (get32 din (12 + 4 * fbn)), din))
      else
        kbind (if xint (get32 din (12 + 4 * NDIRECT)) = 0
          then kbind take_block (\<lambda>b. kret (put32 (12 + 4 * NDIRECT) (xint b) din)) else kret din) (\<lambda>din.
        kbind (rsect (xint (get32 din (12 + 4 * NDIRECT)))) (\<lambda>indirect.
        kbind (if get32 indirect (4 * (fbn - NDIRECT)) = 0
          then kbind take_block (\<lambda>b.
               kseq (wsect (xint (get32 din (12 + 4 * NDIRECT))) (put32 (4 * (fbn - NDIRECT)) (xint b) indirect)) (
               kret (put32 (4 * (fbn - NDIRECT)) (xint b) indirect)))
          else kret indirect) (\<lambda>indirect.
        kret (xint (get32 indirect (4 * (fbn - NDIRECT))), din)))))"

definition iappend_round :: "u8 list \<times> nat \<times> u8 list \<Rightarrow> (mkfs, (u8 list \<times> nat \<times> u8 list) + (nat \<times> u8 list)) kf" where
  "iappend_round = (\<lambda>(p, off, din).
     if p = [] then kret (Inr (off, din)) else
     let fbn = off div BSIZE in
     if \<not> fbn < MAXFILE then panic ''assert'' else
     kbind (iappend_block din fbn) (\<lambda>(x, din).
     let n1 = min (length p) ((fbn + 1) * BSIZE - off) in
     kbind (rsect x) (\<lambda>buf.
     kseq (wsect x (take (off - fbn * BSIZE) buf @ take n1 p @ drop (off - fbn * BSIZE + n1) buf)) (
     kret (Inl (drop n1 p, off + n1, din))))))"

text \<open>Every round takes at least one byte, so one more round than bytes is enough.\<close>

definition iappend :: "u32 \<Rightarrow> u8 list \<Rightarrow> (mkfs, unit) kf" where
  "iappend inum p =
     kbind (rinode inum) (\<lambda>din.
     kbind (kloop (length p + 1) iappend_round (p, unat (xint (get32 din 8)), din)) (\<lambda>(off, din).
     winode inum (put32 8 (xint (of_nat off)) din)))"

section \<open>main\<close>

definition mkfs_sb :: superblock where
  "mkfs_sb = \<lparr>sb_magic = FSMAGIC, sb_size = xint (of_nat FSSIZE), sb_nblocks = xint (of_nat nblocks),
     sb_ninodes = xint (of_nat NINODES), sb_nlog = xint (of_nat nlog), sb_logstart = xint 2,
     sb_inodestart = xint (of_nat (2 + nlog)), sb_bmapstart = xint (of_nat (2 + nlog + ninodeblocks))\<rparr>"

text \<open>The bytes of the \<open>struct superblock\<close> at the start of a zeroed block.\<close>

definition sb_block :: "superblock \<Rightarrow> u8 list" where
  "sb_block b = put32 28 (sb_bmapstart b) (put32 24 (sb_inodestart b) (put32 20 (sb_logstart b) (put32 16 (sb_nlog b)
     (put32 12 (sb_ninodes b) (put32 8 (sb_nblocks b) (put32 4 (sb_size b) (put32 0 (sb_magic b) (replicate BSIZE 0))))))))"

definition shortname :: "u8 list \<Rightarrow> u8 list" where
  "shortname a = (let s = (if take 5 a = [117, 115, 101, 114, 47] then drop 5 a else a) in
     if s \<noteq> [] \<and> hd s = 95 then drop 1 s else s)"

definition add_entry :: "u32 \<Rightarrow> u32 \<Rightarrow> u8 list \<Rightarrow> (mkfs, unit) kf" where
  "add_entry rootino inum name = iappend rootino (mk_dirent (xshort (ucast inum)) name)"

text \<open>The pieces of at most a block in which a file is read.\<close>

function pieces :: "u8 list \<Rightarrow> u8 list list" where
  "pieces bs = (if bs = [] then [] else take BSIZE bs # pieces (drop BSIZE bs))"
  by auto
termination by (relation "measure length") (auto simp: BSIZE_def)

declare pieces.simps [simp del]

definition add_file :: "u32 \<Rightarrow> u8 list \<times> u8 list option \<Rightarrow> (mkfs, unit) kf" where
  "add_file rootino = (\<lambda>(arg, content).
     let name = (if take 5 arg = [117, 115, 101, 114, 47] then drop 5 arg else arg) in
     if slash \<in> set name then panic ''assert'' else
     case content of None \<Rightarrow> panic ''open''
     | Some bytes \<Rightarrow>
         if \<not> length (shortname arg) \<le> DIRSIZ then panic ''assert'' else
         kbind (mkfs_ialloc T_FILE) (\<lambda>inum.
         kseq (add_entry rootino inum (shortname arg)) (
         kfor (pieces bytes) (iappend inum))))"

definition mkfs_main :: "(u8 list \<times> u8 list option) list \<Rightarrow> (mkfs, unit) kf" where
  "mkfs_main files =
     kseq (kupd (\<lambda>s. s\<lparr>msb := mkfs_sb, freeblock := of_nat nmeta\<rparr>)) (
     kseq (kfor [0..<FSSIZE] (\<lambda>i. wsect (of_nat i) (replicate BSIZE 0))) (
     kseq (wsect 1 (sb_block mkfs_sb)) (
     kbind (mkfs_ialloc T_DIR) (\<lambda>rootino.
     if rootino \<noteq> ROOTINO then panic ''assert'' else
     kseq (add_entry rootino rootino [46]) (
     kseq (add_entry rootino rootino [46, 46]) (
     kseq (kfor files (add_file rootino)) (
     kbind (rinode rootino) (\<lambda>din.
     kseq (winode rootino (put32 8 (xint ((xint (get32 din 8) div of_nat BSIZE + 1) * of_nat BSIZE)) din)) (
     kbind (kgets freeblock) (\<lambda>used.
     mkfs_balloc (unat used)))))))))))"

definition mkfs_start :: mkfs where
  "mkfs_start = \<lparr>img = (\<lambda>_. None), freeinode = 1, freeblock = 0, msb = mkfs_sb\<rparr>"

end
