(* ===== verification/Xv6_Layout.thy ===== *)
theory Xv6_Layout
  imports Xv6_Mkfs
begin

unbundle bit_operations_syntax

text \<open>
  The bytes on the disk: inodes, the super block, directory entries and the bitmap as the
  kernel and \<^verbatim>\<open>mkfs\<close> write and read them, and the decomposition of path names.
\<close>

section \<open>Fields of a block\<close>

lemma put16_nth:
  "o' + 2 \<le> length bs \<Longrightarrow> i < length bs \<Longrightarrow>
   put16 o' w bs ! i = (if o' \<le> i \<and> i < o' + 2 then ucast (drop_bit (8 * (i - o')) w) else bs ! i)"
  by (auto simp: put16_def nth_list_update numeral_eq_Suc less_Suc_eq Suc_diff_le)

lemma get16_put16 [simp]: "o' + 2 \<le> length bs \<Longrightarrow> get16 (put16 o' w bs) o' = w"
proof (rule bit_word_eqI)
  fix k assume k: "k < LENGTH(16)" and "o' + 2 \<le> length bs"
  then show "bit (get16 (put16 o' w bs) o') k = bit w k"
    by (auto simp: get16_def put16_nth bit_simps not_less)
qed

lemma get_cong:
  "(\<And>i. i < 4 \<Longrightarrow> bs ! (o' + i) = cs ! (o' + i)) \<Longrightarrow> get32 bs o' = get32 cs o'"
  "(\<And>i. i < 2 \<Longrightarrow> bs ! (o' + i) = cs ! (o' + i)) \<Longrightarrow> get16 bs o' = get16 cs o'"
proof -
  assume "\<And>i. i < 4 \<Longrightarrow> bs ! (o' + i) = cs ! (o' + i)"
  then show "get32 bs o' = get32 cs o'" by (auto simp: get32_def intro!: foldr_cong)
next
  assume a: "\<And>i. i < 2 \<Longrightarrow> bs ! (o' + i) = cs ! (o' + i)"
  from a [of 0] a [of 1] show "get16 bs o' = get16 cs o'" by (simp add: get16_def)
qed

text \<open>Fields that do not overlap do not affect each other.\<close>

lemma field_other_32_16:
  assumes "p + 2 \<le> length bs" "q + 4 \<le> length bs" "q + 4 \<le> p \<or> p + 2 \<le> q"
  shows "get16 (put32 q w bs) p = get16 bs p"
  using assms by (intro get_cong) (auto simp: put32_nth)

lemma field_other_16_16:
  assumes "p + 2 \<le> length bs" "q + 2 \<le> length bs" "q + 2 \<le> p \<or> p + 2 \<le> q"
  shows "get16 (put16 q w bs) p = get16 bs p"
  using assms by (intro get_cong) (auto simp: put16_nth)

lemmas field_simps = get32_put32_other field_other_32_16 field_other_16_16

section \<open>Inodes\<close>

lemma put_addrs:
  assumes "o' + 12 + 4 * n \<le> length d"
  shows "length (fold (\<lambda>k d. put32 (o' + 12 + 4 * k) (a k) d) [0..<n] d) = length d \<and>
    (\<forall>k<n. get32 (fold (\<lambda>k d. put32 (o' + 12 + 4 * k) (a k) d) [0..<n] d) (o' + 12 + 4 * k) = a k) \<and>
    (\<forall>i<length d. i < o' + 12 \<or> o' + 12 + 4 * n \<le> i \<longrightarrow> fold (\<lambda>k d. put32 (o' + 12 + 4 * k) (a k) d) [0..<n] d ! i = d ! i)"
  using assms
proof (induction n)
  case (Suc n)
  then show ?case by (auto simp: less_Suc_eq field_simps put32_nth)
qed simp

text \<open>
  C19. What the kernel stores for an inode in its block (\<^verbatim>\<open>iupdate\<close>) is what it reads back
  from there (\<^verbatim>\<open>ilock\<close>): type, device numbers, link count, size and all 13 block addresses; and
  no byte of the block outside the inode's 64 bytes changes, so the other inodes keep their content.
\<close>

theorem dinode_roundtrip:
  assumes "o' + 64 \<le> length d"
  shows "decode_dinode o' (encode_dinode o' ip d) jp = jp\<lparr>i_type := i_type ip, i_major := i_major ip,
      i_minor := i_minor ip, i_nlink := i_nlink ip, i_size := i_size ip,
      i_addrs := (\<lambda>k. if k < NDIRECT + 1 then i_addrs ip k else i_addrs jp k)\<rparr> \<and>
    length (encode_dinode o' ip d) = length d \<and>
    (\<forall>i<length d. i < o' \<or> o' + 64 \<le> i \<longrightarrow> encode_dinode o' ip d ! i = d ! i)"
proof -
  define e where "e = put32 (o' + 8) (i_size ip) (put16 (o' + 6) (i_nlink ip) (put16 (o' + 4) (i_minor ip)
       (put16 (o' + 2) (i_major ip) (put16 o' (i_type ip) d))))"
  have le: "length e = length d" by (simp add: e_def)
  have enc: "encode_dinode o' ip d = fold (\<lambda>k d. put32 (o' + 12 + 4 * k) (i_addrs ip k) d) [0..<13] e"
    by (simp add: encode_dinode_def e_def NDIRECT_def)
  have "o' + 12 + 4 * 13 \<le> length e" using assms le by simp
  note a = put_addrs [OF this, of "i_addrs ip"]
  have low: "encode_dinode o' ip d ! i = e ! i" if "i < o' + 12 \<or> o' + 64 \<le> i" "i < length d" for i
    using a that le unfolding enc by (auto simp: add.commute [of o'])
  have "get16 (encode_dinode o' ip d) p = get16 e p" if "p + 2 \<le> o' + 12" for p
    using low that assms by (intro get_cong) auto
  moreover have "get32 (encode_dinode o' ip d) (o' + 8) = get32 e (o' + 8)"
    using low assms by (intro get_cong) auto
  moreover have "get32 (encode_dinode o' ip d) (o' + 12 + 4 * k) = i_addrs ip k" if "k < 13" for k
    using a that unfolding enc by simp
  moreover have "get16 e o' = i_type ip" "get16 e (o' + 2) = i_major ip" "get16 e (o' + 4) = i_minor ip"
    "get16 e (o' + 6) = i_nlink ip" "get32 e (o' + 8) = i_size ip"
    using assms by (simp_all add: e_def field_simps)
  ultimately have "decode_dinode o' (encode_dinode o' ip d) jp = jp\<lparr>i_type := i_type ip, i_major := i_major ip,
      i_minor := i_minor ip, i_nlink := i_nlink ip, i_size := i_size ip,
      i_addrs := (\<lambda>k. if k < NDIRECT + 1 then i_addrs ip k else i_addrs jp k)\<rparr>"
    by (simp add: decode_dinode_def NDIRECT_def cong: if_cong)
  moreover have "length (encode_dinode o' ip d) = length d" using a le unfolding enc by simp
  moreover have "\<forall>i<length d. i < o' \<or> o' + 64 \<le> i \<longrightarrow> encode_dinode o' ip d ! i = d ! i"
    using low assms by (auto simp: e_def put32_nth put16_nth)
  ultimately show ?thesis by blast
qed

definition demo_inode :: inode where
  "demo_inode = \<lparr>i_dev = 1, i_inum = 17, i_ref = 1, i_valid = 1, i_type = 2, i_major = 0,
      i_minor = 0, i_nlink = 1, i_size = 1234, i_addrs = (\<lambda>k. 50 + of_nat k)\<rparr>"

theorem dinode_roundtrip_witness:
  "i_size (decode_dinode 64 (encode_dinode 64 demo_inode (replicate 1024 0)) (demo_inode\<lparr>i_size := 0\<rparr>)) = 1234"
  using dinode_roundtrip [where o' = 64 and d = "replicate 1024 0" and jp = "demo_inode\<lparr>i_size := 0\<rparr>" and ip = demo_inode]
  by (simp add: demo_inode_def)

section \<open>The layout of the image\<close>

lemma xint_id [simp]: "xint x = x"
proof -
  have "[ucast x, ucast (drop_bit 8 x), ucast (drop_bit 16 x), ucast (drop_bit 24 x)] = put32 0 x [0, 0, 0, 0]"
    by (simp add: put32_def upt_conv_Cons numeral_eq_Suc)
  then show ?thesis by (simp add: xint_def)
qed

lemma xshort_id [simp]: "xshort x = x"
  by (rule bit_word_eqI) (auto simp: xshort_def get16_def bit_simps not_less)

lemma layout_values [simp]:
  "nmeta = 46" "nlog = 30" "ninodeblocks = 13" "nbitmap = 1" "nblocks = 1954" "IPB = 16" "BPB = 8192" "BSIZE = 1024"
  by (simp_all add: nmeta_def nlog_def ninodeblocks_def nbitmap_def nblocks_def NINODES_def FSSIZE_def LOGSIZE_def
    IPB_def BPB_def BSIZE_def MAXOPBLOCKS_def)



section \<open>The bitmap\<close>

lemma bitmap_bits:
  assumes "used \<le> 8192" "i < 8192"
  defines "d \<equiv> fold (\<lambda>i (buf :: u8 list). buf[i div 8 := buf ! (i div 8) OR push_bit (i mod 8) 1]) [0..<used] (replicate 1024 0)"
  shows "length d = 1024 \<and> (bit (d ! (i div 8)) (i mod 8) \<longleftrightarrow> i < used)"
  using assms(1) unfolding d_def
proof (induction used)
  case 0
  then show ?case using assms(2) by (simp add: div_less_iff_less_mult)
next
  case (Suc used)
  let ?d = "fold (\<lambda>i (buf :: u8 list). buf[i div 8 := buf ! (i div 8) OR push_bit (i mod 8) 1]) [0..<used] (replicate 1024 0)"
  have ih: "length ?d = 1024" "bit (?d ! (i div 8)) (i mod 8) \<longleftrightarrow> i < used" using Suc by auto
  have "i = used \<longleftrightarrow> i div 8 = used div 8 \<and> i mod 8 = used mod 8" by (metis div_mult_mod_eq)
  moreover have "i div 8 < 1024" "used div 8 < 1024" using assms(2) Suc.prems by (simp_all add: div_less_iff_less_mult)
  ultimately show ?case
    using ih by (auto simp: nth_list_update bit_simps less_Suc_eq)
qed

lemma find_first:
  assumes "\<And>i. i < n \<Longrightarrow> P i \<longleftrightarrow> used \<le> i"
  shows "find P [0..<n] = (if used < n then Some used else None)"
proof (cases "used < n")
  case True
  then have "find P [0..<n] = Some used" unfolding find_Some_iff using assms by (intro exI [of _ used]) auto
  with True show ?thesis by simp
next
  case False
  then have "find P [0..<n] = None" unfolding find_None_iff using assms by auto
  with False show ?thesis by simp
qed

text \<open>
  C20. The bitmap that \<^verbatim>\<open>mkfs\<close> writes is the one the kernel's allocator reads: the first
  \<open>used\<close> blocks are marked, so that the kernel's scan for a free bit finds block \<open>used\<close> first,
  and nothing if the file system ends before it. More than 8191 blocks stop \<^verbatim>\<open>mkfs\<close>.
\<close>

theorem mkfs_bitmap_kernel:
  "(if used < BPB
    then \<exists>t d. mkfs_balloc used s = Inr ((), t) \<and> img t (sector (sb_bmapstart (msb s))) = Some d \<and> length d = BSIZE \<and>
      free_bit d (min n BPB) = (if used < min n BPB then Some used else None)
    else mkfs_balloc used s = Inl (Panic ''assert''))"
proof (cases "used < BPB")
  case True
  let ?d = "fold (\<lambda>i (buf :: u8 list). buf[i div 8 := buf ! (i div 8) OR push_bit (i mod 8) 1]) [0..<used] (replicate 1024 0)"
  have "length ?d = 1024" "free_bit ?d (min n BPB) = (if used < min n BPB then Some used else None)"
  proof -
    have "?d ! (i div 8) AND bit_mask i = 0 \<longleftrightarrow> used \<le> i" if "i < min n BPB" for i
      using bitmap_bits [of used i] True that by (auto simp: bit_mask_def push_bit_of_1 and_exp_eq_0_iff_not_bit)
    then show "free_bit ?d (min n BPB) = (if used < min n BPB then Some used else None)"
      unfolding free_bit_def by (rule find_first)
    show "length ?d = 1024" using bitmap_bits [of used 0] True by simp
  qed
  with True show ?thesis by (simp add: mkfs_balloc_def wsect_def k_simps)
qed (simp add: mkfs_balloc_def k_simps)

section \<open>Directory entries\<close>

lemma cstr_strncpy: "cstr (ptr (strncpy t n)) n = cstr t n"
  using cstr_ptr [OF cstr_nz, of t n "n - length (cstr t n)" n] cstr_length [of t n]
  by (simp add: strncpy_cstr)

text \<open>
  C33. A directory entry holds a name and an inode number: for a name of 1 to 14 bytes without a
  zero byte, the 16 bytes that \<^verbatim>\<open>dirlink\<close> and \<^verbatim>\<open>mkfs\<close> write give back the inode number, and
  \<^verbatim>\<open>namecmp\<close> finds the entry under exactly the names that agree with it in their first 14 bytes.
\<close>

theorem dirent_roundtrip:
  assumes "0 \<notin> set name" "0 \<notin> set other"
  shows "length (mk_dirent inum name) = 16 \<and> de_inum (mk_dirent inum name) = inum \<and>
    (namecmp other (de_name (mk_dirent inum name)) = 0 \<longleftrightarrow> take DIRSIZ other = take DIRSIZ name)"
proof -
  have n: "drop 2 (mk_dirent inum name) = strncpy (ptr name) DIRSIZ" by (simp add: mk_dirent_def put16_def)
  have "namecmp other (de_name (mk_dirent inum name)) = 0 \<longleftrightarrow> cstr (ptr other) DIRSIZ = cstr (ptr name) DIRSIZ"
    unfolding namecmp_def de_name_def n strncmp_cstr by (simp add: cstr_strncpy)
  moreover have "cstr (ptr xs) m = take m xs" if "0 \<notin> set xs" for xs m
    using cstr_ptr [OF that, of 0 m] by simp
  ultimately show ?thesis using assms
    by (simp add: de_inum_def mk_dirent_def DIRSIZ_def)
qed

theorem dirent_roundtrip_witness:
  "de_inum (mk_dirent 7 [115, 104]) = 7 \<and> namecmp [115, 104] (de_name (mk_dirent 7 [115, 104])) = 0 \<and>
   namecmp [108, 115] (de_name (mk_dirent 7 [115, 104])) \<noteq> 0"
  using dirent_roundtrip [of "[115, 104]" "[115, 104]" 7] dirent_roundtrip [of "[115, 104]" "[108, 115]" 7]
  by (simp add: DIRSIZ_def)

section \<open>Path names\<close>

text \<open>The components of a path: the non-empty pieces between slashes.\<close>

fun pieces_at :: "u8 list \<Rightarrow> u8 list list" where
  "pieces_at [] = [[]]"
| "pieces_at (c # p) = (if c = slash then [] # pieces_at p else (c # hd (pieces_at p)) # tl (pieces_at p))"

definition components :: "u8 list \<Rightarrow> u8 list list" where
  "components path = filter (\<lambda>c. c \<noteq> []) (pieces_at path)"

lemma pieces_at_not_nil [simp]: "pieces_at p \<noteq> []"
  by (cases p) auto

lemma components_slashes [simp]: "components (dropWhile (\<lambda>c. c = slash) path) = components path"
  by (induction path) (auto simp: components_def)

text \<open>
  C21. \<^verbatim>\<open>skipelem\<close> takes a path apart: it gives nothing exactly when the path has no component
  left, and otherwise the first component, cut to 14 bytes, and a strictly shorter rest that has the
  remaining components and does not start with a slash. So \<^verbatim>\<open>namex\<close> visits the components of a
  path in order and its loop ends.
\<close>

theorem skipelem_components:
  "case skipelem path of
     None \<Rightarrow> components path = []
   | Some (name, rest) \<Rightarrow> \<exists>c. name = take DIRSIZ c \<and> components path = c # components rest \<and>
       length rest < length path \<and> dropWhile (\<lambda>c. c = slash) rest = rest"
proof -
  obtain p s r where p: "p = dropWhile (\<lambda>c. c = slash) path" and sr: "s = takeWhile (\<lambda>c. c \<noteq> slash) p" "r = dropWhile (\<lambda>c. c \<noteq> slash) p"
    by blast
  have sk: "skipelem path = (if p = [] then None else Some (take DIRSIZ s, dropWhile (\<lambda>c. c = slash) r))"
    unfolding skipelem_def Let_def p sr ..
  have cp: "components path = components p" unfolding p by simp
  have lp: "length p \<le> length path" unfolding p by (rule length_dropWhile_le)
  show ?thesis
  proof (cases "p = []")
    case True
    then show ?thesis unfolding sk cp by (simp add: components_def)
  next
    case False
    have "hd p \<noteq> slash" using False hd_dropWhile [of "\<lambda>c. c = slash" path] unfolding p by simp
    then have s: "p = s @ r" "s \<noteq> []" "slash \<notin> set s" "r = [] \<or> hd r = slash"
      using False hd_dropWhile [of "\<lambda>c. c \<noteq> slash" p] unfolding sr by (cases p; auto dest: set_takeWhileD)+
    have "pieces_at (s @ r) = s # (case r of [] \<Rightarrow> [] | d # r' \<Rightarrow> pieces_at r')"
      using s(3,4) by (induction s) (cases r; auto)+
    then have "components p = s # components r"
      using s(2,4) unfolding s(1) components_def by (cases r) auto
    moreover have "length (dropWhile (\<lambda>c. c = slash) r) < length path"
      using length_dropWhile_le [of "\<lambda>c. c = slash" r] s(1,2) lp by (cases s) auto
    moreover have "dropWhile (\<lambda>c. c = slash) (dropWhile (\<lambda>c. c = slash) r) = dropWhile (\<lambda>c. c = slash) r"
      by (induction r) auto
    ultimately show ?thesis using False unfolding sk cp by auto
  qed
qed

end
