(* ===== verification/Xv6_User.thy ===== *)
theory Xv6_User
  imports Xv6_Memory
begin

unbundle bit_operations_syntax

text \<open>
  User programs and their library: the system calls a program makes (\<^verbatim>\<open>user.h\<close>), as a
  record of functions on the state of the rest of the world, the outcome of a program, and
  the functions of \<^verbatim>\<open>ulib.c\<close> and \<^verbatim>\<open>printf.c\<close>.

  A \<^verbatim>\<open>char *\<close> that is only read is the string from there to the terminating zero, so that
  \<^verbatim>\<open>s++\<close> is the tail of the list and \<^verbatim>\<open>*s == 0\<close> holds of the empty one. The bytes that a
  system call stores in a buffer are part of its result.
\<close>

section \<open>Programs\<close>

text \<open>
  A program returns, exits, is replaced by \<^verbatim>\<open>exec\<close>, or has not returned within the number of
  rounds its loops were given (\<open>Stuck\<close>).
\<close>

datatype 'a outcome = Ret 'a | Exited int | Replaced | Stuck

type_synonym ('w, 'a) prog = "'w \<Rightarrow> 'a outcome \<times> 'w"

definition uret :: "'a \<Rightarrow> ('w, 'a) prog" where
  "uret x = (\<lambda>w. (Ret x, w))"

definition ubind :: "('w, 'a) prog \<Rightarrow> ('a \<Rightarrow> ('w, 'b) prog) \<Rightarrow> ('w, 'b) prog" where
  "ubind m f = (\<lambda>w. case m w of (Ret x, v) \<Rightarrow> f x v | (Exited n, v) \<Rightarrow> (Exited n, v)
     | (Replaced, v) \<Rightarrow> (Replaced, v) | (Stuck, v) \<Rightarrow> (Stuck, v))"

definition useq :: "('w, 'a) prog \<Rightarrow> ('w, 'b) prog \<Rightarrow> ('w, 'b) prog" where
  "useq m n = ubind m (\<lambda>_. n)"

definition uexit :: "int \<Rightarrow> ('w, 'a) prog" where
  "uexit n = (\<lambda>w. (Exited n, w))"

definition ustuck :: "('w, 'a) prog" where
  "ustuck = (\<lambda>w. (Stuck, w))"

definition ucall :: "('w \<Rightarrow> 'a \<times> 'w) \<Rightarrow> ('w, 'a) prog" where
  "ucall f = (\<lambda>w. case f w of (x, v) \<Rightarrow> (Ret x, v))"

definition uwhen :: "bool \<Rightarrow> ('w, unit) prog \<Rightarrow> ('w, unit) prog" where
  "uwhen b m = (if b then m else uret ())"

fun ublock :: "('w, unit) prog list \<Rightarrow> ('w, unit) prog" where
  "ublock [] = uret ()"
| "ublock (m # ms) = useq m (ublock ms)"

fun ufor :: "'i list \<Rightarrow> ('i \<Rightarrow> ('w, unit) prog) \<Rightarrow> ('w, unit) prog" where
  "ufor [] body = uret ()"
| "ufor (i # is) body = useq (body i) (ufor is body)"

fun uloop :: "nat \<Rightarrow> ('i \<Rightarrow> ('w, 'i + 'r) prog) \<Rightarrow> 'i \<Rightarrow> ('w, 'r) prog" where
  "uloop 0 body i = ustuck"
| "uloop (Suc n) body i = ubind (body i) (\<lambda>r. case r of Inl j \<Rightarrow> uloop n body j | Inr x \<Rightarrow> uret x)"

named_theorems u_simps \<open>the program combinators\<close>

lemmas [u_simps] = uret_def ubind_def useq_def uexit_def ustuck_def ucall_def uwhen_def

section \<open>System calls\<close>

record ustat =
  us_type :: int
  us_ino :: nat
  us_size :: nat

text \<open>
  \<open>u_read\<close> gives \<open>None\<close> for an error and otherwise the bytes read, \<open>u_exec\<close> false if the
  program was replaced, \<open>u_fork\<close> 0 in the child; \<open>u_wait\<close> is called with a null pointer
  throughout.
\<close>

record 'w usys =
  u_read :: "int \<Rightarrow> nat \<Rightarrow> 'w \<Rightarrow> string option \<times> 'w"
  u_write :: "int \<Rightarrow> string \<Rightarrow> 'w \<Rightarrow> int \<times> 'w"
  u_open :: "string \<Rightarrow> nat \<Rightarrow> 'w \<Rightarrow> int \<times> 'w"
  u_close :: "int \<Rightarrow> 'w \<Rightarrow> int \<times> 'w"
  u_fstat :: "int \<Rightarrow> 'w \<Rightarrow> ustat option \<times> 'w"
  u_fork :: "'w \<Rightarrow> int \<times> 'w"
  u_wait :: "'w \<Rightarrow> int \<times> 'w"
  u_exec :: "string \<Rightarrow> string list \<Rightarrow> 'w \<Rightarrow> bool \<times> 'w"
  u_pipe :: "'w \<Rightarrow> (int \<times> int) option \<times> 'w"
  u_dup :: "int \<Rightarrow> 'w \<Rightarrow> int \<times> 'w"
  u_chdir :: "string \<Rightarrow> 'w \<Rightarrow> int \<times> 'w"
  u_mknod :: "string \<Rightarrow> nat \<Rightarrow> nat \<Rightarrow> 'w \<Rightarrow> int \<times> 'w"
  u_mkdir :: "string \<Rightarrow> 'w \<Rightarrow> int \<times> 'w"
  u_link :: "string \<Rightarrow> string \<Rightarrow> 'w \<Rightarrow> int \<times> 'w"
  u_unlink :: "string \<Rightarrow> 'w \<Rightarrow> int \<times> 'w"
  u_kill :: "cint \<Rightarrow> 'w \<Rightarrow> int \<times> 'w"
  u_sleep :: "cint \<Rightarrow> 'w \<Rightarrow> int \<times> 'w"
  u_settickets :: "cint \<Rightarrow> 'w \<Rightarrow> int \<times> 'w"
  u_setsched :: "cint \<Rightarrow> 'w \<Rightarrow> int \<times> 'w"

definition uexec :: "'w usys \<Rightarrow> string \<Rightarrow> string list \<Rightarrow> ('w, unit) prog" where
  "uexec k path args = (\<lambda>w. case u_exec k path args w of (failed, v) \<Rightarrow> (if failed then Ret () else Replaced, v))"

definition nul :: char where "nul = CHR 0x00"

text \<open>The string at the start of a buffer.\<close>

definition cstring :: "string \<Rightarrow> string" where
  "cstring p = takeWhile (\<lambda>c. c \<noteq> nul) p"

lemma cstring_length: "length (cstring p) \<le> length p"
  by (simp add: cstring_def length_takeWhile_le)

section \<open>ulib.c\<close>

text \<open>The wrapper around \<^verbatim>\<open>main\<close>.\<close>

definition ustart :: "('w, unit) prog \<Rightarrow> ('w, unit) prog" where
  "ustart main = useq main (uexit 0)"

text \<open>The bytes that \<^verbatim>\<open>strcpy\<close> stores: the string and its zero.\<close>

fun strcpy :: "string \<Rightarrow> string" where
  "strcpy [] = [nul]"
| "strcpy (c # t) = c # strcpy t"

fun strcmp :: "string \<Rightarrow> string \<Rightarrow> int" where
  "strcmp (p # ps) (q # qs) = (if p = q then strcmp ps qs else of_char p - of_char q)"
| "strcmp (p # ps) [] = of_char p - of_char nul"
| "strcmp [] (q # qs) = of_char nul - of_char q"
| "strcmp [] [] = 0"

fun strlen_u :: "string \<Rightarrow> nat" where
  "strlen_u [] = 0"
| "strlen_u (c # s) = Suc (strlen_u s)"

fun strchr :: "string \<Rightarrow> char \<Rightarrow> string option" where
  "strchr [] c = None"
| "strchr (d # s) c = (if d = c then Some (d # s) else strchr s c)"

fun strncmp_u :: "string \<Rightarrow> string \<Rightarrow> nat \<Rightarrow> int" where
  "strncmp_u p q 0 = 0"
| "strncmp_u (p # ps) (q # qs) (Suc n) = (if p = q then strncmp_u ps qs n else of_char p - of_char q)"
| "strncmp_u (p # ps) [] (Suc n) = of_char p - of_char nul"
| "strncmp_u [] (q # qs) (Suc n) = of_char nul - of_char q"
| "strncmp_u [] [] (Suc n) = 0"

text \<open>The digits are added to an \<^verbatim>\<open>int\<close>, which wraps around.\<close>

fun atoi_loop :: "cint \<Rightarrow> string \<Rightarrow> cint" where
  "atoi_loop n [] = n"
| "atoi_loop n (c # s) =
     (if of_char CHR ''0'' \<le> (of_char c :: nat) \<and> of_char c \<le> (of_char CHR ''9'' :: nat)
      then atoi_loop (n * 10 + of_char c - of_char CHR ''0'') s else n)"

definition atoi :: "string \<Rightarrow> cint" where
  "atoi s = atoi_loop 0 s"

definition memset_u :: "memory \<Rightarrow> u64 \<Rightarrow> cint \<Rightarrow> nat \<Rightarrow> memory" where
  "memset_u m dst c n = fold (\<lambda>i m. m(dst + of_nat i := ucast c)) [0..<n] m"

text \<open>The two loops are those of the kernel's \<^verbatim>\<open>memmove\<close>, chosen by another test; \<^verbatim>\<open>n\<close> is an \<open>int\<close>.\<close>

fun memmove_u_up :: "memory \<Rightarrow> u64 \<Rightarrow> u64 \<Rightarrow> nat \<Rightarrow> memory" where
  "memmove_u_up m dst src 0 = m"
| "memmove_u_up m dst src (Suc n) = memmove_u_up (m(dst := m src)) (dst + 1) (src + 1) n"

fun memmove_u_down :: "memory \<Rightarrow> u64 \<Rightarrow> u64 \<Rightarrow> nat \<Rightarrow> memory" where
  "memmove_u_down m dst src 0 = m"
| "memmove_u_down m dst src (Suc n) = memmove_u_down (m(dst - 1 := m (src - 1))) (dst - 1) (src - 1) n"

definition memmove_u :: "memory \<Rightarrow> u64 \<Rightarrow> u64 \<Rightarrow> int \<Rightarrow> memory" where
  "memmove_u m vdst vsrc n =
     (if vsrc > vdst then memmove_u_up m vdst vsrc (nat n)
      else memmove_u_down m (vdst + of_int n) (vsrc + of_int n) (nat n))"

fun memcmp_u :: "bytes \<Rightarrow> bytes \<Rightarrow> nat \<Rightarrow> int" where
  "memcmp_u p1 p2 0 = 0"
| "memcmp_u p1 p2 (Suc n) =
     (if p1 0 \<noteq> p2 0 then uint (p1 0) - uint (p2 0) else memcmp_u (\<lambda>i. p1 (Suc i)) (\<lambda>i. p2 (Suc i)) n)"

definition memcpy_u :: "memory \<Rightarrow> u64 \<Rightarrow> u64 \<Rightarrow> nat \<Rightarrow> memory" where
  "memcpy_u m dst src n = memmove_u m dst src (int n)"

text \<open>\<open>gets_loop k n\<close> has room for \<open>n\<close> more bytes before the zero.\<close>

fun gets_loop :: "'w usys \<Rightarrow> nat \<Rightarrow> ('w, string) prog" where
  "gets_loop k 0 = uret []"
| "gets_loop k (Suc n) =
     ubind (ucall (u_read k 0 1)) (\<lambda>r. case r of
       None \<Rightarrow> uret []
     | Some [] \<Rightarrow> uret []
     | Some (c # _) \<Rightarrow>
         if c = CHR 0x0A \<or> c = CHR 0x0D then uret [c]
         else ubind (gets_loop k n) (\<lambda>s. uret (c # s)))"

definition gets :: "'w usys \<Rightarrow> nat \<Rightarrow> ('w, string) prog" where
  "gets k mx = ubind (gets_loop k (mx - 1)) (\<lambda>s. uret (s @ [nul]))"

definition ustat_path :: "'w usys \<Rightarrow> string \<Rightarrow> ('w, ustat option) prog" where
  "ustat_path k n =
     ubind (ucall (u_open k n 0)) (\<lambda>fd.
     if fd < 0 then uret None else
     ubind (ucall (u_fstat k fd)) (\<lambda>r.
     useq (ucall (u_close k fd)) (
     uret r)))"

section \<open>printf.c\<close>

definition digits :: string where "digits = ''0123456789ABCDEF''"

definition putc :: "'w usys \<Rightarrow> int \<Rightarrow> char \<Rightarrow> ('w, unit) prog" where
  "putc k fd c = useq (ucall (u_write k fd [c])) (uret ())"

text \<open>
  The digits of a \<^verbatim>\<open>uint\<close>, the last one first, as the loop stores them in \<^verbatim>\<open>buf\<close>; every call
  has base 10 or 16.
\<close>

function printint_digits :: "u32 \<Rightarrow> u32 \<Rightarrow> string" where
  "printint_digits base x =
     (if base \<le> 1 then [] else
      digits ! unat (x mod base) # (if x div base = 0 then [] else printint_digits base (x div base)))"
  by auto
termination
proof (relation "measure (\<lambda>(base, x). unat x)")
  fix base x :: u32 assume "\<not> base \<le> 1" "x div base \<noteq> 0"
  then have "1 < unat base" "x \<noteq> 0" by (auto simp: word_le_nat_alt)
  then show "((base, x div base), base, x) \<in> measure (\<lambda>(base, x). unat x)"
    by (simp add: unat_div unat_gt_0)
qed simp

declare printint_digits.simps [simp del]

definition printint_text :: "u64 \<Rightarrow> u32 \<Rightarrow> bool \<Rightarrow> string" where
  "printint_text xx base sg =
     (let neg = sg \<and> sint xx < 0;
          x = (if neg then ucast (- xx) else ucast xx :: u32) in
      rev (printint_digits base x @ (if neg then ''-'' else [])))"

definition printint :: "'w usys \<Rightarrow> int \<Rightarrow> u64 \<Rightarrow> u32 \<Rightarrow> bool \<Rightarrow> ('w, unit) prog" where
  "printint k fd xx base sg = ufor (printint_text xx base sg) (putc k fd)"

fun printptr_loop :: "nat \<Rightarrow> u64 \<Rightarrow> string" where
  "printptr_loop 0 x = []"
| "printptr_loop (Suc n) x = digits ! unat (drop_bit 60 x) # printptr_loop n (push_bit 4 x)"

definition printptr :: "'w usys \<Rightarrow> int \<Rightarrow> u64 \<Rightarrow> ('w, unit) prog" where
  "printptr k fd x = ublock [putc k fd CHR ''0'', putc k fd CHR ''x'', ufor (printptr_loop 16 x) (putc k fd)]"

text \<open>
  The arguments behind the format; asking for one that is missing or of the other kind is
  undefined in C.
\<close>

datatype varg = VInt u64 | VStr "string option"

text \<open>What a conversion prints, and how many characters it takes beyond its first.\<close>

datatype conv = CInt bool u32 bool | CPtr | CStr | CPercent | CUnknown

definition conversion :: "char \<Rightarrow> char \<Rightarrow> char \<Rightarrow> conv \<times> nat" where
  "conversion c0 c1 c2 =
     (if c0 = CHR ''d'' then (CInt False 10 True, 0)
      else if c0 = CHR ''l'' \<and> c1 = CHR ''d'' then (CInt True 10 True, 1)
      else if c0 = CHR ''l'' \<and> c1 = CHR ''l'' \<and> c2 = CHR ''d'' then (CInt True 10 True, 2)
      else if c0 = CHR ''u'' then (CInt False 10 False, 0)
      else if c0 = CHR ''l'' \<and> c1 = CHR ''u'' then (CInt True 10 False, 1)
      else if c0 = CHR ''l'' \<and> c1 = CHR ''l'' \<and> c2 = CHR ''u'' then (CInt True 10 False, 2)
      else if c0 = CHR ''x'' then (CInt False 16 False, 0)
      else if c0 = CHR ''l'' \<and> c1 = CHR ''x'' then (CInt True 16 False, 1)
      else if c0 = CHR ''l'' \<and> c1 = CHR ''l'' \<and> c2 = CHR ''x'' then (CInt True 16 False, 2)
      else if c0 = CHR ''p'' then (CPtr, 0)
      else if c0 = CHR ''s'' then (CStr, 0)
      else if c0 = CHR ''%'' then (CPercent, 0)
      else (CUnknown, 0))"

definition char_at :: "string \<Rightarrow> nat \<Rightarrow> char" where
  "char_at s i = (if i < length s then s ! i else nul)"

text \<open>\<^verbatim>\<open>va_arg(ap, int)\<close>, converted to \<^verbatim>\<open>long long\<close>.\<close>

definition as_int :: "u64 \<Rightarrow> u64" where
  "as_int x = scast (ucast x :: u32)"

definition emit_conv :: "'w usys \<Rightarrow> int \<Rightarrow> char \<Rightarrow> conv \<Rightarrow> varg list \<Rightarrow> ('w, varg list) prog" where
  "emit_conv k fd c0 cv ap = (case cv of
     CInt wide base sg \<Rightarrow> (case ap of VInt x # r \<Rightarrow>
         useq (printint k fd (if wide then x else as_int x) base sg) (uret r) | _ \<Rightarrow> ustuck)
   | CPtr \<Rightarrow> (case ap of VInt x # r \<Rightarrow> useq (printptr k fd x) (uret r) | _ \<Rightarrow> ustuck)
   | CStr \<Rightarrow> (case ap of VStr s # r \<Rightarrow>
         useq (ufor (case s of None \<Rightarrow> ''(null)'' | Some t \<Rightarrow> t) (putc k fd)) (uret r) | _ \<Rightarrow> ustuck)
   | CPercent \<Rightarrow> useq (putc k fd CHR ''%'') (uret ap)
   | CUnknown \<Rightarrow> useq (putc k fd CHR ''%'') (useq (putc k fd c0) (uret ap)))"

text \<open>\<open>pct\<close> is the loop's \<^verbatim>\<open>state\<close>: a per cent sign has been seen.\<close>

function vprintf_loop :: "'w usys \<Rightarrow> int \<Rightarrow> bool \<Rightarrow> string \<Rightarrow> varg list \<Rightarrow> ('w, unit) prog" where
  "vprintf_loop k fd pct [] ap = uret ()"
| "vprintf_loop k fd False (c0 # fmt) ap =
     (if c0 = CHR ''%'' then vprintf_loop k fd True fmt ap
      else useq (putc k fd c0) (vprintf_loop k fd False fmt ap))"
| "vprintf_loop k fd True (c0 # fmt) ap =
     (let c1 = char_at fmt 0; c2 = (if c1 = nul then nul else char_at fmt 1);
          (cv, more) = conversion c0 c1 c2 in
      ubind (emit_conv k fd c0 cv ap) (\<lambda>ap'. vprintf_loop k fd False (drop more fmt) ap'))"
  by pat_completeness auto
termination by (relation "measure (\<lambda>(k, fd, pct, fmt, ap). length fmt)") auto

definition vprintf :: "'w usys \<Rightarrow> int \<Rightarrow> string \<Rightarrow> varg list \<Rightarrow> ('w, unit) prog" where
  "vprintf k fd fmt ap = vprintf_loop k fd False fmt ap"

definition fprintf :: "'w usys \<Rightarrow> int \<Rightarrow> string \<Rightarrow> varg list \<Rightarrow> ('w, unit) prog" where
  "fprintf k fd fmt args = vprintf k fd fmt args"

definition printf :: "'w usys \<Rightarrow> string \<Rightarrow> varg list \<Rightarrow> ('w, unit) prog" where
  "printf k fmt args = vprintf k 1 fmt args"

section \<open>Reading back a printed number\<close>

text \<open>The value of a string of decimal digits, the last digit first.\<close>

fun dec_value :: "string \<Rightarrow> u32" where
  "dec_value [] = 0"
| "dec_value (c # s) = of_char c - of_char CHR ''0'' + 10 * dec_value s"

definition is_dec :: "char \<Rightarrow> bool" where
  "is_dec c \<longleftrightarrow> of_char CHR ''0'' \<le> (of_char c :: nat) \<and> of_char c \<le> (of_char CHR ''9'' :: nat)"

lemma atoi_loop_append:
  "\<forall>c\<in>set s. is_dec c \<Longrightarrow> atoi_loop n (s @ t) = atoi_loop (atoi_loop n s) t"
  by (induction s arbitrary: n) (auto simp: is_dec_def)

lemma atoi_loop_rev:
  "\<forall>c\<in>set s. is_dec c \<Longrightarrow> atoi_loop 0 (rev s) = dec_value s"
  by (induction s) (auto simp: atoi_loop_append is_dec_def)

lemma digits_less_10: "d < 10 \<Longrightarrow> is_dec (digits ! d) \<and> (of_char (digits ! d) - of_char CHR ''0'' :: u32) = of_nat d"
  by (auto simp: digits_def is_dec_def less_Suc_eq numeral_eq_Suc)

lemma printint_digits_10:
  "(\<forall>c\<in>set (printint_digits 10 x). is_dec c) \<and> dec_value (printint_digits 10 x) = x"
proof (induction "10 :: u32" x rule: printint_digits.induct)
  case (1 x)
  have "unat (x mod 10) < 10" by (simp add: unat_mod)
  note d = digits_less_10 [OF this]
  have "x mod 10 + 10 * (x div 10) = x" by (metis add.commute mult.commute word_mod_div_equality)
  moreover have "\<not> (10 :: u32) \<le> 1" by (simp add: word_le_nat_alt)
  ultimately show ?case using 1 d by (subst (1 2) printint_digits.simps) auto
qed

lemma atoi_stop: "rest = [] \<or> \<not> is_dec (hd rest) \<Longrightarrow> atoi_loop n rest = n"
  by (cases rest) (auto simp: is_dec_def)

lemma atoi_printed:
  assumes "rest = [] \<or> \<not> is_dec (hd rest)"
  shows "atoi (rev (printint_digits 10 x) @ rest) = x"
  using printint_digits_10 [of x] atoi_stop [OF assms] by (simp add: atoi_def atoi_loop_append atoi_loop_rev)

lemma ucast_minus_32: "(ucast (- (y::u64)) :: u32) = - ucast y"
proof -
  have "take_bit 32 (- y) = take_bit 32 (- take_bit 64 y)" for y :: int
    using take_bit_minus [of 32 y] take_bit_minus [of 32 "take_bit 64 y"] by simp
  then show ?thesis by transfer simp
qed

lemma ucast_as_int: "(ucast (as_int x) :: u32) = ucast x"
  by (rule bit_word_eqI) (simp add: as_int_def bit_simps)

lemma sint_as_int: "sint (as_int x) = sint (ucast x :: u32)"
  by (simp add: as_int_def sint_up_scast is_up_def source_size_def target_size_def word_size)

section \<open>What \<^verbatim>\<open>printf\<close> writes\<close>

text \<open>The text of a format and its arguments, if the arguments fit the format.\<close>

definition conv_text :: "char \<Rightarrow> conv \<Rightarrow> varg list \<Rightarrow> (string \<times> varg list) option" where
  "conv_text c0 cv ap = (case cv of
     CInt wide base sg \<Rightarrow> (case ap of VInt x # r \<Rightarrow> Some (printint_text (if wide then x else as_int x) base sg, r) | _ \<Rightarrow> None)
   | CPtr \<Rightarrow> (case ap of VInt x # r \<Rightarrow> Some (''0x'' @ printptr_loop 16 x, r) | _ \<Rightarrow> None)
   | CStr \<Rightarrow> (case ap of VStr s # r \<Rightarrow> Some (case s of None \<Rightarrow> ''(null)'' | Some t \<Rightarrow> t, r) | _ \<Rightarrow> None)
   | CPercent \<Rightarrow> Some (''%'', ap)
   | CUnknown \<Rightarrow> Some ([CHR ''%'', c0], ap))"

function format_text :: "bool \<Rightarrow> string \<Rightarrow> varg list \<Rightarrow> string option" where
  "format_text pct [] ap = Some []"
| "format_text False (c0 # fmt) ap =
     (if c0 = CHR ''%'' then format_text True fmt ap else map_option (\<lambda>t. c0 # t) (format_text False fmt ap))"
| "format_text True (c0 # fmt) ap =
     (let c1 = char_at fmt 0; c2 = (if c1 = nul then nul else char_at fmt 1);
          (cv, more) = conversion c0 c1 c2 in
      case conv_text c0 cv ap of None \<Rightarrow> None
      | Some (t, ap') \<Rightarrow> map_option (\<lambda>u. t @ u) (format_text False (drop more fmt) ap'))"
  by pat_completeness auto
termination by (relation "measure (\<lambda>(pct, fmt, ap). length fmt)") auto

text \<open>
  A file descriptor that takes everything that is written to it; \<open>out\<close> is what it has
  taken so far.
\<close>

definition takes_all :: "'w usys \<Rightarrow> int \<Rightarrow> ('w \<Rightarrow> string) \<Rightarrow> bool" where
  "takes_all k fd out \<longleftrightarrow> (\<forall>s w. case u_write k fd s w of (n, v) \<Rightarrow> n = int (length s) \<and> out v = out w @ s)"

definition writes :: "('w \<Rightarrow> string) \<Rightarrow> ('w, 'a) prog \<Rightarrow> 'a \<Rightarrow> string \<Rightarrow> bool" where
  "writes out m x t \<longleftrightarrow> (\<forall>w. \<exists>v. m w = (Ret x, v) \<and> out v = out w @ t)"

named_theorems writes_intros \<open>what a program writes\<close>

lemma writes_ret [writes_intros]: "writes out (uret x) x []"
  by (simp add: writes_def uret_def)

lemma writes_bind [writes_intros]:
  "writes out m x t \<Longrightarrow> writes out (f x) y u \<Longrightarrow> writes out (ubind m f) y (t @ u)"
  unfolding writes_def
proof
  fix w assume m: "\<forall>w. \<exists>v. m w = (Ret x, v) \<and> out v = out w @ t" and f: "\<forall>w. \<exists>v. f x w = (Ret y, v) \<and> out v = out w @ u"
  from m obtain v where v: "m w = (Ret x, v)" "out v = out w @ t" by blast
  from f obtain v' where "f x v = (Ret y, v')" "out v' = out v @ u" by blast
  with v show "\<exists>v. ubind m f w = (Ret y, v) \<and> out v = out w @ t @ u" by (simp add: ubind_def)
qed

lemma writes_seq [writes_intros]:
  "writes out m x t \<Longrightarrow> writes out n y u \<Longrightarrow> writes out (useq m n) y (t @ u)"
  unfolding useq_def by (rule writes_bind)

lemma writes_putc [writes_intros]: "takes_all k fd out \<Longrightarrow> writes out (putc k fd c) () [c]"
  unfolding takes_all_def writes_def putc_def
  by (auto simp: u_simps split: prod.splits dest: spec [of _ "[c]"])

lemma writes_for [writes_intros]: "takes_all k fd out \<Longrightarrow> writes out (ufor s (putc k fd)) () s"
  by (induction s) (auto intro: writes_intros dest: writes_seq [OF writes_putc])

lemma writes_conv:
  assumes k: "takes_all k fd out" and "conv_text c0 cv ap = Some (t, ap')"
  shows "writes out (emit_conv k fd c0 cv ap) ap' t"
proof -
  have seq: "writes out (useq m (uret x)) x u" if "writes out m () u" for m x u
    using writes_seq [OF that writes_ret] by simp
  have ptr: "writes out (printptr k fd x) () (CHR ''0'' # CHR ''x'' # printptr_loop 16 x)" for x
    using writes_seq [OF writes_putc [OF k, of "CHR ''0''"] writes_seq [OF writes_putc [OF k, of "CHR ''x''"]
      writes_seq [OF writes_for [OF k] writes_ret]]] by (simp add: printptr_def)
  have two: "writes out (useq (putc k fd c) (useq (putc k fd d) (uret x))) x [c, d]" for c d x
    using writes_seq [OF writes_putc [OF k, of c] writes_seq [OF writes_putc [OF k, of d] writes_ret]] by simp
  show ?thesis
    using assms(2) by (auto simp: emit_conv_def conv_text_def printint_def
      split: conv.splits list.splits varg.splits intro!: seq ptr two writes_for [OF k] writes_putc [OF k])
qed

lemma vprintf_loop_writes:
  assumes "takes_all k fd out" "format_text pct fmt ap = Some t"
  shows "writes out (vprintf_loop k fd pct fmt ap) () t"
  using assms
proof (induction k fd pct fmt ap arbitrary: t rule: vprintf_loop.induct)
  case (2 k fd c0 fmt ap)
  then show ?case using writes_seq [OF writes_putc] by (fastforce split: if_splits)
next
  case (3 k fd c0 fmt ap)
  obtain cv more where c: "conversion c0 (char_at fmt 0) (if char_at fmt 0 = nul then nul else char_at fmt 1) = (cv, more)"
    by fastforce
  with 3(3) obtain u ap' v where u: "conv_text c0 cv ap = Some (u, ap')" "format_text False (drop more fmt) ap' = Some v" "t = u @ v"
    by (auto simp: Let_def split: option.splits)
  have "writes out (vprintf_loop k fd False (drop more fmt) ap') () v"
    using 3(1) [OF refl refl c [symmetric] refl] 3(2) u(2) by simp
  then show ?case using writes_bind [OF writes_conv [OF 3(2) u(1)]] c u(3) by (simp add: Let_def)
qed (simp add: writes_ret)

lemma fprintf_writes:
  "takes_all k fd out \<Longrightarrow> format_text False fmt ap = Some t \<Longrightarrow> writes out (fprintf k fd fmt ap) () t"
  unfolding fprintf_def vprintf_def by (rule vprintf_loop_writes)

lemma printf_writes:
  "takes_all k 1 out \<Longrightarrow> format_text False fmt ap = Some t \<Longrightarrow> writes out (printf k fmt ap) () t"
  unfolding printf_def vprintf_def by (rule vprintf_loop_writes)

text \<open>
  C32. A number printed by \<^verbatim>\<open>printf("%d")\<close> is read back by \<^verbatim>\<open>atoi\<close>: to a descriptor that
  takes what is written, \<^verbatim>\<open>printf\<close> returns having written a text \<open>t\<close>; for a number that is
  not negative \<^verbatim>\<open>atoi\<close> of \<open>t\<close>, followed by anything that is not a digit, is the number,
  and for a negative one (the least \<^verbatim>\<open>int\<close> included) \<open>t\<close> is a minus sign and a text that
  \<^verbatim>\<open>atoi\<close> reads as its negation.
\<close>

theorem printf_atoi_roundtrip:
  fixes x :: cint
  assumes k: "takes_all k 1 out" and rest: "rest = [] \<or> \<not> is_dec (hd rest)"
  shows "\<exists>v t. printf k ''%d'' [VInt (ucast x)] w = (Ret (), v) \<and> out v = out w @ t \<and>
    (0 \<le> sint x \<longrightarrow> atoi (t @ rest) = x) \<and>
    (sint x < 0 \<longrightarrow> (\<exists>u. t = CHR ''-'' # u \<and> atoi (u @ rest) = - x))"
proof -
  let ?t = "printint_text (as_int (ucast x)) 10 True"
  have x: "(ucast (ucast x :: u64) :: u32) = x" by (rule bit_word_eqI) (simp add: bit_simps)
  have "format_text False ''%d'' [VInt (ucast x)] = Some ?t"
    by (simp add: conversion_def conv_text_def Let_def)
  from printf_writes [OF k this] obtain v where v: "printf k ''%d'' [VInt (ucast x)] w = (Ret (), v)" "out v = out w @ ?t"
    unfolding writes_def by blast
  have "?t = (if sint x < 0 then CHR ''-'' # rev (printint_digits 10 (- x)) else rev (printint_digits 10 x))"
    by (simp add: printint_text_def Let_def sint_as_int ucast_minus_32 ucast_as_int x)
  with v atoi_printed [OF rest] show ?thesis by (intro exI [of _ v] exI [of _ ?t]) auto
qed

text \<open>
  A descriptor that gives the bytes of \<open>inp\<close>, in pieces of any size, and nothing only at the
  end; the standard output takes everything.
\<close>

definition streams :: "'w usys \<Rightarrow> int \<Rightarrow> ('w \<Rightarrow> string) \<Rightarrow> ('w \<Rightarrow> string) \<Rightarrow> bool" where
  "streams k fd inp out \<longleftrightarrow> takes_all k 1 out \<and> (\<forall>s w. inp (snd (u_write k 1 s w)) = inp w) \<and>
     (\<forall>n w. \<exists>bs v. u_read k fd n w = (Some bs, v) \<and> out v = out w \<and> inp w = bs @ inp v \<and> length bs \<le> n \<and>
        (bs = [] \<longrightarrow> n = 0 \<or> inp w = []))"

lemma streams_read:
  assumes "streams k fd inp out" "0 < n"
  obtains bs v where "u_read k fd n w = (Some bs, v)" "out v = out w" "inp w = bs @ inp v" "length bs \<le> n"
    "bs = [] \<Longrightarrow> inp w = []"
  using assms unfolding streams_def by (metis less_numeral_extra(3))

lemma streams_write:
  assumes "streams k fd inp out"
  obtains v where "u_write k 1 s w = (int (length s), v)" "out v = out w @ s" "inp v = inp w"
  using assms unfolding streams_def takes_all_def by (metis (mono_tags, lifting) case_prod_beta prod.collapse)

text \<open>A descriptor whose output is collected in a string.\<close>

definition demo_sys :: "string usys" where
  "demo_sys = \<lparr>u_read = (\<lambda>_ _ w. (Some [], w)), u_write = (\<lambda>_ s w. (int (length s), w @ s)), u_open = (\<lambda>_ _ w. (-1, w)),
     u_close = (\<lambda>_ w. (0, w)), u_fstat = (\<lambda>_ w. (None, w)), u_fork = (\<lambda>w. (-1, w)), u_wait = (\<lambda>w. (-1, w)),
     u_exec = (\<lambda>_ _ w. (True, w)), u_pipe = (\<lambda>w. (None, w)), u_dup = (\<lambda>_ w. (-1, w)), u_chdir = (\<lambda>_ w. (-1, w)),
     u_mknod = (\<lambda>_ _ _ w. (-1, w)), u_mkdir = (\<lambda>_ w. (-1, w)), u_link = (\<lambda>_ _ w. (-1, w)), u_unlink = (\<lambda>_ w. (-1, w)),
     u_kill = (\<lambda>_ w. (-1, w)), u_sleep = (\<lambda>_ w. (0, w)), u_settickets = (\<lambda>_ w. (0, w)), u_setsched = (\<lambda>_ w. (0, w))\<rparr>"

lemma demo_sys_takes_all: "takes_all demo_sys fd (\<lambda>w. w)"
  by (simp add: takes_all_def demo_sys_def)

theorem printf_atoi_roundtrip_witness:
  "\<exists>v t. printf demo_sys ''%d'' [VInt (ucast (- 45 :: cint))] ''n = '' = (Ret (), v) \<and> v = ''n = '' @ t \<and>
    (\<exists>u. t = CHR ''-'' # u \<and> atoi (u @ '' tickets'') = 45)"
  using printf_atoi_roundtrip [OF demo_sys_takes_all, of "'' tickets''" "- 45" "''n = ''"]
  by (simp add: is_dec_def)

text \<open>Input and output of a process as a pair; a read gives at most seven bytes.\<close>

definition demo_io :: "(string \<times> string) usys" where
  "demo_io = \<lparr>u_read = (\<lambda>_ n w. (Some (take (min n 7) (fst w)), (drop (min n 7) (fst w), snd w))),
     u_write = (\<lambda>_ s w. (int (length s), (fst w, snd w @ s))), u_open = (\<lambda>_ _ w. (-1, w)),
     u_close = (\<lambda>_ w. (0, w)), u_fstat = (\<lambda>_ w. (None, w)), u_fork = (\<lambda>w. (-1, w)), u_wait = (\<lambda>w. (-1, w)),
     u_exec = (\<lambda>_ _ w. (True, w)), u_pipe = (\<lambda>w. (None, w)), u_dup = (\<lambda>_ w. (-1, w)), u_chdir = (\<lambda>_ w. (-1, w)),
     u_mknod = (\<lambda>_ _ _ w. (-1, w)), u_mkdir = (\<lambda>_ w. (-1, w)), u_link = (\<lambda>_ _ w. (-1, w)), u_unlink = (\<lambda>_ w. (-1, w)),
     u_kill = (\<lambda>_ w. (-1, w)), u_sleep = (\<lambda>_ w. (0, w)), u_settickets = (\<lambda>_ w. (0, w)), u_setsched = (\<lambda>_ w. (0, w))\<rparr>"

lemma demo_io_streams: "streams demo_io fd fst snd"
  by (auto simp: streams_def takes_all_def demo_io_def)

end
