(* ===== verification/Xv6_Grep.thy ===== *)
theory Xv6_Grep
  imports Xv6_User
begin

text \<open>
  The pattern matcher of \<^verbatim>\<open>grep.c\<close> and the program around it: the matcher decides the
  language of the pattern, and the program writes exactly the lines of its input that match.
\<close>

section \<open>grep.c\<close>

function (sequential) matchhere :: "string \<Rightarrow> string \<Rightarrow> bool" and matchstar :: "char \<Rightarrow> string \<Rightarrow> string \<Rightarrow> bool" where
  "matchhere [] tx = True"
| "matchhere (c # re) tx =
     (if re \<noteq> [] \<and> hd re = CHR ''*'' then matchstar c (tl re) tx
      else if c = CHR ''$'' \<and> re = [] then tx = []
      else if tx \<noteq> [] \<and> (c = CHR ''.'' \<or> c = hd tx) then matchhere re (tl tx)
      else False)"
| "matchstar c re tx =
     (if matchhere re tx then True
      else if tx \<noteq> [] \<and> (hd tx = c \<or> c = CHR ''.'') then matchstar c re (tl tx)
      else False)"
  by pat_completeness auto
termination
  by (relation "measure (\<lambda>x. case x of Inl (re, tx) \<Rightarrow> 2 * (length re + length tx)
      | Inr (c, re, tx) \<Rightarrow> 2 * (length re + length tx) + 1)")
    (auto simp: neq_Nil_conv)

fun match_scan :: "string \<Rightarrow> string \<Rightarrow> bool" where
  "match_scan re [] = matchhere re []"
| "match_scan re (c # tx) = (if matchhere re (c # tx) then True else match_scan re tx)"

definition match :: "string \<Rightarrow> string \<Rightarrow> bool" where
  "match re tx = (if re \<noteq> [] \<and> hd re = CHR ''^'' then matchhere (tl re) tx else match_scan re tx)"

text \<open>
  The loop over the lines in the buffer. \<open>p\<close> is what is behind \<^verbatim>\<open>p\<close> in the buffer, up to the
  \<^verbatim>\<open>m\<close> bytes read; \<^verbatim>\<open>strchr\<close> sees it up to the first zero byte. The result is what is left.
\<close>

lemma strchr_length: "strchr s c = Some q \<Longrightarrow> 0 < length q \<and> length q \<le> length s"
  by (induction s) (auto split: if_splits)

function grep_lines :: "'w usys \<Rightarrow> string \<Rightarrow> string \<Rightarrow> ('w, string) prog" where
  "grep_lines k pattern p =
     (case strchr (cstring p) CHR 0x0A of
        None \<Rightarrow> uret p
      | Some q \<Rightarrow>
         (let off = length (cstring p) - length q; line = take off p in
          useq (if match pattern line then useq (ucall (u_write k 1 (line @ [CHR 0x0A]))) (uret ()) else uret ())
            (grep_lines k pattern (drop (off + 1) p))))"
  by auto
termination
proof (relation "measure (\<lambda>(k, pattern, p). length p)")
  fix k :: "'w usys" and pattern p q off
  assume "strchr (cstring p) CHR 0x0A = Some q"
  then have "0 < length p" using strchr_length [of "cstring p" "CHR 0x0A" q] cstring_length [of p] by linarith
  then show "((k, pattern, drop (off + 1) p), k, pattern, p) \<in> measure (\<lambda>(k, pattern, p). length p)" by simp
qed simp

declare grep_lines.simps [simp del]

definition grep_round :: "'w usys \<Rightarrow> string \<Rightarrow> int \<Rightarrow> string \<Rightarrow> ('w, string + unit) prog" where
  "grep_round k pattern fd buf =
     ubind (ucall (u_read k fd (1024 - length buf - 1))) (\<lambda>r. case r of
       None \<Rightarrow> uret (Inr ())
     | Some bs \<Rightarrow> if bs = [] then uret (Inr ()) else
         ubind (grep_lines k pattern (buf @ bs)) (\<lambda>p. uret (Inl p)))"

definition grep :: "nat \<Rightarrow> 'w usys \<Rightarrow> string \<Rightarrow> int \<Rightarrow> ('w, unit) prog" where
  "grep fuel k pattern fd = uloop fuel (grep_round k pattern fd) []"

definition grep_main :: "nat \<Rightarrow> 'w usys \<Rightarrow> string list \<Rightarrow> ('w, unit) prog" where
  "grep_main fuel k argv =
     (if length argv \<le> 1 then useq (fprintf k 2 (''usage: grep pattern [file ...]'' @ [CHR 0x0A]) []) (uexit 1) else
      let pattern = argv ! 1 in
      if length argv \<le> 2 then useq (grep fuel k pattern 0) (uexit 0) else
      useq (ufor (drop 2 argv) (\<lambda>a.
        ubind (ucall (u_open k a 0)) (\<lambda>fd.
        if fd < 0 then useq (printf k (''grep: cannot open %s'' @ [CHR 0x0A]) [VStr (Some a)]) (uexit 1) else
        useq (grep fuel k pattern fd) (
        useq (ucall (u_close k fd)) (uret ())))))
      (uexit 0))"

section \<open>The language of a pattern\<close>

text \<open>
  A pattern is a sequence of single characters and starred characters, \<^verbatim>\<open>.\<close> standing for any
  character, with an optional \<^verbatim>\<open>^\<close> in front and an optional \<^verbatim>\<open>$\<close> behind.
\<close>

datatype item = One char | Star char

fun items :: "string \<Rightarrow> item list \<times> bool" where
  "items [] = ([], False)"
| "items [c] = (if c = CHR ''$'' then ([], True) else ([One c], False))"
| "items (c # d # re) =
     (if d = CHR ''*'' then (case items re of (is, e) \<Rightarrow> (Star c # is, e))
      else (case items (d # re) of (is, e) \<Rightarrow> (One c # is, e)))"

definition chars :: "char \<Rightarrow> char set" where
  "chars c = (if c = CHR ''.'' then UNIV else {c})"

fun item_lang :: "item \<Rightarrow> string set" where
  "item_lang (One c) = {[d] |d. d \<in> chars c}"
| "item_lang (Star c) = lists (chars c)"

fun lang :: "item list \<Rightarrow> string set" where
  "lang [] = {[]}"
| "lang (i # is) = {u @ v |u v. u \<in> item_lang i \<and> v \<in> lang is}"

definition prefix_match :: "item list \<times> bool \<Rightarrow> string \<Rightarrow> bool" where
  "prefix_match p tx \<longleftrightarrow> (\<exists>u v. tx = u @ v \<and> u \<in> lang (fst p) \<and> (snd p \<longrightarrow> v = []))"

lemma prefix_match_nil: "prefix_match ([], e) tx \<longleftrightarrow> (e \<longrightarrow> tx = [])"
  by (auto simp: prefix_match_def)

lemma prefix_match_Cons:
  "prefix_match (i # is, e) tx \<longleftrightarrow> (\<exists>u t. tx = u @ t \<and> u \<in> item_lang i \<and> prefix_match (is, e) t)"
proof
  assume "prefix_match (i # is, e) tx"
  then obtain u u' v where t: "tx = u @ u' @ v" "u \<in> item_lang i" "u' \<in> lang is" "e \<longrightarrow> v = []"
    unfolding prefix_match_def fst_conv snd_conv lang.simps mem_Collect_eq append_assoc [symmetric] by blast
  then have "prefix_match (is, e) (u' @ v)" unfolding prefix_match_def by auto
  with t show "\<exists>u t. tx = u @ t \<and> u \<in> item_lang i \<and> prefix_match (is, e) t" by blast
next
  assume "\<exists>u t. tx = u @ t \<and> u \<in> item_lang i \<and> prefix_match (is, e) t"
  then obtain u u' v where t: "tx = u @ u' @ v" "u \<in> item_lang i" "u' \<in> lang is" "e \<longrightarrow> v = []"
    by (auto simp: prefix_match_def)
  then have "tx = (u @ u') @ v" "u @ u' \<in> lang (i # is)" by auto
  with t(4) show "prefix_match (i # is, e) tx" unfolding prefix_match_def fst_conv snd_conv by blast
qed

lemma prefix_match_One:
  "prefix_match (One c # is, e) tx \<longleftrightarrow> tx \<noteq> [] \<and> hd tx \<in> chars c \<and> prefix_match (is, e) (tl tx)"
  unfolding prefix_match_Cons by (cases tx) (auto, metis append_Cons append_Nil)

lemma prefix_match_Star:
  "prefix_match (Star c # is, e) tx \<longleftrightarrow>
     prefix_match (is, e) tx \<or> tx \<noteq> [] \<and> hd tx \<in> chars c \<and> prefix_match (Star c # is, e) (tl tx)"
proof -
  have "(\<exists>u t. tx = u @ t \<and> u \<in> lists (chars c) \<and> prefix_match (is, e) t) \<longleftrightarrow>
      prefix_match (is, e) tx \<or>
      (\<exists>d u t. tx = d # u @ t \<and> d \<in> chars c \<and> u \<in> lists (chars c) \<and> prefix_match (is, e) t)" (is "?L \<longleftrightarrow> ?R")
  proof
    assume ?L
    then obtain u t where u: "tx = u @ t" "u \<in> lists (chars c)" "prefix_match (is, e) t" by blast
    show ?R
    proof (cases u)
      case (Cons d u') with u show ?thesis by auto
    qed (use u in simp)
  next
    assume ?R
    then show ?L
    proof
      assume "prefix_match (is, e) tx" then show ?L by (intro exI [of _ "[]"] exI [of _ tx]) simp
    next
      assume "\<exists>d u t. tx = d # u @ t \<and> d \<in> chars c \<and> u \<in> lists (chars c) \<and> prefix_match (is, e) t"
      then obtain d u t where "tx = (d # u) @ t" "d # u \<in> lists (chars c)" "prefix_match (is, e) t" by auto
      then show ?L by blast
    qed
  qed
  then show ?thesis unfolding prefix_match_Cons item_lang.simps by (cases tx) auto
qed

lemma matchhere_prefix_match:
  "matchhere re tx \<longleftrightarrow> prefix_match (items re) tx"
  and "matchstar c re tx \<longleftrightarrow> prefix_match (Star c # fst (items re), snd (items re)) tx"
proof (induction re tx and c re tx rule: matchhere_matchstar.induct)
  case (2 c re tx)
  show ?case
  proof (cases re)
    case Nil
    then show ?thesis using 2 by (auto simp: prefix_match_nil prefix_match_One chars_def)
  next
    case (Cons d re')
    show ?thesis
    proof (cases "d = CHR ''*''")
      case True
      with Cons 2 show ?thesis by (simp add: split_beta)
    next
      case False
      have "items (c # re) = (One c # fst (items re), snd (items re))" using Cons False by (simp add: split_beta)
      with Cons False 2 show ?thesis by (auto simp: prefix_match_One chars_def)
    qed
  qed
next
  case (3 c re tx)
  show ?case
    using 3 prefix_match_Star [of c "fst (items re)" "snd (items re)" tx] by (auto simp: chars_def)
qed (simp add: prefix_match_nil)

lemma match_scan_iff: "match_scan re tx \<longleftrightarrow> (\<exists>s t. tx = s @ t \<and> matchhere re t)"
proof (induction tx)
  case (Cons c tx)
  have "(\<exists>s t. c # tx = s @ t \<and> matchhere re t) \<longleftrightarrow> matchhere re (c # tx) \<or> (\<exists>s t. tx = s @ t \<and> matchhere re t)"
    by (auto simp: Cons_eq_append_conv)
  with Cons show ?case by simp
qed simp

text \<open>
  C14. \<^verbatim>\<open>match\<close> always returns and decides the language of the pattern: a pattern that
  starts with \<^verbatim>\<open>^\<close> matches a text iff the text starts with a string of the language of the
  rest, any other iff such a string starts somewhere in the text; if the pattern ends with
  \<^verbatim>\<open>$\<close> the string reaches to the end of the text.
\<close>

theorem match_language:
  "match re tx \<longleftrightarrow>
     (if re \<noteq> [] \<and> hd re = CHR ''^'' then prefix_match (items (tl re)) tx
      else (\<exists>s t. tx = s @ t \<and> prefix_match (items re) t))"
  unfolding match_def match_scan_iff matchhere_prefix_match by simp

section \<open>The lines that are written\<close>

text \<open>The complete lines of a text and what is behind the last newline.\<close>

fun lines :: "string \<Rightarrow> string list \<times> string" where
  "lines [] = ([], [])"
| "lines (c # s) = (case lines s of (ls, r) \<Rightarrow>
     if c = CHR 0x0A then ([] # ls, r)
     else case ls of [] \<Rightarrow> ([], c # r) | l # ls' \<Rightarrow> ((c # l) # ls', r))"

definition matching :: "string \<Rightarrow> string \<Rightarrow> string" where
  "matching pattern s = concat (map (\<lambda>l. l @ [CHR 0x0A]) (filter (match pattern) (fst (lines s))))"

lemma lines_no_newline: "CHR 0x0A \<notin> set l \<Longrightarrow> lines l = ([], l)"
  by (induction l) auto

lemma lines_line:
  "CHR 0x0A \<notin> set l \<Longrightarrow> lines (l @ CHR 0x0A # s) = (l # fst (lines s), snd (lines s))"
  by (induction l) (auto split: prod.splits)

lemma lines_rest: "lines (p @ bs) = (fst (lines p) @ fst (lines (snd (lines p) @ bs)), snd (lines (snd (lines p) @ bs)))"
proof (induction p rule: length_induct)
  case (1 p)
  show ?case
  proof (cases "CHR 0x0A \<in> set p")
    case True
    then obtain l s where p: "p = l @ CHR 0x0A # s" "CHR 0x0A \<notin> set l" by (meson split_list_first)
    with 1 have "lines (s @ bs) = (fst (lines s) @ fst (lines (snd (lines s) @ bs)), snd (lines (snd (lines s) @ bs)))"
      by simp
    with p show ?thesis by (simp add: lines_line)
  qed (simp add: lines_no_newline)
qed

lemma lines_sizes:
  "(\<forall>l\<in>set (fst (lines s)). length l < length s) \<and> length (snd (lines s)) \<le> length s \<and> CHR 0x0A \<notin> set (snd (lines s))"
  by (induction s) (auto split: prod.splits list.splits intro: less_SucI)

lemma lines_rest_set: "set (snd (lines s)) \<subseteq> set s"
  by (induction s) (auto split: prod.splits list.splits if_splits)

lemma strchr_find:
  "strchr s c = (if c \<in> set s then Some (dropWhile (\<lambda>d. d \<noteq> c) s) else None)"
  by (induction s) auto

lemma grep_lines_writes:
  assumes k: "streams k fd inp out" and "nul \<notin> set p"
  shows "\<exists>v. grep_lines k pattern p w = (Ret (snd (lines p)), v) \<and> out v = out w @ matching pattern p \<and> inp v = inp w"
  using assms(2)
proof (induction p arbitrary: w rule: length_induct)
  case (1 p)
  have c: "cstring p = p" using "1.prems" by (auto simp: cstring_def takeWhile_eq_all_conv)
  show ?case
  proof (cases "CHR 0x0A \<in> set p")
    case False
    then show ?thesis by (subst grep_lines.simps) (simp add: c strchr_find u_simps lines_no_newline matching_def)
  next
    case True
    then obtain l s where p: "p = l @ CHR 0x0A # s" "CHR 0x0A \<notin> set l" by (meson split_list_first)
    have q: "strchr (cstring p) CHR 0x0A = Some (CHR 0x0A # s)"
      unfolding c strchr_find unfolding p(1) using p(2) by (subst dropWhile_append2) auto
    have off: "length (cstring p) - length (CHR 0x0A # s) = length l" unfolding c using p by simp
    let ?m = "if match pattern l then useq (ucall (u_write k 1 (l @ [CHR 0x0A]))) (uret ()) else uret ()"
    have g: "grep_lines k pattern p = useq ?m (grep_lines k pattern s)"
      unfolding grep_lines.simps [of k pattern p] q option.case off Let_def by (simp add: p(1))
    obtain w' where w': "?m w = (Ret (), w')" "inp w' = inp w"
        "out w' = out w @ (if match pattern l then l @ [CHR 0x0A] else [])"
    proof (cases "match pattern l")
      case True
      obtain v where "u_write k 1 (l @ [CHR 0x0A]) w = (int (length (l @ [CHR 0x0A])), v)"
        "out v = out w @ l @ [CHR 0x0A]" "inp v = inp w" by (rule streams_write [OF k])
      with True that show ?thesis by (simp add: u_simps)
    qed (use that in \<open>simp add: u_simps\<close>)
    have "length s < length p" "nul \<notin> set s" using "1.prems" p(1) by auto
    with "1.IH" obtain v where "grep_lines k pattern s w' = (Ret (snd (lines s)), v)"
      "out v = out w' @ matching pattern s" "inp v = inp w'" by blast
    with w' g p(2) show ?thesis by (auto simp: p(1) u_simps lines_line matching_def)
  qed
qed

lemma grep_loop_writes:
  assumes k: "streams k fd inp out" and "length (inp w) < fuel" "nul \<notin> set (buf @ inp w)" "CHR 0x0A \<notin> set buf"
    "\<forall>l\<in>set (fst (lines (buf @ inp w))). length l < 1023" "length (snd (lines (buf @ inp w))) < 1023"
  shows "\<exists>v. uloop fuel (grep_round k pattern fd) buf w = (Ret (), v) \<and> out v = out w @ matching pattern (buf @ inp w)"
  using assms(2-)
proof (induction fuel arbitrary: buf w)
  case (Suc fuel)
  have "length buf < 1023"
  proof (cases "CHR 0x0A \<in> set (inp w)")
    case True
    then obtain l s where "inp w = l @ CHR 0x0A # s" "CHR 0x0A \<notin> set l" by (meson split_list_first)
    with Suc.prems(3,4) lines_line [of "buf @ l" s] show ?thesis by auto
  next
    case False
    with Suc.prems(3,5) lines_no_newline [of "buf @ inp w"] show ?thesis by simp
  qed
  then have "0 < 1024 - length buf - 1" by simp
  from streams_read [OF k this] obtain bs v where r: "u_read k fd (1024 - length buf - 1) w = (Some bs, v)"
    "out v = out w" "inp w = bs @ inp v" "bs = [] \<Longrightarrow> inp w = []" by metis
  show ?case
  proof (cases "bs = []")
    case True
    with r Suc.prems(3) show ?thesis
      by (simp add: grep_round_def u_simps matching_def lines_no_newline)
  next
    case False
    from grep_lines_writes [OF k, of "buf @ bs" pattern v] Suc.prems(2) r(3) obtain v' where v':
      "grep_lines k pattern (buf @ bs) v = (Ret (snd (lines (buf @ bs))), v')"
      "out v' = out v @ matching pattern (buf @ bs)" "inp v' = inp v" by auto
    have sub: "set (snd (lines (buf @ bs))) \<subseteq> set (buf @ bs)" by (rule lines_rest_set)
    note lr = lines_rest [of "buf @ bs" "inp v"]
    have "length (inp v) < fuel" "nul \<notin> set (snd (lines (buf @ bs)))"
      using Suc.prems(1,2) False r(3) sub by (auto simp: neq_Nil_conv)
    with Suc.IH [of v' "snd (lines (buf @ bs))"] Suc.prems r(3) v'(3) lr lines_sizes [of "buf @ bs"]
    obtain v'' where "uloop fuel (grep_round k pattern fd) (snd (lines (buf @ bs))) v' = (Ret (), v'')"
      "out v'' = out v' @ matching pattern (snd (lines (buf @ bs)) @ inp v)" by auto
    moreover have "matching pattern (buf @ inp w) =
        matching pattern (buf @ bs) @ matching pattern (snd (lines (buf @ bs)) @ inp v)"
      using lr r(3) by (simp add: matching_def)
    moreover have "grep_round k pattern fd buf w = (Ret (Inl (snd (lines (buf @ bs)))), v')"
      using r(1) v'(1) False by (simp add: grep_round_def u_simps)
    ultimately show ?thesis using r(2) v'(2) by (simp add: u_simps)
  qed
qed simp

text \<open>
  C17. \<^verbatim>\<open>grep\<close> writes exactly the lines of its input that match the pattern, in order:
  if the input has no zero byte and no line of 1023 bytes or more, then however the reads cut it
  into pieces, the program returns after at most one round per byte and has written each
  matching line with its newline and nothing else; what is behind the last newline is not
  looked at.
\<close>

theorem grep_writes_matching_lines:
  assumes k: "streams k fd inp out" and "nul \<notin> set (inp w)"
    and short: "\<forall>l\<in>set (fst (lines (inp w))). length l < 1023" "length (snd (lines (inp w))) < 1023"
  shows "\<exists>v. grep (Suc (length (inp w))) k pattern fd w = (Ret (), v) \<and> out v = out w @ matching pattern (inp w)"
  using grep_loop_writes [OF k, of w "Suc (length (inp w))" "[]" pattern] assms by (simp add: grep_def)

definition demo_text :: string where
  "demo_text = ''init'' @ [CHR 0x0A] @ ''sh 1'' @ [CHR 0x0A] @ ''lotterytest'' @ [CHR 0x0A] @ ''ls''"

theorem grep_writes_matching_lines_witness:
  "\<exists>v. grep (Suc (length demo_text)) demo_io ''^.*t'' 0 (demo_text, []) = (Ret (), v) \<and>
     snd v = ''init'' @ [CHR 0x0A] @ ''lotterytest'' @ [CHR 0x0A]"
proof -
  have "matching ''^.*t'' demo_text = ''init'' @ [CHR 0x0A] @ ''lotterytest'' @ [CHR 0x0A]"
    "nul \<notin> set demo_text" "\<forall>l\<in>set (fst (lines demo_text)). length l < 1023" "length (snd (lines demo_text)) < 1023"
    by (simp_all add: matching_def demo_text_def match_def nul_def)
  then show ?thesis
    using grep_writes_matching_lines [OF demo_io_streams, of "(demo_text, [])" "''^.*t''" 0] by auto
qed

end
