(* ===== verification/Xv6_Sh.thy ===== *)
theory Xv6_Sh
  imports Xv6_User "HOL-Library.Sublist"
begin

text \<open>
  The shell, \<^verbatim>\<open>sh.c\<close>: the parser of command lines, which keeps pointers into the line and
  afterwards terminates the words in place, and the execution of a parsed command.

  A \<^verbatim>\<open>char *\<close> into the line is the string from there to the end \<^verbatim>\<open>es\<close>; the line has no zero
  byte in it. A word of a parsed command is the pair of the pointers to its start and to its
  end. The parser either returns or ends in \<^verbatim>\<open>panic\<close>; it recurses through four functions, so
  its depth is bounded by a number that \<open>parsecmd\<close> chooses large enough for every line
  (\<open>parsecmd_returns\<close>).
\<close>

section \<open>Commands\<close>

datatype 'p cmd =
    EXEC "'p list"
  | REDIR "'p cmd" 'p nat int
  | PIPE "'p cmd" "'p cmd"
  | LIST "'p cmd" "'p cmd"
  | BACK "'p cmd"

type_synonym word = "string \<times> string"

datatype sh_err = ShPanic string | ShLeftovers string | ShDepth

type_synonym 'a parse = "string \<Rightarrow> sh_err + ('a \<times> string)"

definition pret :: "'a \<Rightarrow> 'a parse" where
  "pret x = (\<lambda>s. Inr (x, s))"

definition pbind :: "'a parse \<Rightarrow> ('a \<Rightarrow> 'b parse) \<Rightarrow> 'b parse" where
  "pbind m f = (\<lambda>s. case m s of Inl e \<Rightarrow> Inl e | Inr (x, t) \<Rightarrow> f x t)"

definition pseq :: "'a parse \<Rightarrow> 'b parse \<Rightarrow> 'b parse" where
  "pseq m n = pbind m (\<lambda>_. n)"

definition pfail :: "sh_err \<Rightarrow> 'a parse" where
  "pfail e = (\<lambda>s. Inl e)"

named_theorems p_simps \<open>the parser combinators\<close>

lemmas [p_simps] = pret_def pbind_def pseq_def pfail_def

section \<open>Tokens\<close>

definition whitespace :: string where
  "whitespace = [CHR '' '', CHR 0x09, CHR 0x0D, CHR 0x0A, CHR 0x0B]"

definition symbols :: string where "symbols = ''<|>&;()''"

definition O_WRONLY_CREATE_TRUNC :: nat where "O_WRONLY_CREATE_TRUNC = 0x601"
definition O_WRONLY_CREATE :: nat where "O_WRONLY_CREATE = 0x201"

fun skip_space :: "string \<Rightarrow> string" where
  "skip_space [] = []"
| "skip_space (c # s) = (if strchr whitespace c \<noteq> None then skip_space s else c # s)"

fun skip_word :: "string \<Rightarrow> string" where
  "skip_word [] = []"
| "skip_word (c # s) = (if strchr whitespace c = None \<and> strchr symbols c = None then skip_word s else c # s)"

text \<open>The token's kind, and the pointers \<^verbatim>\<open>*q\<close> and \<^verbatim>\<open>*eq\<close>.\<close>

definition gettoken :: "(char \<times> word) parse" where
  "gettoken ps =
     (let s = skip_space ps; q = s;
          (ret, s) = (case s of
              [] \<Rightarrow> (nul, s)
            | c # r \<Rightarrow>
                if c = CHR ''|'' \<or> c = CHR ''('' \<or> c = CHR '')'' \<or> c = CHR '';'' \<or> c = CHR ''&'' \<or> c = CHR ''<''
                then (c, r)
                else if c = CHR ''>'' then (if r \<noteq> [] \<and> hd r = CHR ''>'' then (CHR ''+'', tl r) else (c, r))
                else (CHR ''a'', skip_word s));
          eq = s in
      Inr ((ret, (q, eq)), skip_space s))"

definition peek :: "string \<Rightarrow> bool parse" where
  "peek toks ps = (let s = skip_space ps in Inr (s \<noteq> [] \<and> strchr toks (hd s) \<noteq> None, s))"

section \<open>The parser\<close>

text \<open>
  \<open>parseredirs\<close> wraps the command that it is given; \<open>parseexec\<close> gives it the \<^verbatim>\<open>execcmd\<close> whose
  arguments it stores afterwards, so the redirections are collected and applied to the command.
\<close>

type_synonym redir = "word \<times> nat \<times> int"

definition redircmd :: "redir \<Rightarrow> word cmd \<Rightarrow> word cmd" where
  "redircmd r c = (case r of (f, mode, fd) \<Rightarrow> REDIR c f mode fd)"

fun parseredirs :: "nat \<Rightarrow> redir list parse" where
  "parseredirs 0 = pfail ShDepth"
| "parseredirs (Suc n) =
     pbind (peek ''<>'') (\<lambda>more.
     if \<not> more then pret [] else
     pbind gettoken (\<lambda>(tok, _).
     pbind gettoken (\<lambda>(kind, q).
     if kind \<noteq> CHR ''a'' then pfail (ShPanic ''missing file for redirection'') else
     pbind (parseredirs n) (\<lambda>rs.
     pret ((if tok = CHR ''<'' then (q, 0, 0)
            else if tok = CHR ''>'' then (q, O_WRONLY_CREATE_TRUNC, 1)
            else (q, O_WRONLY_CREATE, 1)) # rs)))))"

text \<open>The loop of \<open>parseexec\<close>: the arguments, of which there are already \<open>argc\<close>, and the redirections.\<close>

definition MAXARGS :: nat where "MAXARGS = 10"

fun parseargs :: "nat \<Rightarrow> nat \<Rightarrow> (word list \<times> redir list) parse" where
  "parseargs 0 argc = pfail ShDepth"
| "parseargs (Suc n) argc =
     pbind (peek ''|)&;'') (\<lambda>stop.
     if stop then pret ([], []) else
     pbind gettoken (\<lambda>(tok, q).
     if tok = nul then pret ([], []) else
     if tok \<noteq> CHR ''a'' then pfail (ShPanic ''syntax'') else
     if argc + 1 \<ge> MAXARGS then pfail (ShPanic ''too many args'') else
     pbind (parseredirs n) (\<lambda>rs.
     pbind (parseargs n (argc + 1)) (\<lambda>(qs, rs').
     pret (q # qs, rs @ rs')))))"

text \<open>The loop of \<open>parseline\<close>.\<close>

fun parseback :: "nat \<Rightarrow> word cmd \<Rightarrow> word cmd parse" where
  "parseback 0 c = pfail ShDepth"
| "parseback (Suc n) c =
     pbind (peek ''&'') (\<lambda>more. if more then pseq gettoken (parseback n (BACK c)) else pret c)"

fun parseline :: "nat \<Rightarrow> word cmd parse"
  and parsepipe :: "nat \<Rightarrow> word cmd parse"
  and parseblock :: "nat \<Rightarrow> word cmd parse"
  and parseexec :: "nat \<Rightarrow> word cmd parse" where
  "parseline 0 = pfail ShDepth"
| "parseline (Suc n) =
     pbind (parsepipe n) (\<lambda>c.
     pbind (parseback n c) (\<lambda>c.
     pbind (peek '';'') (\<lambda>more.
     if more then pseq gettoken (pbind (parseline n) (\<lambda>d. pret (LIST c d))) else pret c)))"
| "parsepipe 0 = pfail ShDepth"
| "parsepipe (Suc n) =
     pbind (parseexec n) (\<lambda>c.
     pbind (peek ''|'') (\<lambda>more.
     if more then pseq gettoken (pbind (parsepipe n) (\<lambda>d. pret (PIPE c d))) else pret c))"
| "parseblock 0 = pfail ShDepth"
| "parseblock (Suc n) =
     pbind (peek ''('') (\<lambda>open.
     if \<not> open then pfail (ShPanic ''parseblock'') else
     pseq gettoken (
     pbind (parseline n) (\<lambda>c.
     pbind (peek '')'') (\<lambda>close.
     if \<not> close then pfail (ShPanic ''syntax - missing )'') else
     pseq gettoken (
     pbind (parseredirs n) (\<lambda>rs.
     pret (fold redircmd rs c)))))))"
| "parseexec 0 = pfail ShDepth"
| "parseexec (Suc n) =
     pbind (peek ''('') (\<lambda>open.
     if open then parseblock n else
     pbind (parseredirs n) (\<lambda>rs.
     pbind (parseargs n 0) (\<lambda>(argv, rs').
     pret (fold redircmd (rs @ rs') (EXEC argv)))))"

text \<open>
  \<open>nulterminate\<close> stores a zero at the end of every word, in the buffer that holds the line and
  its terminating zero; the end is \<open>length eq\<close> bytes before that zero.
\<close>

definition put_nul :: "string \<Rightarrow> string \<Rightarrow> string" where
  "put_nul eq buf = buf[length buf - 1 - length eq := nul]"

fun nulterminate :: "word cmd \<Rightarrow> string \<Rightarrow> string" where
  "nulterminate (EXEC argv) buf = fold (\<lambda>w. put_nul (snd w)) argv buf"
| "nulterminate (REDIR c f mode fd) buf = put_nul (snd f) (nulterminate c buf)"
| "nulterminate (PIPE l r) buf = nulterminate r (nulterminate l buf)"
| "nulterminate (LIST l r) buf = nulterminate r (nulterminate l buf)"
| "nulterminate (BACK c) buf = nulterminate c buf"

definition parsecmd :: "string \<Rightarrow> sh_err + word cmd \<times> string" where
  "parsecmd s =
     (case parseline (4 * length s + 4) s of
        Inl e \<Rightarrow> Inl e
      | Inr (c, t) \<Rightarrow>
          (case peek '''' t of
             Inl e \<Rightarrow> Inl e
           | Inr (_, t) \<Rightarrow> if t \<noteq> [] then Inl (ShLeftovers t) else Inr (c, nulterminate c (s @ [nul]))))"

text \<open>What a word reads as in a buffer.\<close>

definition deref_word :: "string \<Rightarrow> word \<Rightarrow> string" where
  "deref_word buf w = cstring (drop (length buf - 1 - length (fst w)) buf)"

section \<open>Running a command\<close>

definition sh_panic :: "'w usys \<Rightarrow> string \<Rightarrow> ('w, 'a) prog" where
  "sh_panic k s = useq (fprintf k 2 (''%s'' @ [CHR 0x0A]) [VStr (Some s)]) (uexit 1)"

definition fork1 :: "'w usys \<Rightarrow> ('w, int) prog" where
  "fork1 k = ubind (ucall (u_fork k)) (\<lambda>pid. if pid = -1 then sh_panic k ''fork'' else uret pid)"

text \<open>The words are the strings that they read as in the buffer.\<close>

fun runcmd :: "'w usys \<Rightarrow> string cmd \<Rightarrow> ('w, unit) prog" where
  "runcmd k (EXEC argv) =
     (if argv = [] then uexit 1 else
      useq (uexec k (hd argv) argv) (
      useq (fprintf k 2 (''exec %s failed'' @ [CHR 0x0A]) [VStr (Some (hd argv))]) (
      uexit 0)))"
| "runcmd k (REDIR c f mode fd) =
     useq (ucall (u_close k fd)) (
     ubind (ucall (u_open k f mode)) (\<lambda>r.
     if r < 0 then useq (fprintf k 2 (''open %s failed'' @ [CHR 0x0A]) [VStr (Some f)]) (uexit 1) else
     useq (runcmd k c) (uexit 0)))"
| "runcmd k (LIST l r) =
     ubind (fork1 k) (\<lambda>pid.
     useq (uwhen (pid = 0) (runcmd k l)) (
     useq (ucall (u_wait k)) (
     useq (runcmd k r) (uexit 0))))"
| "runcmd k (PIPE l r) =
     ubind (ucall (u_pipe k)) (\<lambda>p. case p of
       None \<Rightarrow> sh_panic k ''pipe''
     | Some (p0, p1) \<Rightarrow>
         ubind (fork1 k) (\<lambda>pid.
         useq (uwhen (pid = 0) (
           useq (ucall (u_close k 1)) (
           useq (ucall (u_dup k p1)) (
           useq (ucall (u_close k p0)) (
           useq (ucall (u_close k p1)) (
           runcmd k l)))))) (
         ubind (fork1 k) (\<lambda>pid.
         useq (uwhen (pid = 0) (
           useq (ucall (u_close k 0)) (
           useq (ucall (u_dup k p0)) (
           useq (ucall (u_close k p0)) (
           useq (ucall (u_close k p1)) (
           runcmd k r)))))) (
         useq (ucall (u_close k p0)) (
         useq (ucall (u_close k p1)) (
         useq (ucall (u_wait k)) (
         useq (ucall (u_wait k)) (
         uexit 0)))))))))"
| "runcmd k (BACK c) =
     ubind (fork1 k) (\<lambda>pid. useq (uwhen (pid = 0) (runcmd k c)) (uexit 0))"

text \<open>The bytes of \<^verbatim>\<open>buf\<close> up to the first zero, or none at the end of the input.\<close>

definition getcmd :: "'w usys \<Rightarrow> nat \<Rightarrow> ('w, string option) prog" where
  "getcmd k nbuf =
     useq (ucall (u_write k 2 (take 17 ''$parastoo-afshari ''))) (
     ubind (gets k nbuf) (\<lambda>buf.
     uret (if hd buf = nul then None else Some (cstring buf))))"

definition sh_child :: "'w usys \<Rightarrow> string \<Rightarrow> ('w, unit) prog" where
  "sh_child k line =
     (case parsecmd line of
        Inr (c, buf) \<Rightarrow> runcmd k (map_cmd (deref_word buf) c)
      | Inl (ShPanic msg) \<Rightarrow> sh_panic k msg
      | Inl (ShLeftovers s) \<Rightarrow>
          useq (fprintf k 2 (''leftovers: %s'' @ [CHR 0x0A]) [VStr (Some s)]) (sh_panic k ''syntax'')
      | Inl ShDepth \<Rightarrow> ustuck)"

definition sh_open_round :: "'w usys \<Rightarrow> unit \<Rightarrow> ('w, unit + unit) prog" where
  "sh_open_round k u =
     ubind (ucall (u_open k ''console'' 2)) (\<lambda>fd.
     if \<not> 0 \<le> fd then uret (Inr ())
     else if 3 \<le> fd then useq (ucall (u_close k fd)) (uret (Inr ()))
     else uret (Inl ()))"

definition sh_round :: "'w usys \<Rightarrow> unit \<Rightarrow> ('w, unit + unit) prog" where
  "sh_round k u =
     ubind (getcmd k 100) (\<lambda>r. case r of
       None \<Rightarrow> uret (Inr ())
     | Some line \<Rightarrow>
         if take 3 line = ''cd '' then
           (let dir = drop 3 (take (strlen_u line - 1) line) in
            ubind (ucall (u_chdir k dir)) (\<lambda>r.
            useq (uwhen (r < 0) (fprintf k 2 (''cannot cd %s'' @ [CHR 0x0A]) [VStr (Some dir)]))
            (uret (Inl ()))))
         else
           ubind (fork1 k) (\<lambda>pid.
           useq (uwhen (pid = 0) (sh_child k line)) (
           useq (ucall (u_wait k)) (
           uret (Inl ())))))"

definition sh_main :: "nat \<Rightarrow> 'w usys \<Rightarrow> ('w, unit) prog" where
  "sh_main fuel k =
     useq (uloop fuel (sh_open_round k) ()) (
     useq (uloop fuel (sh_round k) ()) (
     uexit 0))"

section \<open>The parser returns, with the words of the line\<close>

definition wordchar :: "char \<Rightarrow> bool" where
  "wordchar c \<longleftrightarrow> strchr whitespace c = None \<and> strchr symbols c = None"

text \<open>A word of the line \<open>s0\<close>: a maximal run of word characters.\<close>

definition word_in :: "string \<Rightarrow> word \<Rightarrow> bool" where
  "word_in s0 w \<longleftrightarrow> suffix (fst w) s0 \<and> (\<exists>u. fst w = u @ snd w \<and> (\<forall>c\<in>set u. wordchar c)) \<and>
     (snd w = [] \<or> \<not> wordchar (hd (snd w)))"

text \<open>
  From the pointer \<open>s\<close> into \<open>s0\<close> the parser \<open>m\<close> does not run out of depth, and if it returns, it has
  moved the pointer forward and the words \<open>W\<close> of its result are words of \<open>s0\<close>.
\<close>

definition good :: "string \<Rightarrow> ('a \<Rightarrow> word set) \<Rightarrow> 'a parse \<Rightarrow> string \<Rightarrow> bool" where
  "good s0 W m s \<longleftrightarrow> (suffix s s0 \<longrightarrow> (case m s of
     Inl e \<Rightarrow> e \<noteq> ShDepth | Inr (x, t) \<Rightarrow> suffix t s \<and> (\<forall>w\<in>W x. word_in s0 w)))"

abbreviation none :: "'a \<Rightarrow> word set" where "none \<equiv> \<lambda>_. {}"
abbreviation redir_words :: "redir list \<Rightarrow> word set" where "redir_words rs \<equiv> fst ` set rs"
abbreviation arg_words :: "word list \<times> redir list \<Rightarrow> word set" where
  "arg_words x \<equiv> set (fst x) \<union> redir_words (snd x)"

lemma good_bind:
  assumes "good s0 V m s"
    and "\<And>x t. m s = Inr (x, t) \<Longrightarrow> suffix t s \<Longrightarrow> \<forall>w\<in>V x. word_in s0 w \<Longrightarrow> good s0 W (f x) t"
  shows "good s0 W (pbind m f) s"
proof (cases "m s")
  case (Inl e)
  with assms(1) show ?thesis by (auto simp: good_def pbind_def)
next
  case (Inr r)
  obtain x t where r: "r = (x, t)" by fastforce
  show ?thesis unfolding good_def
  proof
    assume s: "suffix s s0"
    with assms(1) Inr r have t: "suffix t s" "\<forall>w\<in>V x. word_in s0 w" by (auto simp: good_def)
    with assms(2) Inr r have "good s0 W (f x) t" by simp
    with t s show "case pbind m f s of Inl e \<Rightarrow> e \<noteq> ShDepth | Inr (x, t) \<Rightarrow> suffix t s \<and> (\<forall>w\<in>W x. word_in s0 w)"
      using suffix_order.trans [of t s s0] suffix_order.trans [of _ t s]
      by (auto simp: good_def pbind_def Inr r split: sum.splits)
  qed
qed

lemma good_ret: "\<forall>w\<in>W x. word_in s0 w \<Longrightarrow> good s0 W (pret x) s"
  by (simp add: good_def pret_def)

lemma good_fail: "e \<noteq> ShDepth \<Longrightarrow> good s0 W (pfail e) s"
  by (simp add: good_def pfail_def)

lemma skip_space_suffix: "suffix (skip_space s) s"
  by (induction s) (auto intro: suffix_ConsI)

lemma skip_space_idem [simp]: "skip_space (skip_space s) = skip_space s"
  by (induction s) auto

lemma skip_word_split:
  "\<exists>u. s = u @ skip_word s \<and> (\<forall>c\<in>set u. wordchar c) \<and> (skip_word s = [] \<or> \<not> wordchar (hd (skip_word s)))"
proof (induction s)
  case (Cons c s)
  show ?case
  proof (cases "wordchar c")
    case True
    from Cons obtain u where "s = u @ skip_word s" "\<forall>c\<in>set u. wordchar c" "skip_word s = [] \<or> \<not> wordchar (hd (skip_word s))"
      by blast
    with True show ?thesis by (intro exI [of _ "c # u"]) (simp add: wordchar_def)
  qed (auto simp: wordchar_def)
qed simp

lemma good_peek: "good s0 none (peek toks) s"
  by (simp add: good_def peek_def Let_def skip_space_suffix)

lemma peek_eq: "peek toks s = Inr (b, t) \<longleftrightarrow> t = skip_space s \<and> b = (t \<noteq> [] \<and> strchr toks (hd t) \<noteq> None)"
  by (auto simp: peek_def Let_def)

definition token_words :: "char \<times> word \<Rightarrow> word set" where
  "token_words x = (if fst x = CHR ''a'' then {snd x} else {})"

lemma skip_space_hd: "skip_space s = c # r \<Longrightarrow> strchr whitespace c = None"
  by (induction s) (auto split: if_splits)

lemma symbol_iff:
  "strchr symbols c \<noteq> None \<longleftrightarrow>
    c = CHR ''|'' \<or> c = CHR ''('' \<or> c = CHR '')'' \<or> c = CHR '';'' \<or> c = CHR ''&'' \<or> c = CHR ''<'' \<or> c = CHR ''>''"
  by (auto simp: symbols_def)

lemma gettoken_cases:
  obtains k q eq where "gettoken s = Inr ((k, (q, eq)), skip_space eq)" "q = skip_space s" "suffix eq q"
    "q \<noteq> [] \<longrightarrow> length eq < length q" "q = [] \<longrightarrow> k = nul"
    "k = CHR ''a'' \<longrightarrow> (\<exists>u. q = u @ eq \<and> (\<forall>c\<in>set u. wordchar c) \<and> (eq = [] \<or> \<not> wordchar (hd eq)))"
proof (cases "skip_space s")
  case Nil
  then show ?thesis using that [of nul "[]" "[]"] by (simp add: gettoken_def Let_def nul_def)
next
  case (Cons c r)
  consider (sym) "c = CHR ''|'' \<or> c = CHR ''('' \<or> c = CHR '')'' \<or> c = CHR '';'' \<or> c = CHR ''&'' \<or> c = CHR ''<''"
    | (gg) "c = CHR ''>''" "r \<noteq> []" "hd r = CHR ''>''" | (gt) "c = CHR ''>''" "r = [] \<or> hd r \<noteq> CHR ''>''"
    | (word) "strchr symbols c = None" using symbol_iff [of c] by blast
  then show ?thesis
  proof cases
    case sym
    then have "gettoken s = Inr ((c, c # r, r), skip_space r)" using Cons by (simp add: gettoken_def Let_def)
    moreover have "c \<noteq> CHR ''a''" using sym by auto
    ultimately show ?thesis using Cons by (intro that [of c "c # r" r]) (simp_all add: suffix_ConsI)
  next
    case gg
    then have "gettoken s = Inr ((CHR ''+'', c # r, tl r), skip_space (tl r))" using Cons by (simp add: gettoken_def Let_def)
    moreover have "suffix (tl r) (c # r)" using gg by (cases r) (simp_all add: suffix_ConsI)
    ultimately show ?thesis using Cons by (intro that [of "CHR ''+''" "c # r" "tl r"]) simp_all
  next
    case gt
    then have "gettoken s = Inr ((CHR ''>'', c # r, r), skip_space r)" using Cons by (auto simp: gettoken_def Let_def)
    then show ?thesis using Cons by (intro that [of "CHR ''>''" "c # r" r]) (simp_all add: suffix_ConsI)
  next
    case word
    have w: "strchr whitespace c = None" using skip_space_hd [OF Cons] .
    have sw: "skip_word (c # r) = skip_word r" using w word by simp
    obtain u where u: "r = u @ skip_word r" "\<forall>c\<in>set u. wordchar c" "skip_word r = [] \<or> \<not> wordchar (hd (skip_word r))"
      using skip_word_split by blast
    have "length (skip_word r) \<le> length r" by (subst (2) u(1)) simp
    moreover have "suffix (skip_word r) (c # r)" using u(1) by (metis suffixI suffix_ConsI)
    moreover have "\<exists>u. c # r = u @ skip_word r \<and> (\<forall>c\<in>set u. wordchar c) \<and> (skip_word r = [] \<or> \<not> wordchar (hd (skip_word r)))"
      using u w word by (intro exI [of _ "c # u"]) (auto simp: wordchar_def)
    moreover have "gettoken s = Inr ((CHR ''a'', c # r, skip_word r), skip_space (skip_word r))"
      using Cons word symbol_iff [of c] sw by (simp add: gettoken_def Let_def)
    ultimately show ?thesis using Cons by (intro that [of "CHR ''a''" "c # r" "skip_word r"]) simp_all
  qed
qed

lemma good_gettoken: "good s0 token_words gettoken s"
proof -
  obtain k q eq where g: "gettoken s = Inr ((k, (q, eq)), skip_space eq)" "q = skip_space s" "suffix eq q"
    "q \<noteq> [] \<longrightarrow> length eq < length q" "q = [] \<longrightarrow> k = nul"
    "k = CHR ''a'' \<longrightarrow> (\<exists>u. q = u @ eq \<and> (\<forall>c\<in>set u. wordchar c) \<and> (eq = [] \<or> \<not> wordchar (hd eq)))"
    by (rule gettoken_cases [of s])
  have qs: "suffix q s" using g(2) by (simp add: skip_space_suffix)
  have "suffix (skip_space eq) s"
    using skip_space_suffix [of eq] g(3) qs by (meson suffix_order.trans)
  moreover have "word_in s0 (q, eq)" if "k = CHR ''a''" "suffix s s0"
    using g(6) that qs by (auto simp: word_in_def intro: suffix_order.trans)
  ultimately show ?thesis by (auto simp: good_def g(1) token_words_def)
qed

text \<open>A token behind a successful \<open>peek\<close> takes something away.\<close>

lemma gettoken_shorter:
  assumes "gettoken s = Inr (x, t)" "skip_space s \<noteq> []"
  shows "length t < length s"
proof -
  obtain k q eq where g: "gettoken s = Inr ((k, (q, eq)), skip_space eq)" "q = skip_space s" "suffix eq q"
    "q \<noteq> [] \<longrightarrow> length eq < length q" "q = [] \<longrightarrow> k = nul"
    "k = CHR ''a'' \<longrightarrow> (\<exists>u. q = u @ eq \<and> (\<forall>c\<in>set u. wordchar c) \<and> (eq = [] \<or> \<not> wordchar (hd eq)))"
    by (rule gettoken_cases [of s])
  have "length (skip_space eq) \<le> length eq" "length (skip_space s) \<le> length s"
    by (simp_all add: skip_space_suffix suffix_length_le)
  with g assms show ?thesis by auto
qed

lemma gettoken_kind: "gettoken s = Inr ((k, w), t) \<Longrightarrow> k \<noteq> nul \<Longrightarrow> skip_space s \<noteq> []"
  by (rule gettoken_cases [of s]) auto

lemma good_redirs: "length s < n \<Longrightarrow> good s0 redir_words (parseredirs n) s"
proof (induction n arbitrary: s)
  case (Suc n)
  show ?case unfolding parseredirs.simps
  proof (rule good_bind [OF good_peek])
    fix more t assume t: "peek ''<>'' s = Inr (more, t)" "suffix t s"
    let ?read = "pbind gettoken (\<lambda>(tok, _). pbind gettoken (\<lambda>(kind, q).
      if kind \<noteq> CHR ''a'' then pfail (ShPanic ''missing file for redirection'') else
      pbind (parseredirs n) (\<lambda>rs. pret ((if tok = CHR ''<'' then (q, 0, 0)
        else if tok = CHR ''>'' then (q, O_WRONLY_CREATE_TRUNC, 1) else (q, O_WRONLY_CREATE, 1)) # rs))))"
    have "good s0 redir_words ?read t" if "t \<noteq> []"
    proof (rule good_bind [OF good_gettoken])
      fix x u assume u: "gettoken t = Inr (x, u)"
      obtain tok w where x: "x = (tok, w)" by (cases x)
      have "length u < length t" using gettoken_shorter [OF u] t(1) that by (auto simp: peek_eq)
      then have lu: "length u < n" using Suc.prems suffix_length_le [OF t(2)] by simp
      show "good s0 redir_words (case x of (tok, _) \<Rightarrow> pbind gettoken (\<lambda>(kind, q).
        if kind \<noteq> CHR ''a'' then pfail (ShPanic ''missing file for redirection'') else
        pbind (parseredirs n) (\<lambda>rs. pret ((if tok = CHR ''<'' then (q, 0, 0)
          else if tok = CHR ''>'' then (q, O_WRONLY_CREATE_TRUNC, 1) else (q, O_WRONLY_CREATE, 1)) # rs)))) u"
        unfolding x prod.case
      proof (rule good_bind [OF good_gettoken])
        fix y v assume v: "suffix v u" and y: "\<forall>w\<in>token_words y. word_in s0 w"
        have "length v < n" using suffix_length_le [OF v] lu by simp
        note ih = Suc.IH [OF this]
        show "good s0 redir_words (case y of (kind, q) \<Rightarrow>
          if kind \<noteq> CHR ''a'' then pfail (ShPanic ''missing file for redirection'') else
          pbind (parseredirs n) (\<lambda>rs. pret ((if tok = CHR ''<'' then (q, 0, 0)
            else if tok = CHR ''>'' then (q, O_WRONLY_CREATE_TRUNC, 1) else (q, O_WRONLY_CREATE, 1)) # rs))) v"
        proof -
          obtain kind q where Pair: "y = (kind, q)" by (cases y)
          have "good s0 redir_words (pbind (parseredirs n) (\<lambda>rs. pret ((q, m) # rs))) v" if "kind = CHR ''a''" for m :: "nat \<times> int"
            using y Pair that by (intro good_bind [OF ih] good_ret) (simp add: token_words_def)
          then show ?thesis using Pair by (simp add: good_fail)
        qed
      qed
    qed
    then show "good s0 redir_words (if \<not> more then pret [] else ?read) t"
      using t(1) by (auto simp: peek_eq intro: good_ret)
  qed
qed simp

lemma good_args: "length s < n \<Longrightarrow> good s0 arg_words (parseargs n argc) s"
proof (induction n arbitrary: s argc)
  case (Suc n)
  show ?case unfolding parseargs.simps
  proof (rule good_bind [OF good_peek])
    fix stop t assume t: "peek ''|)&;'' s = Inr (stop, t)" "suffix t s"
    let ?rest = "\<lambda>q. pbind (parseredirs n) (\<lambda>rs. pbind (parseargs n (argc + 1)) (\<lambda>(qs, rs'). pret (q # qs, rs @ rs')))"
    have "good s0 arg_words (pbind gettoken (\<lambda>(tok, q). if tok = nul then pret ([], []) else
      if tok \<noteq> CHR ''a'' then pfail (ShPanic ''syntax'') else
      if argc + 1 \<ge> MAXARGS then pfail (ShPanic ''too many args'') else ?rest q)) t"
    proof (rule good_bind [OF good_gettoken])
      fix x u assume u: "gettoken t = Inr (x, u)" and x: "\<forall>w\<in>token_words x. word_in s0 w"
      obtain tok q where xq: "x = (tok, q)" by (cases x)
      have "good s0 arg_words (?rest q) u" if "tok = CHR ''a''"
      proof -
        have "skip_space t \<noteq> []" using gettoken_kind [of t tok q u] u xq that by (simp add: nul_def)
        then have lu: "length u < n" using gettoken_shorter [OF u] suffix_length_le [OF t(2)] Suc.prems by simp
        show ?thesis
        proof (rule good_bind [OF good_redirs [OF lu]])
          fix rs v assume v: "suffix v u" and rs: "\<forall>w\<in>redir_words rs. word_in s0 w"
          have "length v < n" using suffix_length_le [OF v] lu by simp
          show "good s0 arg_words (pbind (parseargs n (argc + 1)) (\<lambda>(qs, rs'). pret (q # qs, rs @ rs'))) v"
          proof (rule good_bind [OF Suc.IH [OF \<open>length v < n\<close>]])
            fix y z assume y: "\<forall>w\<in>arg_words y. word_in s0 w"
            obtain qs rs' where yq: "y = (qs, rs')" by (cases y)
            have "word_in s0 q" using x xq that by (simp add: token_words_def)
            with y rs have "\<forall>w\<in>arg_words (q # qs, rs @ rs'). word_in s0 w" unfolding yq by (simp add: ball_Un)
            then show "good s0 arg_words (case y of (qs, rs') \<Rightarrow> pret (q # qs, rs @ rs')) z"
              unfolding yq prod.case by (rule good_ret)
          qed
        qed
      qed
      then show "good s0 arg_words (case x of (tok, q) \<Rightarrow> if tok = nul then pret ([], []) else
          if tok \<noteq> CHR ''a'' then pfail (ShPanic ''syntax'') else
          if argc + 1 \<ge> MAXARGS then pfail (ShPanic ''too many args'') else ?rest q) u"
        using xq by (auto intro!: good_ret good_fail)
    qed
    then show "good s0 arg_words (if stop then pret ([], []) else pbind gettoken (\<lambda>(tok, q). if tok = nul then pret ([], []) else
      if tok \<noteq> CHR ''a'' then pfail (ShPanic ''syntax'') else
      if argc + 1 \<ge> MAXARGS then pfail (ShPanic ''too many args'') else ?rest q)) t"
      by (auto intro: good_ret)
  qed
qed simp

lemma good_more:
  assumes "\<And>u. length u < length s \<Longrightarrow> good s0 W m u" and "\<And>t. length t \<le> length s \<Longrightarrow> good s0 W m' t"
  shows "good s0 W (pbind (peek toks) (\<lambda>more. if more then pseq gettoken m else m')) s"
proof (rule good_bind [OF good_peek])
  fix more t assume t: "peek toks s = Inr (more, t)" "suffix t s"
  have "good s0 W (pseq gettoken m) t" if "more" unfolding pseq_def
  proof (rule good_bind [OF good_gettoken])
    fix x u assume u: "gettoken t = Inr (x, u)" "suffix u t"
    have "length u < length t" using gettoken_shorter [OF u(1)] t(1) that by (auto simp: peek_eq)
    then show "good s0 W m u"
      using assms(1) [of u] suffix_length_le [OF t(2)] by simp
  qed
  with assms(2) [OF suffix_length_le [OF t(2)]] show "good s0 W (if more then pseq gettoken m else m') t" by simp
qed

lemma good_back: "length s < n \<Longrightarrow> \<forall>w\<in>set_cmd c. word_in s0 w \<Longrightarrow> good s0 set_cmd (parseback n c) s"
proof (induction n arbitrary: s c)
  case (Suc n)
  show ?case unfolding parseback.simps using Suc by (intro good_more good_ret Suc.IH) auto
qed simp

lemma set_cmd_redirs: "set_cmd (fold redircmd rs c) = set_cmd c \<union> redir_words rs"
  by (induction rs arbitrary: c) (auto simp: redircmd_def split: prod.splits)

lemma if_swap_not: "(if \<not> b then x else y) = (if b then y else x)"
  by simp

lemma good_parseline:
  assumes line: "\<And>t. 4 * length t + 4 \<le> n \<Longrightarrow> good s0 set_cmd (parseline n) t"
    and pipe: "\<And>t. 4 * length t + 3 \<le> n \<Longrightarrow> good s0 set_cmd (parsepipe n) t"
    and n: "4 * length s + 4 \<le> Suc n"
  shows "good s0 set_cmd (parseline (Suc n)) s"
  unfolding parseline.simps
proof (rule good_bind [OF pipe])
  fix c t assume t: "suffix t s" and c: "\<forall>w\<in>set_cmd c. word_in s0 w"
  have lt: "length t \<le> length s" using t by (rule suffix_length_le)
  show "good s0 set_cmd (pbind (parseback n c) (\<lambda>c. pbind (peek '';'') (\<lambda>more.
    if more then pseq gettoken (pbind (parseline n) (\<lambda>d. pret (LIST c d))) else pret c))) t"
  proof (rule good_bind [OF good_back])
    fix c u assume u: "suffix u t" and c: "\<forall>w\<in>set_cmd c. word_in s0 w"
    show "good s0 set_cmd (pbind (peek '';'') (\<lambda>more.
      if more then pseq gettoken (pbind (parseline n) (\<lambda>d. pret (LIST c d))) else pret c)) u"
    proof (rule good_more)
      fix v :: string assume "length v < length u"
      then have "4 * length v + 4 \<le> n" using lt n suffix_length_le [OF u] by simp
      then show "good s0 set_cmd (pbind (parseline n) (\<lambda>d. pret (LIST c d))) v"
        using c by (intro good_bind [OF line] good_ret) auto
    qed (use c in \<open>rule good_ret\<close>)
  qed (use n lt c in auto)
qed (use n in simp)

lemma good_parsepipe:
  assumes pipe: "\<And>t. 4 * length t + 3 \<le> n \<Longrightarrow> good s0 set_cmd (parsepipe n) t"
    and exec: "\<And>t. 4 * length t + 2 \<le> n \<Longrightarrow> good s0 set_cmd (parseexec n) t"
    and n: "4 * length s + 3 \<le> Suc n"
  shows "good s0 set_cmd (parsepipe (Suc n)) s"
  unfolding parsepipe.simps
proof (rule good_bind [OF exec])
  fix c t assume t: "suffix t s" and c: "\<forall>w\<in>set_cmd c. word_in s0 w"
  show "good s0 set_cmd (pbind (peek ''|'') (\<lambda>more.
    if more then pseq gettoken (pbind (parsepipe n) (\<lambda>d. pret (PIPE c d))) else pret c)) t"
  proof (rule good_more)
    fix v :: string assume "length v < length t"
    then have "4 * length v + 3 \<le> n" using n suffix_length_le [OF t] by simp
    then show "good s0 set_cmd (pbind (parsepipe n) (\<lambda>d. pret (PIPE c d))) v"
      using c by (intro good_bind [OF pipe] good_ret) auto
  qed (use c in \<open>rule good_ret\<close>)
qed (use n in simp)

lemma good_parseblock:
  assumes line: "\<And>t. 4 * length t + 4 \<le> n \<Longrightarrow> good s0 set_cmd (parseline n) t"
    and n: "4 * length s + 1 \<le> Suc n"
  shows "good s0 set_cmd (parseblock (Suc n)) s"
proof -
  let ?close = "\<lambda>c. pbind (peek '')'') (\<lambda>close. if close then pseq gettoken
      (pbind (parseredirs n) (\<lambda>rs. pret (fold redircmd rs c))) else pfail (ShPanic ''syntax - missing )''))"
  have eq: "parseblock (Suc n) = pbind (peek ''('') (\<lambda>open. if open then pseq gettoken (pbind (parseline n) ?close)
      else pfail (ShPanic ''parseblock''))"
    by (simp only: parseblock.simps if_swap_not)
  show ?thesis unfolding eq
  proof (rule good_more)
    fix u :: string assume u: "length u < length s"
    then have "4 * length u + 4 \<le> n" using n by simp
    then show "good s0 set_cmd (pbind (parseline n) ?close) u"
    proof (rule good_bind [OF line])
      fix c t assume t: "suffix t u" and c: "\<forall>w\<in>set_cmd c. word_in s0 w"
      show "good s0 set_cmd (?close c) t"
      proof (rule good_more)
        fix v :: string assume "length v < length t"
        then have "length v < n" using u n suffix_length_le [OF t] by simp
        then show "good s0 set_cmd (pbind (parseredirs n) (\<lambda>rs. pret (fold redircmd rs c))) v"
          using c by (intro good_bind [OF good_redirs] good_ret) (auto simp: set_cmd_redirs)
      qed (rule good_fail, simp)
    qed
  qed (rule good_fail, simp)
qed

lemma good_parseexec:
  assumes blk: "\<And>t. 4 * length t + 1 \<le> n \<Longrightarrow> good s0 set_cmd (parseblock n) t"
    and n: "4 * length s + 2 \<le> Suc n"
  shows "good s0 set_cmd (parseexec (Suc n)) s"
  unfolding parseexec.simps
proof (rule good_bind [OF good_peek])
  fix opn t assume t: "suffix t s"
  have "length t \<le> length s" using t by (rule suffix_length_le)
  then have n1: "4 * length t + 1 \<le> n" and n2: "length t < n" using n by auto
  have "good s0 set_cmd (pbind (parseredirs n) (\<lambda>rs. pbind (parseargs n 0) (\<lambda>(argv, rs').
      pret (fold redircmd (rs @ rs') (EXEC argv))))) t"
  proof (rule good_bind [OF good_redirs [OF n2]])
    fix rs u assume u: "suffix u t" and rs: "\<forall>w\<in>redir_words rs. word_in s0 w"
    have "length u < n" using suffix_length_le [OF u] n2 by simp
    then show "good s0 set_cmd (pbind (parseargs n 0) (\<lambda>(argv, rs'). pret (fold redircmd (rs @ rs') (EXEC argv)))) u"
    proof (rule good_bind [OF good_args])
      fix x v assume x: "\<forall>w\<in>arg_words x. word_in s0 w"
      have "\<forall>w\<in>set_cmd (fold redircmd (rs @ snd x) (EXEC (fst x))). word_in s0 w"
        unfolding set_cmd_redirs using rs x by (simp add: ball_Un)
      then show "good s0 set_cmd (case x of (argv, rs') \<Rightarrow> pret (fold redircmd (rs @ rs') (EXEC argv))) v"
        unfolding split_beta by (rule good_ret)
    qed
  qed
  with blk [OF n1] show "good s0 set_cmd (if opn then parseblock n else pbind (parseredirs n) (\<lambda>rs.
      pbind (parseargs n 0) (\<lambda>(argv, rs'). pret (fold redircmd (rs @ rs') (EXEC argv))))) t" by simp
qed

lemma good_parse:
  "(4 * length s + 4 \<le> n \<longrightarrow> good s0 set_cmd (parseline n) s) \<and>
   (4 * length s + 3 \<le> n \<longrightarrow> good s0 set_cmd (parsepipe n) s) \<and>
   (4 * length s + 1 \<le> n \<longrightarrow> good s0 set_cmd (parseblock n) s) \<and>
   (4 * length s + 2 \<le> n \<longrightarrow> good s0 set_cmd (parseexec n) s)"
proof (induction n arbitrary: s)
  case (Suc n)
  then have "good s0 set_cmd (parseline n) t" if "4 * length t + 4 \<le> n" for t using that by blast
  moreover have "good s0 set_cmd (parsepipe n) t" if "4 * length t + 3 \<le> n" for t using Suc that by blast
  moreover have "good s0 set_cmd (parseblock n) t" if "4 * length t + 1 \<le> n" for t using Suc that by blast
  moreover have "good s0 set_cmd (parseexec n) t" if "4 * length t + 2 \<le> n" for t using Suc that by blast
  ultimately show ?case
    by (intro conjI impI good_parseline good_parsepipe good_parseblock good_parseexec)
qed simp

section \<open>Terminating the words\<close>

definition word_text :: "word \<Rightarrow> string" where
  "word_text w = take (length (fst w) - length (snd w)) (fst w)"

lemma word_text_append [simp]: "word_text (w @ r, r) = w"
  by (simp add: word_text_def)

lemma put_nul_nth:
  "length (put_nul e buf) = length buf"
  "i < length buf \<Longrightarrow> put_nul e buf ! i = (if i = length buf - 1 - length e then nul else buf ! i)"
  by (simp_all add: put_nul_def nth_list_update)

lemma nulterminate_nth:
  "length (nulterminate c buf) = length buf \<and> (\<forall>i<length buf. nulterminate c buf ! i =
     (if \<exists>w\<in>set_cmd c. i = length buf - 1 - length (snd w) then nul else buf ! i))"
proof (induction c arbitrary: buf)
  case (EXEC argv)
  then show ?case by (induction argv arbitrary: buf) (auto simp: put_nul_nth)
qed (auto simp: put_nul_nth)

lemma parsecmd_words:
  assumes "parsecmd s = Inr (c, buf)"
  shows "buf = nulterminate c (s @ [nul])" "\<forall>w\<in>set_cmd c. word_in s w"
proof -
  from assms obtain t where "parseline (4 * length s + 4) s = Inr (c, t)" "buf = nulterminate c (s @ [nul])"
    by (auto simp: parsecmd_def peek_def Let_def split: sum.splits prod.splits if_splits)
  moreover have "good s set_cmd (parseline (4 * length s + 4)) s" using good_parse by blast
  ultimately show "buf = nulterminate c (s @ [nul])" "\<forall>w\<in>set_cmd c. word_in s w" by (auto simp: good_def)
qed

lemma deref_parsed_word:
  assumes "parsecmd s = Inr (c, buf)" "nul \<notin> set s" "w \<in> set_cmd c"
  shows "deref_word buf w = word_text w"
proof -
  note ws = parsecmd_words [OF assms(1)]
  obtain p u e where s: "s = p @ u @ e" and w: "w = (u @ e, e)" and u: "\<forall>c\<in>set u. wordchar c"
    using ws(2) assms(3) by (cases w) (auto simp: word_in_def suffix_def)
  have len: "length buf = length s + 1" using nulterminate_nth ws(1) by simp
  have idx: "length buf - 1 - length (snd w) = length p + length u" by (simp add: len s w)
  have keep: "buf ! (length p + i) = u ! i" if i: "i < length u" for i
  proof -
    have "length p + i \<noteq> length s - length (snd w')" if w': "w' \<in> set_cmd c" for w'
    proof
      assume eq: "length p + i = length s - length (snd w')"
      from ws(2) w' obtain p' where p': "s = p' @ snd w'" and e': "snd w' = [] \<or> \<not> wordchar (hd (snd w'))"
        by (auto simp: word_in_def suffix_def)
      have "length p + i < length s" using i s by simp
      with eq have "snd w' \<noteq> []" by auto
      moreover have "length p' = length p + i" using eq p' by simp
      then have "s ! (length p + i) = hd (snd w')" using p' \<open>snd w' \<noteq> []\<close> by (simp add: nth_append hd_conv_nth)
      moreover have "s ! (length p + i) = u ! i" using i s by (simp add: nth_append)
      ultimately show False using e' u i by (metis nth_mem)
    qed
    then show ?thesis
      using nulterminate_nth [of c "s @ [nul]"] i s by (auto simp: ws(1) nth_append)
  qed
  have zero: "buf ! (length p + length u) = nul"
    using nulterminate_nth [of c "s @ [nul]"] assms(3) idx len by (auto simp: ws(1) s)
  have "takeWhile (\<lambda>c. c \<noteq> nul) (drop (length p) buf) = take (length u) (drop (length p) buf)"
  proof (rule takeWhile_eq_take_P_nth)
    fix i assume "i < length u"
    moreover from this have "u ! i \<noteq> nul" using assms(2) s by (metis Un_iff nth_mem set_append)
    ultimately show "drop (length p) buf ! i \<noteq> nul" using keep len by (simp add: s)
  qed (use zero len in \<open>simp add: s\<close>)
  also have "\<dots> = u" using keep len by (intro nth_equalityI) (auto simp: s)
  finally show ?thesis using len by (simp add: deref_word_def cstring_def word_text_def w s)
qed

text \<open>
  C15. Storing the zeros in place is safe: in the buffer that \<^verbatim>\<open>nulterminate\<close> leaves behind,
  every word of the parsed command reads, as a C string from its start, as exactly the
  characters the parser saw, although the words share one buffer and the zero at the end of a
  word overwrites whatever followed it; and every word is a maximal run of word characters of
  the line.
\<close>

theorem nulterminate_reads_words:
  assumes "parsecmd s = Inr (c, buf)" "nul \<notin> set s"
  shows "map_cmd (deref_word buf) c = map_cmd word_text c \<and>
    (\<forall>w\<in>set_cmd c. \<exists>p e. s = p @ word_text w @ e \<and> (\<forall>d\<in>set (word_text w). wordchar d) \<and> (e = [] \<or> \<not> wordchar (hd e)))"
proof
  show "map_cmd (deref_word buf) c = map_cmd word_text c"
    by (rule cmd.map_cong0) (rule deref_parsed_word [OF assms])
  show "\<forall>w\<in>set_cmd c. \<exists>p e. s = p @ word_text w @ e \<and> (\<forall>d\<in>set (word_text w). wordchar d) \<and> (e = [] \<or> \<not> wordchar (hd e))"
    using parsecmd_words(2) [OF assms(1)] by (fastforce simp: word_in_def suffix_def word_text_def)
qed

lemma demo_parse:
  "parsecmd ''ls -l>out'' = Inr (REDIR (EXEC [(''ls -l>out'', '' -l>out''), (''-l>out'', ''>out'')]) (''out'', []) 0x601 1,
     ''ls'' @ [nul] @ ''-l'' @ [nul] @ ''out'' @ [nul])"
  by code_simp

theorem nulterminate_reads_words_witness:
  "\<exists>c buf. parsecmd ''ls -l>out'' = Inr (c, buf) \<and> map_cmd (deref_word buf) c = REDIR (EXEC [''ls'', ''-l'']) ''out'' 0x601 1"
proof -
  have "nul \<notin> set ''ls -l>out''" by (simp add: nul_def)
  from nulterminate_reads_words [OF demo_parse this] show ?thesis
    unfolding demo_parse by (simp add: word_text_def)
qed

text \<open>
  C16. The parser always returns: on every line, \<^verbatim>\<open>parsecmd\<close> gives a command, reports what is
  left over, or panics with one of the parser's own messages; it never recurses for ever.
\<close>

theorem parsecmd_returns: "parsecmd s \<noteq> Inl ShDepth"
proof -
  have "good s set_cmd (parseline (4 * length s + 4)) s" using good_parse by blast
  then show ?thesis
    by (auto simp: good_def parsecmd_def peek_def Let_def split: sum.splits prod.splits if_splits)
qed

section \<open>Printing and parsing\<close>

text \<open>A command line for a command: every part of a composite command in parentheses.\<close>

fun render :: "string cmd \<Rightarrow> string" where
  "render (EXEC ws) = concat (map (\<lambda>w. w @ '' '') ws)"
| "render (REDIR c f mode fd) = ''('' @ render c @ '')'' @
     (if mode = 0 then ''<'' else if mode = O_WRONLY_CREATE_TRUNC then ''>'' else ''>>'') @ f"
| "render (PIPE l r) = ''('' @ render l @ '')|('' @ render r @ '')''"
| "render (LIST l r) = ''('' @ render l @ '');('' @ render r @ '')''"
| "render (BACK c) = ''('' @ render c @ '')&''"

definition good_name :: "string \<Rightarrow> bool" where
  "good_name w \<longleftrightarrow> w \<noteq> [] \<and> (\<forall>c\<in>set w. wordchar c \<and> c \<noteq> nul)"

fun renderable :: "string cmd \<Rightarrow> bool" where
  "renderable (EXEC ws) \<longleftrightarrow> length ws < MAXARGS \<and> (\<forall>w\<in>set ws. good_name w)"
| "renderable (REDIR c f mode fd) \<longleftrightarrow> renderable c \<and> good_name f \<and>
     (mode, fd) \<in> {(0, 0), (O_WRONLY_CREATE_TRUNC, 1), (O_WRONLY_CREATE, 1)}"
| "renderable (PIPE l r) \<longleftrightarrow> renderable l \<and> renderable r"
| "renderable (LIST l r) \<longleftrightarrow> renderable l \<and> renderable r"
| "renderable (BACK c) \<longleftrightarrow> renderable c"

definition stops :: "string \<Rightarrow> bool" where
  "stops r \<longleftrightarrow> r = [] \<or> hd r = CHR '')''"

lemma skip_space_id: "s = [] \<or> strchr whitespace (hd s) = None \<Longrightarrow> skip_space s = s"
  by (cases s) auto

lemma skip_word_word: "\<forall>c\<in>set w. wordchar c \<Longrightarrow> r = [] \<or> \<not> wordchar (hd r) \<Longrightarrow> skip_word (w @ r) = r"
  by (induction w) (cases r; auto simp: wordchar_def)+

lemma gettoken_word:
  assumes "good_name w" "r = [] \<or> \<not> wordchar (hd r)"
  shows "gettoken (w @ r) = Inr ((CHR ''a'', (w @ r, r)), skip_space r)"
proof -
  obtain c v where w: "w = c # v" using assms(1) by (cases w) (auto simp: good_name_def)
  then have c: "strchr whitespace c = None" "strchr symbols c = None" "\<forall>c\<in>set w. wordchar c"
    using assms(1) by (auto simp: good_name_def wordchar_def)
  have "skip_word (c # v @ r) = r" using skip_word_word [OF c(3) assms(2)] w by simp
  moreover have "skip_space (c # v @ r) = c # v @ r" using c(1) by simp
  ultimately show ?thesis
    using symbol_iff [of c] c(2) by (simp add: gettoken_def Let_def w del: skip_space.simps skip_word.simps)
qed

lemma gettoken_symbol:
  assumes "c \<in> {CHR ''|'', CHR ''('', CHR '')'', CHR '';'', CHR ''&'', CHR ''<''}"
  shows "gettoken (c # r) = Inr ((c, (c # r, r)), skip_space r)"
  using assms by (auto simp: gettoken_def Let_def whitespace_def)

lemma gettoken_greater:
  "r = [] \<or> hd r \<noteq> CHR ''>'' \<Longrightarrow> gettoken (CHR ''>'' # r) = Inr ((CHR ''>'', (CHR ''>'' # r, r)), skip_space r)"
  "gettoken (CHR ''>'' # CHR ''>'' # r) = Inr ((CHR ''+'', (CHR ''>'' # CHR ''>'' # r, r)), skip_space r)"
  by (auto simp: gettoken_def Let_def whitespace_def)

lemma peek_id: "skip_space s = s \<Longrightarrow> peek toks s = Inr (s \<noteq> [] \<and> strchr toks (hd s) \<noteq> None, s)"
  by (simp add: peek_def)

lemma good_name_hd:
  assumes "good_name w"
  shows "skip_space (w @ r) = w @ r" "w \<noteq> []" "wordchar (hd w)"
  using assms by (auto simp: good_name_def wordchar_def intro!: skip_space_id)

lemma wordchar_not_symbol:
  assumes "wordchar c"
  shows "c \<noteq> CHR ''|''" "c \<noteq> CHR ''(''" "c \<noteq> CHR '')''" "c \<noteq> CHR '';''" "c \<noteq> CHR ''&''" "c \<noteq> CHR ''<''" "c \<noteq> CHR ''>''"
  using assms by (auto simp: wordchar_def symbols_def)

lemma not_wordchar [simp]: "\<not> wordchar CHR '' ''" "\<not> wordchar CHR '')''"
  by (simp_all add: wordchar_def symbols_def whitespace_def)

lemma whitespace_symbol [simp]:
  "strchr whitespace CHR ''|'' = None" "strchr whitespace CHR ''('' = None" "strchr whitespace CHR '')'' = None"
  "strchr whitespace CHR '';'' = None" "strchr whitespace CHR ''&'' = None" "strchr whitespace CHR ''<'' = None"
  "strchr whitespace CHR ''>'' = None" "strchr whitespace CHR '' '' \<noteq> None"
  by (simp_all add: whitespace_def)

lemma render_start:
  assumes "renderable a" "stops r"
  shows "skip_space (render a @ r) = render a @ r"
    "render a @ r \<noteq> [] \<Longrightarrow> wordchar (hd (render a @ r)) \<or> hd (render a @ r) \<in> {CHR ''('', CHR '')''}"
proof -
  have r: "r = [] \<or> (\<exists>r'. r = CHR '')'' # r')" using assms(2) by (cases r) (auto simp: stops_def)
  have "skip_space (render a @ r) = render a @ r \<and>
    (render a @ r \<noteq> [] \<longrightarrow> wordchar (hd (render a @ r)) \<or> hd (render a @ r) \<in> {CHR ''('', CHR '')''})"
  proof (cases a)
    case (EXEC ws)
    show ?thesis
    proof (cases ws)
      case Nil then show ?thesis using EXEC r by auto
    next
      case (Cons w ws')
      with EXEC assms(1) have "good_name w" by simp
      from good_name_hd [OF this] show ?thesis using EXEC Cons by simp
    qed
  qed auto
  then show "skip_space (render a @ r) = render a @ r"
    "render a @ r \<noteq> [] \<Longrightarrow> wordchar (hd (render a @ r)) \<or> hd (render a @ r) \<in> {CHR ''('', CHR '')''}" by auto
qed

lemma render_no_redir:
  assumes "renderable a" "stops r"
  shows "render a @ r = [] \<or> hd (render a @ r) \<noteq> CHR ''<'' \<and> hd (render a @ r) \<noteq> CHR ''>''"
proof -
  obtain s where s: "s = render a @ r" by blast
  have "s \<noteq> [] \<Longrightarrow> wordchar (hd s) \<or> hd s \<in> {CHR ''('', CHR '')''}" using render_start(2) [OF assms] s by simp
  then have "s = [] \<or> hd s \<noteq> CHR ''<'' \<and> hd s \<noteq> CHR ''>''" using wordchar_not_symbol [of "hd s"] by auto
  then show ?thesis unfolding s .
qed

lemma parseredirs_none:
  assumes "skip_space r = r" "r = [] \<or> hd r \<noteq> CHR ''<'' \<and> hd r \<noteq> CHR ''>''" "0 < n"
  shows "parseredirs n r = Inr ([], r)"
  using assms by (cases n) (auto simp: peek_id p_simps)

lemma stops_space: "stops r \<Longrightarrow> skip_space r = r"
  by (cases r) (auto simp: stops_def)

lemma parseargs_words:
  assumes "\<forall>w\<in>set ws. good_name w" "stops r" "argc + length ws < MAXARGS" "length (render (EXEC ws) @ r) < n"
  shows "\<exists>qs. parseargs n argc (render (EXEC ws) @ r) = Inr ((qs, []), r) \<and> map word_text qs = ws"
  using assms
proof (induction ws arbitrary: n argc)
  case Nil
  then obtain m where n: "n = Suc m" by (cases n) auto
  consider "r = []" | r' where "r = CHR '')'' # r'" using Nil.prems(2) by (cases r) (auto simp: stops_def)
  then show ?case by cases (simp_all add: n p_simps peek_id gettoken_def Let_def)
next
  case (Cons w ws)
  then obtain m where n: "n = Suc m" by (cases n) auto
  have w: "good_name w" using Cons.prems(1) by simp
  let ?s = "render (EXEC ws) @ r"
  have s: "skip_space ?s = ?s" "?s = [] \<or> hd ?s \<noteq> CHR ''<'' \<and> hd ?s \<noteq> CHR ''>''"
    using render_start(1) [of "EXEC ws" r] render_no_redir [of "EXEC ws" r] Cons.prems by simp_all
  have tok: "gettoken (w @ '' '' @ ?s) = Inr ((CHR ''a'', (w @ '' '' @ ?s, '' '' @ ?s)), ?s)"
    using gettoken_word [OF w, of "'' '' @ ?s"] s(1) by simp
  have red: "parseredirs m ?s = Inr ([], ?s)"
    using Cons.prems(4) n by (intro parseredirs_none [OF s]) simp
  obtain qs where qs: "parseargs m (Suc argc) ?s = Inr ((qs, []), r)" "map word_text qs = ws"
    using Cons.IH [of "Suc argc" m] Cons.prems n by auto
  have "peek ''|)&;'' (w @ '' '' @ ?s) = Inr (False, w @ '' '' @ ?s)"
    using good_name_hd [OF w] wordchar_not_symbol [of "hd w"] by (subst peek_id) auto
  then show ?case
    using tok red qs Cons.prems(3) n by (simp add: p_simps nul_def)
qed

lemma parseline_pipe:
  assumes "parsepipe n s = Inr (c, r)" "stops r" "0 < n"
  shows "parseline (Suc n) s = Inr (c, r)"
proof -
  obtain m where n: "n = Suc m" using assms(3) by (cases n) auto
  have "peek ''&'' r = Inr (False, r)" "peek '';'' r = Inr (False, r)"
    using assms(2) by (auto simp: peek_id stops_space stops_def)
  then show ?thesis using assms(1) by (simp add: n p_simps del: parsepipe.simps)
qed

text \<open>What a command that was parsed at \<open>s\<close> up to \<open>r\<close> stands for.\<close>

definition parses_to :: "word cmd parse \<Rightarrow> string \<Rightarrow> string cmd \<Rightarrow> string \<Rightarrow> bool" where
  "parses_to m s a r \<longleftrightarrow> (\<exists>c. m s = Inr (c, r) \<and> map_cmd word_text c = a)"

lemma parseexec_block:
  assumes a: "parses_to (parseline n) (render a @ '')'' @ r) a ('')'' @ r)" "renderable a" and r: "skip_space r = r"
    and rs: "parseredirs n r = Inr (rs, t)"
  shows "parses_to (parseexec (Suc (Suc n))) (''('' @ render a @ '')'' @ r)
    (fold (\<lambda>(f, mode, fd) c. REDIR c (word_text f) mode fd) rs a) t"
proof -
  obtain c where c: "parseline n (render a @ '')'' @ r) = Inr (c, '')'' @ r)" "map_cmd word_text c = a"
    using a(1) by (auto simp: parses_to_def)
  have st: "stops ('')'' @ r)" by (simp add: stops_def)
  have "peek ''('' (''('' @ render a @ '')'' @ r) = Inr (True, ''('' @ render a @ '')'' @ r)"
    "gettoken (''('' @ render a @ '')'' @ r) = Inr ((CHR ''('', (''('' @ render a @ '')'' @ r, render a @ '')'' @ r)), render a @ '')'' @ r)"
    "peek '')'' ('')'' @ r) = Inr (True, '')'' @ r)" "gettoken ('')'' @ r) = Inr ((CHR '')'', ('')'' @ r, r)), r)"
    using gettoken_symbol [of "CHR ''(''" "render a @ '')'' @ r"] gettoken_symbol [of "CHR '')''" r]
      render_start(1) [OF a(2) st] r by (simp_all add: peek_id)
  then have "parseexec (Suc (Suc n)) (''('' @ render a @ '')'' @ r) = Inr (fold redircmd rs c, t)"
    using c(1) rs by (simp add: p_simps)
  moreover have "map_cmd word_text (fold redircmd rs d) = fold (\<lambda>(f, mode, fd) c. REDIR c (word_text f) mode fd) rs (map_cmd word_text d)" for d
    by (induction rs arbitrary: d) (auto simp: redircmd_def)
  ultimately show ?thesis using c(2) by (auto simp: parses_to_def)
qed

lemma parses_pipe_end:
  assumes "parses_to (parseexec n) s a r" "skip_space r = r" "r = [] \<or> hd r \<noteq> CHR ''|''"
  shows "parses_to (parsepipe (Suc n)) s a r"
  using assms by (auto simp: parses_to_def p_simps peek_id)

lemma parses_line_end: "parses_to (parsepipe n) s a r \<Longrightarrow> stops r \<Longrightarrow> 0 < n \<Longrightarrow> parses_to (parseline (Suc n)) s a r"
  unfolding parses_to_def using parseline_pipe by blast

lemma parseexec_paren:
  assumes "parses_to (parseline n) (render a @ '')'' @ r) a ('')'' @ r)" "renderable a" "skip_space r = r"
    "r = [] \<or> hd r \<noteq> CHR ''<'' \<and> hd r \<noteq> CHR ''>''" "0 < n"
  shows "parses_to (parseexec (Suc (Suc n))) (''('' @ render a @ '')'' @ r) a r"
  using parseexec_block [OF assms(1-3) parseredirs_none [OF assms(3-5)]] by simp

lemma parsepipe_paren:
  assumes "parses_to (parseline n) (render a @ '')'' @ r) a ('')'' @ r)" "renderable a" "skip_space r = r"
    "r = [] \<or> hd r \<noteq> CHR ''<'' \<and> hd r \<noteq> CHR ''>'' \<and> hd r \<noteq> CHR ''|''" "0 < n"
  shows "parses_to (parsepipe (Suc (Suc (Suc n)))) (''('' @ render a @ '')'' @ r) a r"
  using assms by (intro parses_pipe_end parseexec_paren) auto

lemma parseexec_words:
  assumes "renderable (EXEC ws)" "stops r" "4 * length (render (EXEC ws) @ r) + 1 \<le> n"
  shows "parses_to (parseexec (Suc n)) (render (EXEC ws) @ r) (EXEC ws) r"
proof -
  let ?s = "render (EXEC ws) @ r"
  have n: "length ?s < n" "0 < n" using assms(3) by auto
  obtain qs where qs: "parseargs n 0 ?s = Inr ((qs, []), r)" "map word_text qs = ws"
    using parseargs_words [of ws r 0 n] assms n by auto
  have "parseredirs n ?s = Inr ([], ?s)"
    by (rule parseredirs_none [OF render_start(1) [OF assms(1,2)] render_no_redir [OF assms(1,2)] n(2)])
  moreover have "peek ''('' ?s = Inr (False, ?s)"
  proof (cases ws)
    case Nil then show ?thesis using assms(2) by (cases r) (auto simp: stops_def peek_id)
  next
    case (Cons w ws')
    then have "good_name w" using assms(1) by simp
    then show ?thesis
      using render_start(1) [OF assms(1,2)] good_name_hd(2,3) [of w] wordchar_not_symbol(2) [of "hd w"] Cons
      by (auto simp: peek_id)
  qed
  ultimately show ?thesis using qs by (auto simp: parses_to_def p_simps)
qed

lemma parseredirs_one:
  assumes "good_name f" "stops r" "1 < n"
    and op: "(opr, mode, fd) \<in> {(''<'', 0, 0), (''>'', O_WRONLY_CREATE_TRUNC, 1), (''>>'', O_WRONLY_CREATE, 1)}"
  shows "parseredirs n (opr @ f @ r) = Inr ([((f @ r, r), mode, fd)], r)"
proof -
  obtain m where n: "n = Suc m" "0 < m" using assms(3) by (cases n) auto
  have r: "r = [] \<or> \<not> wordchar (hd r)" "r = [] \<or> hd r \<noteq> CHR ''<'' \<and> hd r \<noteq> CHR ''>''" using assms(2) by (auto simp: stops_def)
  have f: "gettoken (f @ r) = Inr ((CHR ''a'', (f @ r, r)), r)"
    using gettoken_word [OF assms(1) r(1)] stops_space [OF assms(2)] by simp
  have sp: "skip_space (f @ r) = f @ r" "hd (f @ r) \<noteq> CHR ''>''"
    using good_name_hd [OF assms(1)] wordchar_not_symbol(7) [of "hd f"] by auto
  have nil: "parseredirs m r = Inr ([], r)" by (rule parseredirs_none [OF stops_space [OF assms(2)] r(2) n(2)])
  have pk: "peek ''<>'' (opr @ f @ r) = Inr (True, opr @ f @ r)" using op by (auto simp: peek_id)
  consider "opr = ''<''" "mode = 0" "fd = 0" | "opr = ''>''" "mode = O_WRONLY_CREATE_TRUNC" "fd = 1"
    | "opr = ''>>''" "mode = O_WRONLY_CREATE" "fd = 1" using op by auto
  then show ?thesis
  proof cases
    case 1
    then show ?thesis using gettoken_symbol [of "CHR ''<''" "f @ r"] sp f nil pk by (simp add: n(1) p_simps)
  next
    case 2
    then show ?thesis using gettoken_greater(1) [of "f @ r"] sp f nil pk by (simp add: n(1) p_simps)
  next
    case 3
    then show ?thesis using gettoken_greater(2) [of "f @ r"] sp f nil pk by (simp add: n(1) p_simps)
  qed
qed

lemma parseline_back:
  assumes "parses_to (parsepipe n) s a (''&'' @ r)" "stops r" "1 < n"
  shows "parses_to (parseline (Suc n)) s (BACK a) r"
proof -
  obtain m where n: "n = Suc (Suc m)" using assms(3) by (cases n; cases "n - 1") auto
  obtain c where c: "parsepipe n s = Inr (c, ''&'' @ r)" "map_cmd word_text c = a" using assms(1) by (auto simp: parses_to_def)
  have "peek ''&'' (''&'' @ r) = Inr (True, ''&'' @ r)" "peek ''&'' r = Inr (False, r)" "peek '';'' r = Inr (False, r)"
    "gettoken (''&'' @ r) = Inr ((CHR ''&'', (''&'' @ r, r)), r)"
    using assms(2) stops_space [OF assms(2)] gettoken_symbol [of "CHR ''&''" r] by (auto simp: peek_id stops_def)
  then have "parseline (Suc n) s = Inr (BACK c, r)" using c(1) by (simp add: n p_simps del: parsepipe.simps)
  then show ?thesis using c(2) by (simp add: parses_to_def)
qed

lemma parseline_list:
  assumes "parses_to (parsepipe n) s a ('';'' @ u)" "parses_to (parseline n) u b r" "skip_space u = u" "0 < n"
  shows "parses_to (parseline (Suc n)) s (LIST a b) r"
proof -
  obtain m where n: "n = Suc m" using assms(4) by (cases n) auto
  obtain c d where c: "parsepipe n s = Inr (c, '';'' @ u)" "map_cmd word_text c = a"
    and d: "parseline n u = Inr (d, r)" "map_cmd word_text d = b" using assms(1,2) by (auto simp: parses_to_def)
  have "peek ''&'' ('';'' @ u) = Inr (False, '';'' @ u)" "peek '';'' ('';'' @ u) = Inr (True, '';'' @ u)"
    "gettoken ('';'' @ u) = Inr ((CHR '';'', ('';'' @ u, u)), u)"
    using assms(3) gettoken_symbol [of "CHR '';''" u] by (auto simp: peek_id)
  moreover have "parseback n c ('';'' @ u) = Inr (c, '';'' @ u)" using calculation by (simp add: n p_simps)
  ultimately have "parseline (Suc n) s = Inr (LIST c d, r)"
    using c(1) d(1) by (subst parseline.simps) (simp add: p_simps)
  then show ?thesis using c(2) d(2) by (simp add: parses_to_def)
qed

lemma parsepipe_pipe:
  assumes "parses_to (parseexec n) s a (''|'' @ u)" "parses_to (parsepipe n) u b r" "skip_space u = u"
  shows "parses_to (parsepipe (Suc n)) s (PIPE a b) r"
proof -
  obtain c d where c: "parseexec n s = Inr (c, ''|'' @ u)" "map_cmd word_text c = a"
    and d: "parsepipe n u = Inr (d, r)" "map_cmd word_text d = b" using assms(1,2) by (auto simp: parses_to_def)
  have "peek ''|'' (''|'' @ u) = Inr (True, ''|'' @ u)" "gettoken (''|'' @ u) = Inr ((CHR ''|'', (''|'' @ u, u)), u)"
    using assms(3) gettoken_symbol [of "CHR ''|''" u] by (auto simp: peek_id)
  then have "parsepipe (Suc n) s = Inr (PIPE c d, r)"
    using c(1) d(1) by (subst parsepipe.simps) (simp add: p_simps)
  then show ?thesis using c(2) d(2) by (simp add: parses_to_def)
qed

declare parseline.simps [simp del] parsepipe.simps [simp del] parseexec.simps [simp del] parseblock.simps [simp del]
  parseredirs.simps [simp del] parseargs.simps [simp del] parseback.simps [simp del]

lemma parseline_render:
  "renderable a \<Longrightarrow> stops r \<Longrightarrow> 4 * length (render a @ r) + 4 \<le> n \<Longrightarrow> parses_to (parseline n) (render a @ r) a r"
proof (induction a arbitrary: r n)
  case (EXEC ws)
  then have "parses_to (parseexec (Suc (n - 3))) (render (EXEC ws) @ r) (EXEC ws) r" by (intro parseexec_words) auto
  then have "parses_to (parsepipe (Suc (Suc (n - 3)))) (render (EXEC ws) @ r) (EXEC ws) r"
    using EXEC.prems(2) by (intro parses_pipe_end) (auto simp: stops_space stops_def)
  then have "parses_to (parseline (Suc (Suc (Suc (n - 3))))) (render (EXEC ws) @ r) (EXEC ws) r"
    using EXEC.prems(2) by (intro parses_line_end) auto
  moreover have "Suc (Suc (Suc (n - 3))) = n" using EXEC.prems(3) by simp
  ultimately show ?case by simp
next
  case (REDIR c f mode fd)
  define opr where "opr = (if mode = 0 then ''<'' else if mode = O_WRONLY_CREATE_TRUNC then ''>'' else ''>>'')"
  have op: "(opr, mode, fd) \<in> {(''<'', 0, 0), (''>'', O_WRONLY_CREATE_TRUNC, 1), (''>>'', O_WRONLY_CREATE, 1)}"
    using REDIR.prems(1) by (auto simp: opr_def O_WRONLY_CREATE_TRUNC_def O_WRONLY_CREATE_def)
  define m where "m = n - 4"
  have n: "n = Suc (Suc (Suc (Suc m)))" "4 * length (render c @ '')'' @ opr @ f @ r) + 4 \<le> m"
    using REDIR.prems(3) by (auto simp: m_def opr_def)
  have c: "parses_to (parseline m) (render c @ '')'' @ opr @ f @ r) c ('')'' @ opr @ f @ r)"
    using REDIR.IH [of "'')'' @ opr @ f @ r" m] REDIR.prems n by (simp add: stops_def)
  have "skip_space (opr @ f @ r) = opr @ f @ r" using op by auto
  from parseexec_block [OF c _ this parseredirs_one [OF _ REDIR.prems(2) _ op]] REDIR.prems n
  have "parses_to (parseexec (Suc (Suc m))) (render (REDIR c f mode fd) @ r) (REDIR c f mode fd) r"
    by (simp add: opr_def)
  then show ?case unfolding n(1)
    using REDIR.prems(2) by (intro parses_line_end parses_pipe_end) (auto simp: stops_space stops_def)
next
  case (BACK c)
  define m where "m = n - 4"
  have n: "n = Suc (Suc (Suc (Suc m)))" "4 * length (render c @ '')'' @ ''&'' @ r) + 4 \<le> m"
    using BACK.prems(3) by (auto simp: m_def)
  have "parses_to (parseline m) (render c @ '')'' @ ''&'' @ r) c ('')'' @ ''&'' @ r)"
    using BACK.IH [of "'')'' @ ''&'' @ r" m] BACK.prems n by (simp add: stops_def)
  then have "parses_to (parsepipe (Suc (Suc (Suc m)))) (''('' @ render c @ '')'' @ ''&'' @ r) c (''&'' @ r)"
    using BACK.prems n by (intro parsepipe_paren) auto
  then show ?case unfolding n(1) using BACK.prems(2) parseline_back by simp
next
  case (LIST a b)
  define m where "m = n - 4"
  let ?u = "''('' @ render b @ '')'' @ r"
  have n: "n = Suc (Suc (Suc (Suc m)))" "4 * length (render a @ '')'' @ '';'' @ ?u) + 4 \<le> m" "4 * length ?u \<le> m"
    using LIST.prems(3) by (auto simp: m_def)
  have "parses_to (parseline m) (render a @ '')'' @ '';'' @ ?u) a ('')'' @ '';'' @ ?u)"
    using LIST.IH(1) [of "'')'' @ '';'' @ ?u" m] LIST.prems n by (simp add: stops_def)
  then have "parses_to (parsepipe (Suc (Suc (Suc m)))) (''('' @ render a @ '')'' @ '';'' @ ?u) a ('';'' @ ?u)"
    using LIST.prems n by (intro parsepipe_paren) auto
  moreover have "parses_to (parseline (m - 1)) (render b @ '')'' @ r) b ('')'' @ r)"
    using LIST.IH(2) [of "'')'' @ r" "m - 1"] LIST.prems n by (simp add: stops_def)
  then have "parses_to (parsepipe (Suc (Suc (Suc (m - 1))))) ?u b r"
    using LIST.prems n by (intro parsepipe_paren) (auto simp: stops_space stops_def)
  then have "parses_to (parseline (Suc (Suc (Suc m)))) ?u b r"
    using parses_line_end [of "Suc (Suc (Suc (m - 1)))" ?u b r] LIST.prems(2) n by simp
  ultimately show ?case unfolding n(1) using parseline_list [of "Suc (Suc (Suc m))"] by simp
next
  case (PIPE a b)
  define m where "m = n - 4"
  let ?u = "''('' @ render b @ '')'' @ r"
  have n: "n = Suc (Suc (Suc (Suc m)))" "4 * length (render a @ '')'' @ ''|'' @ ?u) + 4 \<le> m" "4 * length ?u \<le> m"
    using PIPE.prems(3) by (auto simp: m_def)
  have "parses_to (parseline m) (render a @ '')'' @ ''|'' @ ?u) a ('')'' @ ''|'' @ ?u)"
    using PIPE.IH(1) [of "'')'' @ ''|'' @ ?u" m] PIPE.prems n by (simp add: stops_def)
  then have "parses_to (parseexec (Suc (Suc m))) (''('' @ render a @ '')'' @ ''|'' @ ?u) a (''|'' @ ?u)"
    using PIPE.prems n by (intro parseexec_paren) auto
  moreover have "parses_to (parseline (m - 1)) (render b @ '')'' @ r) b ('')'' @ r)"
    using PIPE.IH(2) [of "'')'' @ r" "m - 1"] PIPE.prems n by (simp add: stops_def)
  then have "parses_to (parsepipe (Suc (Suc (Suc (m - 1))))) ?u b r"
    using PIPE.prems n by (intro parsepipe_paren) (auto simp: stops_space stops_def)
  then have "parses_to (parsepipe (Suc (Suc m))) ?u b r" using n by simp
  ultimately have "parses_to (parsepipe (Suc (Suc (Suc m)))) (render (PIPE a b) @ r) (PIPE a b) r"
    using parsepipe_pipe [of "Suc (Suc m)"] by simp
  then show ?case unfolding n(1) using PIPE.prems(2) by (intro parses_line_end) auto
qed

text \<open>
  C13. Printing and parsing round trip: every command whose words are non-empty and free of
  white space, symbols and zero bytes, with fewer than 10 arguments each, is what the shell
  gets back when it parses the command's text and reads its words from the buffer.
\<close>

theorem parse_render_roundtrip:
  assumes "renderable a"
  shows "\<exists>c buf. parsecmd (render a) = Inr (c, buf) \<and> map_cmd (deref_word buf) c = a"
proof -
  have "nul \<notin> set (render a)" using assms
    by (induction a) (auto simp: good_name_def nul_def O_WRONLY_CREATE_TRUNC_def)
  moreover obtain c where c: "parseline (4 * length (render a) + 4) (render a) = Inr (c, [])" "map_cmd word_text c = a"
    using parseline_render [OF assms, of "[]" "4 * length (render a) + 4"] by (auto simp: parses_to_def stops_def)
  moreover have p: "parsecmd (render a) = Inr (c, nulterminate c (render a @ [nul]))"
    using c(1) by (simp add: parsecmd_def peek_def)
  ultimately have "map_cmd (deref_word (nulterminate c (render a @ [nul]))) c = map_cmd word_text c"
    by (intro cmd.map_cong0 deref_parsed_word [OF p]) auto
  with p c(2) show ?thesis by simp
qed

theorem parse_render_roundtrip_witness:
  "\<exists>c buf. parsecmd (render (PIPE (EXEC [''ls'']) (BACK (REDIR (EXEC [''wc'', ''-l'']) ''out'' 0x601 1)))) = Inr (c, buf) \<and>
     map_cmd (deref_word buf) c = PIPE (EXEC [''ls'']) (BACK (REDIR (EXEC [''wc'', ''-l'']) ''out'' 0x601 1))"
  by (rule parse_render_roundtrip)
    (simp add: MAXARGS_def good_name_def wordchar_def whitespace_def symbols_def nul_def O_WRONLY_CREATE_TRUNC_def)

section \<open>A command that runs does not return\<close>

text \<open>The program exits with 0 or 1 or is replaced.\<close>

definition ends :: "('w, 'a) prog \<Rightarrow> bool" where
  "ends m \<longleftrightarrow> (\<forall>w. fst (m w) \<in> {Exited 0, Exited 1, Replaced})"

text \<open>The program may also return.\<close>

definition proceeds :: "('w, 'a) prog \<Rightarrow> bool" where
  "proceeds m \<longleftrightarrow> (\<forall>w. fst (m w) \<noteq> Stuck \<and> (\<forall>n. fst (m w) = Exited n \<longrightarrow> n = 0 \<or> n = 1))"

named_theorems ends_intros \<open>how programs end\<close>

lemma ends_exit [ends_intros]: "ends (uexit 0)" "ends (uexit 1)"
  by (simp_all add: ends_def uexit_def)

lemma ends_proceeds: "ends m \<Longrightarrow> proceeds m"
  by (auto simp: ends_def proceeds_def) (metis insertE singletonD outcome.distinct outcome.inject)+

lemma ends_bind [ends_intros]: "proceeds m \<Longrightarrow> (\<And>x. ends (f x)) \<Longrightarrow> ends (ubind m f)"
  unfolding ends_def proceeds_def ubind_def
  by (auto split: outcome.splits prod.splits) (metis fst_conv insertE singletonD outcome.distinct)+

lemma ends_seq [ends_intros]: "proceeds m \<Longrightarrow> ends n \<Longrightarrow> ends (useq m n)"
  unfolding useq_def by (rule ends_bind)

lemma ends_split [ends_intros]:
  "ends m \<Longrightarrow> ends n \<Longrightarrow> ends (if b then m else n)"
  "ends m \<Longrightarrow> (\<And>x y. ends (f x y)) \<Longrightarrow> ends (case z of None \<Rightarrow> m | Some (x, y) \<Rightarrow> f x y)"
  by (auto split: option.splits)

lemma proceeds_ret [ends_intros]: "proceeds (uret x)" "proceeds (ucall f)"
  by (auto simp: proceeds_def uret_def ucall_def split: prod.splits)

lemma proceeds_bind: "proceeds m \<Longrightarrow> (\<And>x. proceeds (f x)) \<Longrightarrow> proceeds (ubind m f)"
  unfolding proceeds_def ubind_def by (auto split: outcome.splits prod.splits) (metis fst_conv)+

lemma proceeds_seq: "proceeds m \<Longrightarrow> proceeds n \<Longrightarrow> proceeds (useq m n)"
  unfolding useq_def by (rule proceeds_bind)

lemma proceeds_when [ends_intros]: "ends m \<Longrightarrow> proceeds (uwhen b m)"
  by (simp add: uwhen_def proceeds_ret ends_proceeds)

lemma proceeds_exec [ends_intros]: "proceeds (uexec k path args)"
  by (auto simp: proceeds_def uexec_def split: prod.splits)

lemma proceeds_putc: "proceeds (putc k fd c)" "proceeds (ufor s (putc k fd))"
proof -
  show c: "proceeds (putc k fd c)" for c by (simp add: putc_def proceeds_seq proceeds_ret)
  show "proceeds (ufor s (putc k fd))" by (induction s) (simp_all add: c proceeds_seq proceeds_ret)
qed

lemma proceeds_conv: "conv_text c0 cv ap = Some x \<Longrightarrow> proceeds (emit_conv k fd c0 cv ap)"
  by (auto simp: emit_conv_def conv_text_def printint_def printptr_def
    intro!: proceeds_seq proceeds_ret proceeds_putc split: conv.splits list.splits varg.splits)

lemma emit_conv_rest:
  "conv_text c0 cv ap = Some (t, ap') \<Longrightarrow> emit_conv k fd c0 cv ap w = (Ret r, v) \<Longrightarrow> r = ap'"
  by (auto simp: emit_conv_def conv_text_def u_simps split: conv.splits list.splits varg.splits prod.splits outcome.splits)

lemma proceeds_printf: "format_text pct fmt ap = Some t \<Longrightarrow> proceeds (vprintf_loop k fd pct fmt ap)"
proof (induction k fd pct fmt ap arbitrary: t rule: vprintf_loop.induct)
  case (2 k fd c0 fmt ap)
  then show ?case by (auto intro!: proceeds_seq proceeds_putc split: if_splits)
next
  case (3 k fd c0 fmt ap)
  obtain cv more where c: "conversion c0 (char_at fmt 0) (if char_at fmt 0 = nul then nul else char_at fmt 1) = (cv, more)"
    by fastforce
  with 3(2) obtain u ap' v where u: "conv_text c0 cv ap = Some (u, ap')" "format_text False (drop more fmt) ap' = Some v"
    by (auto simp: Let_def split: option.splits)
  have "proceeds (vprintf_loop k fd False (drop more fmt) ap')" using 3(1) [OF refl refl c [symmetric] refl] u(2) by simp
  with proceeds_conv [OF u(1), of k fd] emit_conv_rest [OF u(1), of k fd]
  have "proceeds (ubind (emit_conv k fd c0 cv ap) (vprintf_loop k fd False (drop more fmt)))"
    unfolding proceeds_def ubind_def by (auto split: outcome.splits prod.splits) (metis fst_conv)+
  then show ?case using c by (simp add: Let_def)
qed (simp add: proceeds_ret)

lemma proceeds_fprintf: "format_text False fmt ap = Some t \<Longrightarrow> proceeds (fprintf k fd fmt ap)"
  unfolding fprintf_def vprintf_def by (rule proceeds_printf)

lemma proceeds_messages [ends_intros]:
  "proceeds (fprintf k fd (''exec %s failed'' @ [CHR 0x0A]) [VStr (Some s)])"
  "proceeds (fprintf k fd (''open %s failed'' @ [CHR 0x0A]) [VStr (Some s)])"
  "proceeds (fprintf k fd (''%s'' @ [CHR 0x0A]) [VStr (Some s)])"
proof -
  have "\<exists>t. format_text False fmt [VStr (Some s)] = Some t"
    if "fmt \<in> {''exec %s failed'' @ [CHR 0x0A], ''open %s failed'' @ [CHR 0x0A], ''%s'' @ [CHR 0x0A]}" for fmt
    using that by (auto simp: conversion_def conv_text_def Let_def)
  then show "proceeds (fprintf k fd (''exec %s failed'' @ [CHR 0x0A]) [VStr (Some s)])"
    "proceeds (fprintf k fd (''open %s failed'' @ [CHR 0x0A]) [VStr (Some s)])"
    "proceeds (fprintf k fd (''%s'' @ [CHR 0x0A]) [VStr (Some s)])" by (blast intro: proceeds_fprintf)+
qed

lemma ends_panic [ends_intros]: "ends (sh_panic k s)"
  unfolding sh_panic_def by (intro ends_intros)

lemma proceeds_fork1 [ends_intros]: "proceeds (fork1 k)"
  unfolding fork1_def by (intro proceeds_bind proceeds_ret) (simp add: proceeds_ret ends_proceeds ends_panic)

text \<open>
  C31. \<^verbatim>\<open>runcmd\<close> never returns, as its declaration (\<open>noreturn\<close>) promises: whatever the command
  and whatever the system calls answer, every process that runs it exits with status 0 or 1 or is
  replaced by a program; so the shell's child never goes on to read commands itself.
\<close>

theorem runcmd_noreturn: "fst (runcmd k c w) \<in> {Exited 0, Exited 1, Replaced}"
proof -
  have "ends (runcmd k c)"
  proof (induction c)
    case (EXEC argv) show ?case unfolding runcmd.simps by (intro ends_intros)
  next
    case (REDIR c f mode fd) with ends_proceeds [OF REDIR] show ?case unfolding runcmd.simps by (intro ends_intros)
  next
    case (PIPE l r) then show ?case unfolding runcmd.simps by (intro ends_intros)
  next
    case (LIST l r) with ends_proceeds [OF LIST(2)] show ?case unfolding runcmd.simps by (intro ends_intros)
  next
    case (BACK c) then show ?case unfolding runcmd.simps by (intro ends_intros)
  qed
  then show ?thesis by (simp add: ends_def)
qed

end
