(* ===== verification/Xv6_Utils.thy ===== *)
theory Xv6_Utils
  imports Xv6_User
begin

text \<open>
  The small user programs: \<^verbatim>\<open>cat\<close>, \<^verbatim>\<open>echo\<close>, \<^verbatim>\<open>wc\<close>, \<^verbatim>\<open>ls\<close>, \<^verbatim>\<open>kill\<close>, \<^verbatim>\<open>ln\<close>,
  \<^verbatim>\<open>rm\<close>, \<^verbatim>\<open>mkdir\<close>, \<^verbatim>\<open>settickets\<close>, \<^verbatim>\<open>lotterytest\<close>, \<^verbatim>\<open>zombie\<close> and \<^verbatim>\<open>init\<close>. The first argument of a
  program with a loop around a system call bounds its rounds; \<open>argv\<close> has \<^verbatim>\<open>argc\<close> entries.
\<close>

abbreviation newline :: char where "newline \<equiv> CHR 0x0A"

section \<open>cat.c\<close>

definition cat_round :: "'w usys \<Rightarrow> int \<Rightarrow> unit \<Rightarrow> ('w, unit + unit) prog" where
  "cat_round k fd u =
     ubind (ucall (u_read k fd 512)) (\<lambda>r. case r of
       None \<Rightarrow> useq (fprintf k 2 (''cat: read error'' @ [newline]) []) (uexit 1)
     | Some buf \<Rightarrow>
         if buf = [] then uret (Inr ()) else
         ubind (ucall (u_write k 1 buf)) (\<lambda>n.
         if n \<noteq> int (length buf) then useq (fprintf k 2 (''cat: write error'' @ [newline]) []) (uexit 1)
         else uret (Inl ())))"

definition cat :: "nat \<Rightarrow> 'w usys \<Rightarrow> int \<Rightarrow> ('w, unit) prog" where
  "cat fuel k fd = uloop fuel (cat_round k fd) ()"

definition cat_main :: "nat \<Rightarrow> 'w usys \<Rightarrow> string list \<Rightarrow> ('w, unit) prog" where
  "cat_main fuel k argv =
     (if length argv \<le> 1 then useq (cat fuel k 0) (uexit 0) else
      useq (ufor (drop 1 argv) (\<lambda>a.
        ubind (ucall (u_open k a 0)) (\<lambda>fd.
        if fd < 0 then useq (fprintf k 2 (''cat: cannot open %s'' @ [newline]) [VStr (Some a)]) (uexit 1) else
        useq (cat fuel k fd) (
        useq (ucall (u_close k fd)) (uret ())))))
      (uexit 0))"

section \<open>echo.c\<close>

fun echo_args :: "'w usys \<Rightarrow> string list \<Rightarrow> ('w, unit) prog" where
  "echo_args k [] = uret ()"
| "echo_args k (a # as) =
     useq (ucall (u_write k 1 (take (strlen_u a) a))) (
     useq (ucall (u_write k 1 (if as \<noteq> [] then '' '' else [newline]))) (
     echo_args k as))"

definition echo_main :: "'w usys \<Rightarrow> string list \<Rightarrow> ('w, unit) prog" where
  "echo_main k argv = useq (echo_args k (drop 1 argv)) (uexit 0)"

section \<open>wc.c\<close>

definition wc_space :: "char \<Rightarrow> bool" where
  "wc_space b \<longleftrightarrow> strchr [CHR '' '', CHR 0x0D, CHR 0x09, CHR 0x0A, CHR 0x0B] b \<noteq> None"

text \<open>The counters \<^verbatim>\<open>l\<close>, \<^verbatim>\<open>w\<close>, \<^verbatim>\<open>c\<close> and \<^verbatim>\<open>inword\<close>.\<close>

fun wc_byte :: "char \<Rightarrow> cint \<times> cint \<times> cint \<times> bool \<Rightarrow> cint \<times> cint \<times> cint \<times> bool" where
  "wc_byte b (l, w, c, inword) =
     (let c = c + 1; l = (if b = newline then l + 1 else l) in
      if wc_space b then (l, w, c, False)
      else if \<not> inword then (l, w + 1, c, True)
      else (l, w, c, inword))"

definition wc_round :: "'w usys \<Rightarrow> int \<Rightarrow> cint \<times> cint \<times> cint \<times> bool \<Rightarrow>
    ('w, (cint \<times> cint \<times> cint \<times> bool) + (cint \<times> cint \<times> cint)) prog" where
  "wc_round k fd cs =
     ubind (ucall (u_read k fd 512)) (\<lambda>r. case r of
       None \<Rightarrow> useq (printf k (''wc: read error'' @ [newline]) []) (uexit 1)
     | Some buf \<Rightarrow>
         if buf = [] then uret (Inr (case cs of (l, w, c, inword) \<Rightarrow> (l, w, c)))
         else uret (Inl (fold wc_byte buf cs)))"

definition wc :: "nat \<Rightarrow> 'w usys \<Rightarrow> int \<Rightarrow> string \<Rightarrow> ('w, unit) prog" where
  "wc fuel k fd nm =
     ubind (uloop fuel (wc_round k fd) (0, 0, 0, False)) (\<lambda>(l, w, c).
     printf k (''%d %d %d %s'' @ [newline]) [VInt (scast l), VInt (scast w), VInt (scast c), VStr (Some nm)])"

definition wc_main :: "nat \<Rightarrow> 'w usys \<Rightarrow> string list \<Rightarrow> ('w, unit) prog" where
  "wc_main fuel k argv =
     (if length argv \<le> 1 then useq (wc fuel k 0 '''') (uexit 0) else
      useq (ufor (drop 1 argv) (\<lambda>a.
        ubind (ucall (u_open k a 0)) (\<lambda>fd.
        if fd < 0 then useq (printf k (''wc: cannot open %s'' @ [newline]) [VStr (Some a)]) (uexit 1) else
        useq (wc fuel k fd a) (
        useq (ucall (u_close k fd)) (uret ())))))
      (uexit 0))"

section \<open>ls.c\<close>

text \<open>A name of fewer than \<^verbatim>\<open>DIRSIZ\<close> characters is padded with blanks.\<close>

definition fmtname :: "string \<Rightarrow> string" where
  "fmtname path =
     (let p = rev (takeWhile (\<lambda>c. c \<noteq> CHR ''/'') (rev path)) in
      if strlen_u p \<ge> 14 then p else p @ replicate (14 - strlen_u p) CHR '' '')"

definition ls_line :: "'w usys \<Rightarrow> string \<Rightarrow> ustat \<Rightarrow> ('w, unit) prog" where
  "ls_line k path st = printf k (''%s %d %d %d'' @ [newline])
     [VStr (Some (fmtname path)), VInt (of_int (us_type st)), VInt (of_nat (us_ino st)), VInt (of_nat (us_size st))]"

text \<open>An entry of the directory: two bytes of inode number and the name.\<close>

definition ls_entry :: "nat \<Rightarrow> 'w usys \<Rightarrow> int \<Rightarrow> string \<Rightarrow> unit \<Rightarrow> ('w, unit + unit) prog" where
  "ls_entry fuel k fd path u =
     ubind (ucall (u_read k fd 16)) (\<lambda>r. case r of
       None \<Rightarrow> uret (Inr ())
     | Some de \<Rightarrow>
         if length de \<noteq> 16 then uret (Inr ()) else
         if of_char (de ! 0) + 256 * of_char (de ! 1) = (0 :: nat) then uret (Inl ()) else
         let buf = path @ ''/'' @ cstring (drop 2 de) in
         ubind (ustat_path k buf) (\<lambda>st. case st of
           None \<Rightarrow> useq (printf k (''ls: cannot stat %s'' @ [newline]) [VStr (Some buf)]) (uret (Inl ()))
         | Some st \<Rightarrow> useq (ls_line k buf st) (uret (Inl ()))))"

definition ls :: "nat \<Rightarrow> 'w usys \<Rightarrow> string \<Rightarrow> ('w, unit) prog" where
  "ls fuel k path =
     ubind (ucall (u_open k path 0)) (\<lambda>fd.
     if fd < 0 then fprintf k 2 (''ls: cannot open %s'' @ [newline]) [VStr (Some path)] else
     ubind (ucall (u_fstat k fd)) (\<lambda>r. case r of
       None \<Rightarrow> useq (fprintf k 2 (''ls: cannot stat %s'' @ [newline]) [VStr (Some path)])
                (useq (ucall (u_close k fd)) (uret ()))
     | Some st \<Rightarrow>
         useq (if us_type st = 3 \<or> us_type st = 2 then ls_line k path st
               else if us_type st = 1 then
                 (if strlen_u path + 1 + 14 + 1 > 512 then printf k (''ls: path too long'' @ [newline]) []
                  else uloop fuel (ls_entry fuel k fd path) ())
               else uret ())
           (useq (ucall (u_close k fd)) (uret ()))))"

definition ls_main :: "nat \<Rightarrow> 'w usys \<Rightarrow> string list \<Rightarrow> ('w, unit) prog" where
  "ls_main fuel k argv =
     (if length argv < 2 then useq (ls fuel k ''.'') (uexit 0)
      else useq (ufor (drop 1 argv) (ls fuel k)) (uexit 0))"

section \<open>kill.c, ln.c, rm.c, mkdir.c, settickets.c\<close>

definition kill_main :: "'w usys \<Rightarrow> string list \<Rightarrow> ('w, unit) prog" where
  "kill_main k argv =
     (if length argv < 2 then useq (fprintf k 2 (''usage: kill pid...'' @ [newline]) []) (uexit 1)
      else useq (ufor (drop 1 argv) (\<lambda>a. useq (ucall (u_kill k (atoi a))) (uret ()))) (uexit 0))"

definition ln_main :: "'w usys \<Rightarrow> string list \<Rightarrow> ('w, unit) prog" where
  "ln_main k argv =
     (if length argv \<noteq> 3 then useq (fprintf k 2 (''Usage: ln old new'' @ [newline]) []) (uexit 1) else
      ubind (ucall (u_link k (argv ! 1) (argv ! 2))) (\<lambda>r.
      useq (uwhen (r < 0) (fprintf k 2 (''link %s %s: failed'' @ [newline]) [VStr (Some (argv ! 1)), VStr (Some (argv ! 2))]))
      (uexit 0)))"

fun until_failure :: "(string \<Rightarrow> 'w \<Rightarrow> int \<times> 'w) \<Rightarrow> (string \<Rightarrow> ('w, unit) prog) \<Rightarrow> string list \<Rightarrow> ('w, unit) prog" where
  "until_failure call failed [] = uret ()"
| "until_failure call failed (a # as) =
     ubind (ucall (call a)) (\<lambda>r. if r < 0 then failed a else until_failure call failed as)"

definition rm_main :: "'w usys \<Rightarrow> string list \<Rightarrow> ('w, unit) prog" where
  "rm_main k argv =
     (if length argv < 2 then useq (fprintf k 2 (''Usage: rm files...'' @ [newline]) []) (uexit 1)
      else useq (until_failure (u_unlink k)
        (\<lambda>a. fprintf k 2 (''rm: %s failed to delete'' @ [newline]) [VStr (Some a)]) (drop 1 argv)) (uexit 0))"

definition mkdir_main :: "'w usys \<Rightarrow> string list \<Rightarrow> ('w, unit) prog" where
  "mkdir_main k argv =
     (if length argv < 2 then useq (fprintf k 2 (''Usage: mkdir files...'' @ [newline]) []) (uexit 1)
      else useq (until_failure (u_mkdir k)
        (\<lambda>a. fprintf k 2 (''mkdir: %s failed to create'' @ [newline]) [VStr (Some a)]) (drop 1 argv)) (uexit 0))"

definition settickets_main :: "'w usys \<Rightarrow> string list \<Rightarrow> ('w, unit) prog" where
  "settickets_main k argv =
     (if length argv \<noteq> 2 then useq (printf k (''Usage: settickets <num>'' @ [newline]) []) (uexit 1)
      else useq (ucall (u_settickets k (atoi (argv ! 1)))) (uexit 0))"

section \<open>lotterytest.c, zombie.c\<close>

definition RUN_TIME :: nat where "RUN_TIME = 100000000"

definition cpu_bound_task :: "'w usys \<Rightarrow> nat \<Rightarrow> nat \<Rightarrow> ('w, unit) prog" where
  "cpu_bound_task k task tickets =
     useq (ucall (u_settickets k (of_nat tickets))) (
     useq (ufor [0..<RUN_TIME] (\<lambda>i. uwhen (i mod 10000000 = 0)
       (printf k (''[proc %d, tickets %d] progress: %d'' @ [newline])
         [VInt (of_nat task), VInt (of_nat tickets), VInt (of_nat i)]))) (
     useq (printf k (''[proc %d, tickets %d] DONE'' @ [newline]) [VInt (of_nat task), VInt (of_nat tickets)]) (
     uexit 0)))"

definition lotterytest_main :: "'w usys \<Rightarrow> ('w, unit) prog" where
  "lotterytest_main k =
     useq (printf k (''Starting lottery scheduling test...'' @ [newline]) []) (
     useq (ufor [0..<3] (\<lambda>i. ubind (ucall (u_fork k)) (\<lambda>pid.
       uwhen (pid = 0) (cpu_bound_task k (i + 1) ([10, 30, 90] ! i))))) (
     useq (ufor [0..<3] (\<lambda>i :: nat. useq (ucall (u_wait k)) (uret ()))) (
     useq (printf k (''Lottery scheduling test finished.'' @ [newline]) []) (
     uexit 0))))"

definition zombie_main :: "'w usys \<Rightarrow> ('w, unit) prog" where
  "zombie_main k =
     ubind (ucall (u_fork k)) (\<lambda>pid.
     useq (if pid > 0 then useq (ucall (u_sleep k 5)) (uret ()) else uret ()) (
     uexit 0))"

section \<open>init.c\<close>

text \<open>A round of the inner loop, which waits for the shell to exit.\<close>

definition wait_round :: "'w usys \<Rightarrow> int \<Rightarrow> unit \<Rightarrow> ('w, unit + unit) prog" where
  "wait_round k pid u =
     ubind (ucall (u_wait k)) (\<lambda>wpid.
     if wpid = pid then uret (Inr ())
     else if wpid < 0 then useq (printf k (''init: wait returned an error'' @ [newline]) []) (uexit 1)
     else uret (Inl ()))"

definition init_round :: "nat \<Rightarrow> 'w usys \<Rightarrow> unit \<Rightarrow> ('w, unit + unit) prog" where
  "init_round fuel k u =
     useq (printf k (''init: starting sh'' @ [newline]) []) (
     ubind (ucall (u_fork k)) (\<lambda>pid.
     if pid < 0 then useq (printf k (''init: fork failed'' @ [newline]) []) (uexit 1) else
     useq (uwhen (pid = 0)
       (useq (uexec k ''sh'' [''sh'']) (
        useq (printf k (''init: exec sh failed'' @ [newline]) []) (uexit 1)))) (
     useq (uloop fuel (wait_round k pid) ()) (
     uret (Inl ())))))"

text \<open>\<open>stale\<close> is what the 16 bytes of \<^verbatim>\<open>buf\<close> on the stack hold before the read.\<close>

definition init_choice :: "'w usys \<Rightarrow> string \<Rightarrow> ('w, unit) prog" where
  "init_choice k stale =
     useq (printf k ''Which scheduler do you want to use? [RR / Lottery]: '' []) (
     ubind (ucall (u_read k 0 16)) (\<lambda>r.
     let buf = (case r of None \<Rightarrow> stale | Some bs \<Rightarrow> bs @ drop (length bs) stale) in
     if strncmp_u (cstring buf) ''Lottery'' 7 = 0 \<or> strncmp_u (cstring buf) ''lottery'' 7 = 0
     then useq (ucall (u_setsched k 1)) (uret ())
     else useq (ucall (u_setsched k 0)) (uret ())))"

definition init_main :: "nat \<Rightarrow> 'w usys \<Rightarrow> string \<Rightarrow> ('w, unit) prog" where
  "init_main fuel k stale =
     ubind (ucall (u_open k ''console'' 2)) (\<lambda>fd.
     useq (if fd < 0 then useq (ucall (u_mknod k ''console'' 1 0)) (useq (ucall (u_open k ''console'' 2)) (uret ()))
           else uret ()) (
     useq (ucall (u_dup k 0)) (
     useq (ucall (u_dup k 0)) (
     useq (init_choice k stale) (
     uloop fuel (init_round fuel k) ())))))"

section \<open>What they write\<close>

text \<open>
  C35. \<^verbatim>\<open>cat\<close> copies its input to the standard output: however the reads cut the input into
  pieces, it returns after at most one round per byte, having written exactly the input.
\<close>

theorem cat_copies:
  assumes k: "streams k fd inp out"
  shows "\<exists>v. cat (Suc (length (inp w))) k fd w = (Ret (), v) \<and> out v = out w @ inp w"
proof -
  have "\<exists>v. uloop fuel (cat_round k fd) () w = (Ret (), v) \<and> out v = out w @ inp w" if "length (inp w) < fuel" for fuel w
    using that
  proof (induction fuel arbitrary: w)
    case (Suc fuel)
    obtain bs v where r: "u_read k fd 512 w = (Some bs, v)" "out v = out w" "inp w = bs @ inp v" "bs = [] \<Longrightarrow> inp w = []"
      using streams_read [OF k, of 512 w] by (metis zero_less_numeral)
    show ?case
    proof (cases "bs = []")
      case True with r show ?thesis by (simp add: cat_round_def u_simps)
    next
      case False
      obtain v' where v': "u_write k 1 bs v = (int (length bs), v')" "out v' = out v @ bs" "inp v' = inp v"
        by (rule streams_write [OF k])
      have "cat_round k fd () w = (Ret (Inl ()), v')"
        using r v' False by (simp add: cat_round_def u_simps)
      moreover have "length (inp v') < fuel" using Suc.prems r(3) v'(3) False by (cases bs) auto
      note Suc.IH [OF this]
      ultimately show ?thesis using r v' by (auto simp: u_simps)
    qed
  qed simp
  then show ?thesis unfolding cat_def by blast
qed

theorem cat_copies_witness:
  "\<exists>v. cat 23 demo_io 0 (''The quick brown fox...'', ''>'') = (Ret (), v) \<and> snd v = ''>The quick brown fox...''"
  using cat_copies [OF demo_io_streams, of "(''The quick brown fox...'', ''>'')" 0] by (simp add: eval_nat_numeral)

lemma echo_args_writes:
  assumes "takes_all k 1 out"
  shows "\<exists>v. echo_args k args w = (Ret (), v) \<and>
    out v = out w @ concat (map (\<lambda>i. args ! i @ (if Suc i < length args then '' '' else [newline])) [0..<length args])"
proof (induction args arbitrary: w)
  case (Cons a args)
  have len: "strlen_u s = length s" for s by (induction s) auto
  obtain v where v: "u_write k 1 a w = (int (length a), v)" "out v = out w @ a"
    using assms unfolding takes_all_def by (metis (mono_tags, lifting) case_prod_beta prod.collapse)
  obtain v' where v': "u_write k 1 (if args \<noteq> [] then '' '' else [newline]) v = (1, v')"
      "out v' = out v @ (if args \<noteq> [] then '' '' else [newline])"
    using assms unfolding takes_all_def
    by (smt (verit) case_prod_beta prod.collapse One_nat_def length_Cons list.size(3) of_nat_1)
  have "[0..<length (a # args)] = 0 # map Suc [0..<length args]" by (simp add: upt_conv_Cons map_Suc_upt del: upt_Suc)
  then have "concat (map (\<lambda>i. (a # args) ! i @ (if Suc i < length (a # args) then '' '' else [newline])) [0..<length (a # args)])
    = a @ (if args \<noteq> [] then '' '' else [newline]) @
      concat (map (\<lambda>i. args ! i @ (if Suc i < length args then '' '' else [newline])) [0..<length args])"
    by (simp add: o_def del: upt_Suc)
  with Cons.IH [of v'] v v' show ?case by (auto simp: u_simps len)
qed (simp add: u_simps)

text \<open>Words: a word starts at a byte that is no space and that no such byte precedes.\<close>

definition word_starts :: "string \<Rightarrow> nat" where
  "word_starts s = length (filter (\<lambda>i. \<not> wc_space (s ! i) \<and> (i = 0 \<or> wc_space (s ! (i - 1)))) [0..<length s])"

lemma word_starts_snoc:
  "word_starts (s @ [b]) = word_starts s + (if \<not> wc_space b \<and> (s = [] \<or> wc_space (last s)) then 1 else 0)"
proof -
  let ?P = "\<lambda>s i. \<not> wc_space (s ! i) \<and> (i = 0 \<or> wc_space (s ! (i - 1)))"
  have "filter (?P (s @ [b])) [0..<length s] = filter (?P s) [0..<length s]"
    by (rule filter_cong) (auto simp: nth_append)
  moreover have "?P (s @ [b]) (length s) \<longleftrightarrow> \<not> wc_space b \<and> (s = [] \<or> wc_space (last s))"
    by (cases "s = []") (simp_all add: nth_append last_conv_nth)
  ultimately show ?thesis unfolding word_starts_def length_append_singleton upt_Suc_append [OF le0] filter_append by simp
qed

definition wc_counts :: "string \<Rightarrow> cint \<times> cint \<times> cint \<times> bool" where
  "wc_counts s = (of_nat (length (filter (\<lambda>b. b = newline) s)), of_nat (word_starts s), of_nat (length s),
     s \<noteq> [] \<and> \<not> wc_space (last s))"

lemma wc_byte_counts: "wc_byte b (wc_counts s) = wc_counts (s @ [b])"
  by (auto simp: wc_counts_def word_starts_snoc Let_def)

lemma wc_bytes_counts: "fold wc_byte bs (wc_counts s) = wc_counts (s @ bs)"
  by (induction bs arbitrary: s) (simp_all add: wc_byte_counts)

lemma wc_loop_counts:
  assumes k: "streams k fd inp out" and "length (inp w) < fuel"
  shows "\<exists>v. uloop fuel (wc_round k fd) (wc_counts s) w =
    (Ret (case wc_counts (s @ inp w) of (l, n, c, inword) \<Rightarrow> (l, n, c)), v) \<and> out v = out w"
  using assms(2)
proof (induction fuel arbitrary: s w)
  case (Suc fuel)
  obtain bs v where r: "u_read k fd 512 w = (Some bs, v)" "out v = out w" "inp w = bs @ inp v" "bs = [] \<Longrightarrow> inp w = []"
    using streams_read [OF k, of 512 w] by (metis zero_less_numeral)
  show ?case
  proof (cases "bs = []")
    case True with r show ?thesis by (simp add: wc_round_def u_simps)
  next
    case False
    have "wc_round k fd (wc_counts s) w = (Ret (Inl (wc_counts (s @ bs))), v)"
      using r False by (simp add: wc_round_def u_simps wc_bytes_counts)
    moreover have "length (inp v) < fuel" using Suc.prems r(3) False by (cases bs) auto
    note Suc.IH [OF this, of "s @ bs"]
    ultimately show ?thesis using r by (auto simp: u_simps)
  qed
qed simp

text \<open>
  C34. \<^verbatim>\<open>wc\<close> counts: however the reads cut the input into pieces, it returns after at most
  one round per byte and prints the number of newlines, of words (maximal runs of bytes that
  are no white space) and of bytes of the input, as 32-bit numbers, and the name it was given.
\<close>

theorem wc_prints_counts:
  assumes k: "streams k fd inp out"
  shows "\<exists>v t. wc (Suc (length (inp w))) k fd nm w = (Ret (), v) \<and> out v = out w @ t \<and>
    format_text False (''%d %d %d %s'' @ [newline])
      [VInt (scast (of_nat (length (filter (\<lambda>b. b = newline) (inp w))) :: cint)),
       VInt (scast (of_nat (word_starts (inp w)) :: cint)),
       VInt (scast (of_nat (length (inp w)) :: cint)), VStr (Some nm)] = Some t"
proof -
  let ?args = "[VInt (scast (of_nat (length (filter (\<lambda>b. b = newline) (inp w))) :: cint)),
       VInt (scast (of_nat (word_starts (inp w)) :: cint)),
       VInt (scast (of_nat (length (inp w)) :: cint)), VStr (Some nm)]"
  let ?fmt = "''%d %d %d %s'' @ [newline]"
  have "wc_counts [] = (0, 0, 0, False)" by (simp add: wc_counts_def word_starts_def)
  with wc_loop_counts [OF k, of w "Suc (length (inp w))" "[]"] obtain v where v: "out v = out w"
    "uloop (Suc (length (inp w))) (wc_round k fd) (0, 0, 0, False) w = (Ret (case wc_counts (inp w) of (l, n, c, inword) \<Rightarrow> (l, n, c)), v)"
    by auto
  obtain t where t: "format_text False ?fmt ?args = Some t"
    by (simp add: conversion_def conv_text_def Let_def char_at_def nul_def)
  have "takes_all k 1 out" using k by (simp add: streams_def)
  from printf_writes [OF this t] obtain v' where "printf k ?fmt ?args v = (Ret (), v')" "out v' = out v @ t"
    unfolding writes_def by blast
  with v t show ?thesis unfolding wc_def wc_counts_def by (auto simp: ubind_def)
qed

theorem wc_prints_counts_witness:
  "\<exists>v t. wc 14 demo_io 0 ''README'' (''to be'' @ [newline] @ '' or not'', []) = (Ret (), v) \<and> snd v = t \<and>
    format_text False (''%d %d %d %s'' @ [newline]) [VInt 1, VInt 4, VInt 13, VStr (Some ''README'')] = Some t"
proof -
  have "word_starts (''to be'' @ [newline] @ '' or not'') = 4"
    by (simp add: word_starts_def wc_space_def upt_conv_Cons)
  then show ?thesis
    using wc_prints_counts [OF demo_io_streams, of "(''to be'' @ [newline] @ '' or not'', [])" 0 "''README''"]
    by (simp add: eval_nat_numeral)
qed

end
