(* ===== verification/Spec2Isabelle.thy ===== *)
theory Spec2Isabelle
  imports Xv6_Trap Xv6_Scheduler Xv6_Sleeplock Xv6_Usercopy Xv6_Crash Xv6_Files Xv6_Layout Xv6_Grep Xv6_Sh Xv6_Utils
begin

text \<open>
  A verification library for the xv6-riscv kernel with a lottery scheduler, its user programs and
  the program that builds its disk image. Every theory translates files of \<^verbatim>\<open>src/\<close> function by
  function, keeps the names of the source (a suffix is added where HOL or the kernel already has
  the name: \<open>strlen_u\<close>, \<open>mkfs_balloc\<close>, \<open>sh_main\<close>) and proves lemmas about the translation.

  \<^bold>\<open>The kernel.\<close> A kernel function is a value of type \<open>('s, 'a) kf\<close>: from a state to the result and
  the new state, or to the reason it does not return (\<open>Panic\<close>, \<open>Spin\<close>, \<open>Asleep\<close>). The state is a
  record that each component extends: the CPUs and spin locks (\<open>mach\<close>), physical memory and the
  free list (\<open>kmem\<close>), the page tables' state (\<open>vm\<close>), the process table (\<open>procs\<close>), sleep locks
  (\<open>slocks\<close>), the buffer cache (\<open>bcache\<close>), the disk driver (\<open>vdisk\<close>), the log (\<open>log\<close>), the inode
  table (\<open>itable\<close>), \<open>uart\<close>, \<open>cons\<close>, the file table (\<open>ftable\<close>) and the trap state (\<open>trap\<close>). A function
  is polymorphic in the part of the state that later components add, so that a lemma proved for
  the allocator holds in the state of the whole kernel. A function runs on the CPU whose number
  is in the state; when it gives the CPU up (\<open>sleep\<close>, \<open>yield\<close>) what the rest of the machine does is an
  argument, the environment \<open>e\<close> (\<open>others e ch\<close> while asleep on \<open>ch\<close>; \<open>rounds e\<close> bounds how often a
  sleeper goes back to sleep, after which it counts as \<open>Asleep\<close>). Loops over a table are
  folds (\<open>kfor\<close>, \<open>kfind\<close>); a loop with no bound in the source is \<open>kloop fuel\<close>, with the reason why the
  fuel is enough beside the definition.

  \<^item> \<open>Xv6_Prelude\<close>: the monad, the loops, the collections \<open>k_simps\<close>, \<open>lock_simps\<close> and \<open>k_pres\<close>.
  \<^item> \<open>Xv6_Riscv\<close> (\<^verbatim>\<open>riscv.h\<close>, \<^verbatim>\<open>memlayout.h\<close>, \<^verbatim>\<open>param.h\<close>): registers, page table bits, addresses.
  \<^item> \<open>Xv6_Spinlock\<close> (\<^verbatim>\<open>spinlock.c\<close>): the lock operations; mutual exclusion as an invariant of the
    inductive relation of the steps all CPUs can make.
  \<^item> \<open>Xv6_Memory\<close> (\<^verbatim>\<open>string.c\<close>): memory and strings; \<open>memmove\<close> with overlap, the bounded copies.
  \<^item> \<open>Xv6_Kalloc\<close> (\<^verbatim>\<open>kalloc.c\<close>): the free list; allocation and release conserve the pages.
  \<^item> \<open>Xv6_Vm\<close>, \<open>Xv6_Pagetable\<close>, \<open>Xv6_Usercopy\<close> (\<^verbatim>\<open>vm.c\<close>): page tables in memory; what \<open>mappages\<close> maps;
    \<open>copyout\<close> and \<open>copyin\<close> across page boundaries, on success and on failure.
  \<^item> \<open>Xv6_Proc\<close>, \<open>Xv6_Scheduler\<close>, \<open>Xv6_Wakeup\<close> (\<^verbatim>\<open>proc.c\<close>, \<^verbatim>\<open>random.c\<close>): processes; both scheduling
    policies, who wins a lottery and how often, that a pass is safe and leaves no lock held;
    \<open>sleep\<close>, \<open>wakeup\<close>, \<open>kill\<close>.
  \<^item> \<open>Xv6_Sleeplock\<close> (\<^verbatim>\<open>sleeplock.c\<close>): ownership of a sleep lock.
  \<^item> \<open>Xv6_Virtio\<close>, \<open>Xv6_Bio\<close>, \<open>Xv6_Log\<close>, \<open>Xv6_Fs\<close> (\<^verbatim>\<open>virtio_disk.c\<close>, \<^verbatim>\<open>bio.c\<close>, \<^verbatim>\<open>log.c\<close>, \<^verbatim>\<open>fs.c\<close>): the file system.
  \<^item> \<open>Xv6_Console\<close> (\<^verbatim>\<open>uart.c\<close>, \<^verbatim>\<open>console.c\<close>), \<open>Xv6_File\<close> (\<^verbatim>\<open>file.c\<close>, \<^verbatim>\<open>pipe.c\<close>), \<open>Xv6_Exec\<close> (\<^verbatim>\<open>exec.c\<close>),
    \<open>Xv6_Syscall\<close> (\<^verbatim>\<open>syscall.c\<close>, \<^verbatim>\<open>sysproc.c\<close>, \<^verbatim>\<open>sysfile.c\<close>), \<open>Xv6_Trap\<close> (\<^verbatim>\<open>trap.c\<close>, \<^verbatim>\<open>plic.c\<close>,
    \<^verbatim>\<open>start.c\<close>, \<^verbatim>\<open>main.c\<close>): the rest of the kernel.

  \<^bold>\<open>User programs.\<close> A program is a value of type \<open>('w, 'a) prog\<close> over a world \<open>'w\<close> that the system calls
  act on: it returns, exits, is replaced by \<open>exec\<close>, or is stuck (fuel used up, or behaviour that C
  leaves undefined). The system calls are a record \<open>'w usys\<close>, an argument of every program; what a
  theorem needs of them (reads deliver an input in pieces, writes are complete) is a hypothesis,
  with an instance in the witness.

  \<^item> \<open>Xv6_User\<close> (\<^verbatim>\<open>ulib.c\<close>, \<^verbatim>\<open>printf.c\<close>): the library; numbers printed and read back.
  \<^item> \<open>Xv6_Utils\<close>: \<^verbatim>\<open>cat\<close>, \<^verbatim>\<open>echo\<close>, \<^verbatim>\<open>wc\<close>, \<^verbatim>\<open>ls\<close>, \<^verbatim>\<open>kill\<close>, \<^verbatim>\<open>ln\<close>, \<^verbatim>\<open>rm\<close>, \<^verbatim>\<open>mkdir\<close>, \<^verbatim>\<open>settickets\<close>, \<^verbatim>\<open>lotterytest\<close>, \<^verbatim>\<open>zombie\<close>,
    \<^verbatim>\<open>init\<close>; what \<^verbatim>\<open>cat\<close> and \<^verbatim>\<open>wc\<close> write.
  \<^item> \<open>Xv6_Grep\<close> (\<^verbatim>\<open>grep.c\<close>): the matcher decides the language of its pattern; which lines are written.
  \<^item> \<open>Xv6_Sh\<close> (\<^verbatim>\<open>sh.c\<close>): the parser on pointers into the line, its termination, that the zeros it stores
    in place do not damage a word, that it reads back every command it could have been given.

  \<^bold>\<open>The image.\<close> \<open>Xv6_Mkfs\<close> (\<^verbatim>\<open>mkfs.c\<close>) and \<open>Xv6_Layout\<close>: that the kernel reads what the builder wrote
  (super block, inodes, bitmap, directory entries), and the components of a path.

  \<^bold>\<open>Not modelled.\<close> The assembly files (\<^verbatim>\<open>entry.S\<close>, \<^verbatim>\<open>swtch.S\<close>, \<^verbatim>\<open>trampoline.S\<close>, \<^verbatim>\<open>initcode.S\<close>, \<^verbatim>\<open>usys.S\<close>
  and \<^verbatim>\<open>kernelvec.S\<close>): register contents across a switch are part of the functions around them. The
  kernel's own \<^verbatim>\<open>printf\<close> and \<^verbatim>\<open>panic\<close> are not in the repository; a panic is a reason not to return.
  The test programs (\<^verbatim>\<open>usertests.c\<close>, \<^verbatim>\<open>grind.c\<close>, \<^verbatim>\<open>forktest.c\<close>, \<^verbatim>\<open>stressfs.c\<close>) have no function of the system.
  The allocator of the user library (\<^verbatim>\<open>umalloc.c\<close>) is taken to succeed where the shell uses it.
  Interleaving is modelled at the lock operations (\<open>Xv6_Spinlock\<close>) and where a process gives up the CPU;
  a data race between two CPUs inside a critical section is not.
\<close>

end
